(* ===== verification/Prelude.thy ===== *)
theory Prelude
  imports Main "HOL-Library.Word"
begin

text \<open>
  Shared vocabulary of the development: Go's machine integers, panics and error values, the
  runtime environment (entropy and sleeping), big-endian fields and the byte-level connection
  underneath every wrapper of the program.

  \<^item> Go's \<open>int\<close> and \<open>int64\<close> are \<open>int\<close> with the 64-bit wrap-around written as
    \<open>i64\<close> where the arithmetic can overflow.
  \<^item> A function that can panic returns an \<open>outcome\<close>; an error is a value of \<open>gerror\<close>.
  \<^item> Randomness is an explicit sequence of draws, so a theorem for every \<open>world\<close> is a
    theorem for every behaviour of the random source, failures included.
\<close>

named_theorems wire_simps \<open>laws of the big-endian fields\<close>
named_theorems outcome_simps \<open>unfolding of outcomes and result pairs\<close>

section \<open>Machine integers\<close>

type_synonym byte = "8 word"
type_synonym bytes = "8 word list"

text \<open>The value an \<open>int64\<close> register holds after an exact result \<open>x\<close> is stored in it.\<close>

definition i64 :: "int \<Rightarrow> int" where
  "i64 x = signed_take_bit 63 x"

definition in_i64 :: "int \<Rightarrow> bool" where
  "in_i64 x \<longleftrightarrow> - (2 ^ 63) \<le> x \<and> x < 2 ^ 63"

lemma i64_id: "in_i64 x \<Longrightarrow> i64 x = x"
  by (simp add: i64_def in_i64_def signed_take_bit_int_eq_self)

lemma i64_small: "- 9223372036854775808 \<le> x \<Longrightarrow> x \<le> 9223372036854775807 \<Longrightarrow> i64 x = x"
  by (rule i64_id) (simp add: in_i64_def)

lemma in_i64_i64: "in_i64 (i64 x)"
  using signed_take_bit_int_greater_eq_minus_exp [of 63 x] signed_take_bit_int_less_exp [of 63 x]
  by (simp add: i64_def in_i64_def)

text \<open>Go's integer remainder has the sign of the dividend.\<close>

definition go_rem :: "int \<Rightarrow> int \<Rightarrow> int" where
  "go_rem a b = sgn a * (\<bar>a\<bar> mod \<bar>b\<bar>)"

lemma go_rem_nonneg: "0 \<le> a \<Longrightarrow> go_rem a b = a mod \<bar>b\<bar>"
  by (cases "a = 0") (simp_all add: go_rem_def)

text \<open>\<open>if x <= 0 { x = d }\<close>, the way every numeric setting gets its default.\<close>

definition pos_or :: "int \<Rightarrow> int \<Rightarrow> int" where
  "pos_or x d = (if x \<le> 0 then d else x)"

lemma pos_or_pos [simp]: "0 < d \<Longrightarrow> 0 < pos_or x d"
  by (simp add: pos_or_def)

lemma pos_or_id [simp]: "0 < x \<Longrightarrow> pos_or x d = x"
  by (simp add: pos_or_def)

section \<open>Panics and errors\<close>

datatype panic =
    SliceBounds
  | MakeSliceLen
  | DivideByZero
  | IndexRange
  | NilDeref
  | MuxPattern string

datatype 'a outcome = Panic panic | Return 'a

fun obind :: "'a outcome \<Rightarrow> ('a \<Rightarrow> 'b outcome) \<Rightarrow> 'b outcome" where
  "obind (Panic p) f = Panic p"
| "obind (Return x) f = f x"

lemma obind_Return_iff [outcome_simps]:
  "obind m f = Return y \<longleftrightarrow> (\<exists>x. m = Return x \<and> f x = Return y)"
  by (cases m) simp_all

text \<open>
  Error values: the two end-of-input errors of package io, an operating system error, and what
  \<open>errors.New\<close> and \<open>fmt.Errorf\<close> build (a message, a message with a number or a string
  filled in, a message wrapping another error).
\<close>

datatype gerror =
    EOF
  | UnexpectedEOF
  | Errno int
  | Errorf string
  | ErrorfInt string int
  | ErrorfStr string string
  | Wrap string gerror

section \<open>The runtime environment: entropy and sleeping\<close>

text \<open>
  A draw is what one read of the random source gives: \<open>Some v\<close> a value, \<open>None\<close> a failed
  read; the source fails for good when the list is used up. \<open>w_sleeps\<close> records the arguments
  of \<open>time.Sleep\<close> in nanoseconds.
\<close>

type_synonym entropy = "nat option list"

record world =
  w_entropy :: entropy
  w_sleeps :: "int list"

definition sleep :: "int \<Rightarrow> world \<Rightarrow> world" where
  "sleep d w = w\<lparr>w_sleeps := w_sleeps w @ [d]\<rparr>"

definition millisecond :: int where
  "millisecond = 1000000"

definition second :: int where
  "second = 1000000000"

text \<open>\<open>secureRandInt\<close> of encrypted_conn.go: uniform in \<open>[0, n)\<close>, 0 when \<open>n\<close> is not
  positive or the source fails.\<close>

definition secureRandInt :: "int \<Rightarrow> world \<Rightarrow> int \<times> world" where
  "secureRandInt n w =
     (if n \<le> 0 then (0, w)
      else case w_entropy w of
        [] \<Rightarrow> (0, w)
      | d # ds \<Rightarrow>
          (case d of None \<Rightarrow> 0 | Some v \<Rightarrow> int v mod n, w\<lparr>w_entropy := ds\<rparr>))"

lemma secureRandInt_nonneg: "secureRandInt n w = (r, w') \<Longrightarrow> 0 \<le> r"
  by (auto simp: secureRandInt_def split: if_splits list.splits option.splits)

lemma secureRandInt_less: "secureRandInt n w = (r, w') \<Longrightarrow> 0 < n \<Longrightarrow> r < n"
  by (auto simp: secureRandInt_def split: if_splits list.splits option.splits)

lemma secureRandInt_nonpos [simp]: "n \<le> 0 \<Longrightarrow> secureRandInt n w = (0, w)"
  by (simp add: secureRandInt_def)

lemma secureRandInt_sleeps: "secureRandInt n w = (r, w') \<Longrightarrow> w_sleeps w' = w_sleeps w"
  by (auto simp: secureRandInt_def split: if_splits list.splits)

lemma secureRandInt_fst_nonneg [simp]: "0 \<le> fst (secureRandInt n w)"
  using secureRandInt_nonneg [of n w "fst (secureRandInt n w)"] by (metis prod.collapse)

lemma secureRandInt_fst_le: "fst (secureRandInt n w) \<le> max 0 (n - 1)"
proof (cases "0 < n")
  case True
  then show ?thesis
    using secureRandInt_less [of n w "fst (secureRandInt n w)" "snd (secureRandInt n w)"] by simp
next
  case False
  then show ?thesis by simp
qed

text \<open>
  \<open>rand.Read\<close> into a zeroed buffer of length \<open>n\<close>: the buffer, whether it was filled, and
  what is left of the source. A failed read leaves the rest of the buffer zero.
\<close>

fun fill :: "nat \<Rightarrow> entropy \<Rightarrow> bytes \<times> bool \<times> entropy" where
  "fill 0 e = ([], True, e)"
| "fill (Suc n) [] = (replicate (Suc n) 0, False, [])"
| "fill (Suc n) (None # e) = (replicate (Suc n) 0, False, e)"
| "fill (Suc n) (Some v # e) =
     (let (bs, ok, e') = fill n e in (word_of_nat v # bs, ok, e'))"

definition randRead :: "nat \<Rightarrow> world \<Rightarrow> (bytes \<times> bool) \<times> world" where
  "randRead n w = (let (bs, ok, e) = fill n (w_entropy w) in ((bs, ok), w\<lparr>w_entropy := e\<rparr>))"

lemma length_fill: "length (fst (fill n e)) = n"
  by (induction n e rule: fill.induct) (auto split: prod.splits)

lemma length_randRead: "randRead n w = ((bs, ok), w') \<Longrightarrow> length bs = n"
  using length_fill [of n "w_entropy w"] by (auto simp: randRead_def split: prod.splits)

lemma fill_ok: "list_all (\<lambda>d. d \<noteq> None) (take n e) \<Longrightarrow> n \<le> length e \<Longrightarrow> fst (snd (fill n e))"
  by (induction n e rule: fill.induct) (auto split: prod.splits)

section \<open>Big-endian fields\<close>

text \<open>\<open>binary.BigEndian.PutUint16\<close>, \<open>Uint16\<close>, \<open>PutUint32\<close> and \<open>Uint32\<close>.\<close>

definition put16 :: "16 word \<Rightarrow> bytes" where
  "put16 x = [ucast (drop_bit 8 x), ucast x]"

definition put32 :: "32 word \<Rightarrow> bytes" where
  "put32 x = [ucast (drop_bit 24 x), ucast (drop_bit 16 x), ucast (drop_bit 8 x), ucast x]"

definition get16 :: "byte \<Rightarrow> byte \<Rightarrow> 16 word" where
  "get16 a b = or (push_bit 8 (ucast a)) (ucast b)"

definition get32 :: "byte \<Rightarrow> byte \<Rightarrow> byte \<Rightarrow> byte \<Rightarrow> 32 word" where
  "get32 a b c d =
     or (push_bit 24 (ucast a)) (or (push_bit 16 (ucast b)) (or (push_bit 8 (ucast c)) (ucast d)))"

lemma length_put16 [simp]: "length (put16 x) = 2"
  by (simp add: put16_def)

lemma length_put32 [simp]: "length (put32 x) = 4"
  by (simp add: put32_def)

lemma get16_put16 [wire_simps]: "get16 (ucast (drop_bit 8 x)) (ucast x) = x"
  by (rule bit_word_eqI)
    (auto simp: get16_def bit_or_iff bit_push_bit_iff bit_ucast_iff bit_drop_bit_eq)

lemma get32_put32 [wire_simps]:
  "get32 (ucast (drop_bit 24 x)) (ucast (drop_bit 16 x)) (ucast (drop_bit 8 x)) (ucast x) = x"
proof (rule bit_word_eqI)
  fix n
  assume "n < LENGTH(32)"
  then consider "n < 8" | "8 \<le> n" "n < 16" | "16 \<le> n" "n < 24" | "24 \<le> n" "n < 32"
    by fastforce
  then show "bit (get32 (ucast (drop_bit 24 x)) (ucast (drop_bit 16 x)) (ucast (drop_bit 8 x))
      (ucast x)) n = bit x n"
    by cases
      (auto simp: get32_def bit_or_iff bit_push_bit_iff bit_ucast_iff bit_drop_bit_eq)
qed

text \<open>The readers take the field at the front of a slice.\<close>

definition be16 :: "bytes \<Rightarrow> 16 word" where
  "be16 b = get16 (b ! 0) (b ! 1)"

definition be32 :: "bytes \<Rightarrow> 32 word" where
  "be32 b = get32 (b ! 0) (b ! 1) (b ! 2) (b ! 3)"

lemma be16_put16 [wire_simps]: "be16 (put16 x @ bs) = x"
  by (simp add: be16_def put16_def get16_put16)

lemma be32_put32 [wire_simps]: "be32 (put32 x @ bs) = x"
  by (simp add: be32_def put32_def numeral_2_eq_2 numeral_3_eq_3 get32_put32)

lemma be16_take [wire_simps]: "be16 (take 2 bs) = be16 bs"
  by (simp add: be16_def)

lemma be32_take [wire_simps]: "be32 (take 4 bs) = be32 bs"
  by (simp add: be32_def)

lemma be16_append: "2 \<le> length a \<Longrightarrow> be16 (a @ b) = be16 a"
  using be16_take [of "a @ b"] be16_take [of a] by simp

lemma be32_append: "4 \<le> length a \<Longrightarrow> be32 (a @ b) = be32 a"
  using be32_take [of "a @ b"] be32_take [of a] by simp

lemma unat_length16: "n < 65536 \<Longrightarrow> unat (word_of_nat n :: 16 word) = n"
  by (simp add: unsigned_of_nat take_bit_nat_eq_self)

lemma unat_length32: "n < 4294967296 \<Longrightarrow> unat (word_of_nat n :: 32 word) = n"
  by (simp add: unsigned_of_nat take_bit_nat_eq_self)

end
