(* ===== verification/Conn.thy ===== *)
theory Conn
  imports Prelude
begin

text \<open>
  The \<open>net.Conn\<close> underneath every wrapper of the program, as the wrappers use it: bytes still
  to arrive and bytes already written, a schedule of how many bytes each \<open>Read\<close> delivers and
  one of write failures; \<open>deadline\<close> is the read deadline that is set, in seconds from then, and
  what a read reports that runs into it is the connection's error. \<open>io.ReadFull\<close> is the loop of package io over \<open>Read\<close>. The two
  interface locales state what a layer above may rely on: a sink delivers what is written to it,
  in order; a source gives out its pending bytes, in order.
\<close>

record conn =
  rx :: bytes
  segs :: "bytes list"
  chunks :: "nat list"
  werrs :: "(nat \<times> gerror) option list"
  rerr :: gerror
  closed :: bool
  deadline :: "nat option"

definition new_conn :: "bytes \<Rightarrow> conn" where
  "new_conn bs = \<lparr>rx = bs, segs = [], chunks = [], werrs = [], rerr = EOF, closed = False, deadline = None\<rparr>"

text \<open>All bytes written, whatever \<open>Write\<close> calls they came in.\<close>

definition tx :: "conn \<Rightarrow> bytes" where
  "tx c = concat (segs c)"

lemma tx_simps [simp]:
  "tx (c\<lparr>segs := segs c @ [b]\<rparr>) = tx c @ b" "tx (c\<lparr>rx := x\<rparr>) = tx c"
  "tx (c\<lparr>werrs := s\<rparr>) = tx c" "tx (c\<lparr>chunks := k\<rparr>) = tx c" "tx (c\<lparr>closed := y\<rparr>) = tx c"
  "tx (c\<lparr>segs := segs c @ [b], werrs := s\<rparr>) = tx c @ b"
  "tx (c\<lparr>rx := x, chunks := k\<rparr>) = tx c" "tx (new_conn x) = []"
  "tx \<lparr>rx = x, segs = ss, chunks = k, werrs = s, rerr = e, closed = y, deadline = d\<rparr> = concat ss"
  by (simp_all add: tx_def new_conn_def)

type_synonym iores = "nat \<times> gerror option"

section \<open>Write, Close, Read\<close>

text \<open>A failing write puts a prefix on the wire and returns its length with the error.\<close>

definition conn_write :: "conn \<Rightarrow> bytes \<Rightarrow> iores \<times> conn" where
  "conn_write c b =
     (case werrs c of
       [] \<Rightarrow> ((length b, None), c\<lparr>segs := segs c @ [b]\<rparr>)
     | None # s \<Rightarrow> ((length b, None), c\<lparr>segs := segs c @ [b], werrs := s\<rparr>)
     | Some (k, e) # s \<Rightarrow>
         ((min k (length b), Some e), c\<lparr>segs := segs c @ [take k b], werrs := s\<rparr>))"

definition conn_close :: "conn \<Rightarrow> conn" where
  "conn_close c = c\<lparr>closed := True\<rparr>"

definition next_chunk :: "conn \<Rightarrow> nat" where
  "next_chunk c = (case chunks c of [] \<Rightarrow> length (rx c) | k # _ \<Rightarrow> Suc k)"

text \<open>One \<open>Read\<close> into a buffer of \<open>n\<close> bytes.\<close>

definition conn_read :: "nat \<Rightarrow> conn \<Rightarrow> (bytes \<times> gerror option) \<times> conn" where
  "conn_read n c =
     (if rx c = [] then (([], Some (rerr c)), c)
      else let k = min n (next_chunk c)
           in ((take k (rx c), None), c\<lparr>rx := drop k (rx c), chunks := tl (chunks c)\<rparr>))"

lemma conn_read_Some: "conn_read n c = ((bs, Some e), c') \<Longrightarrow> bs = [] \<and> rx c = [] \<and> e = rerr c \<and> c' = c"
  by (auto simp: conn_read_def Let_def split: if_splits)

lemma conn_read_None:
  assumes "conn_read n c = ((bs, None), c')"
  shows "rx c = bs @ rx c'" and "length bs \<le> n" and "0 < n \<Longrightarrow> bs \<noteq> []"
    and "tx c' = tx c" and "rerr c' = rerr c" and "werrs c' = werrs c" and "closed c' = closed c"
  using assms
  by (auto simp: conn_read_def next_chunk_def Let_def min_def split: if_splits list.splits)

section \<open>io.ReadFull\<close>

function readAtLeast :: "nat \<Rightarrow> conn \<Rightarrow> (bytes \<times> gerror option) \<times> conn" where
  "readAtLeast n c =
     (if n = 0 then (([], None), c)
      else case conn_read n c of
        ((bs, Some e), c') \<Rightarrow> ((bs, Some e), c')
      | ((bs, None), c') \<Rightarrow>
          (case readAtLeast (n - length bs) c' of ((bs', e), c'') \<Rightarrow> ((bs @ bs', e), c'')))"
  by pat_completeness auto
termination
proof (relation "measure fst", simp)
  fix n c p c' bs e
  assume "n \<noteq> 0" "(p, c') = conn_read n c" "(bs, e) = p" "e = None"
  then have "bs \<noteq> []"
    using conn_read_None(3) [of n c bs c'] by simp
  with \<open>n \<noteq> 0\<close> show "((n - length bs, c'), n, c) \<in> measure fst"
    by simp
qed

declare readAtLeast.simps [simp del]

definition readFull :: "nat \<Rightarrow> conn \<Rightarrow> (bytes \<times> gerror option) \<times> conn" where
  "readFull n c =
     (case readAtLeast n c of ((bs, e), c') \<Rightarrow>
        if length bs \<ge> n then ((bs, None), c')
        else if bs \<noteq> [] \<and> e = Some EOF then ((bs, Some UnexpectedEOF), c')
        else ((bs, e), c'))"

text \<open>However the bytes arrive, the loop returns the first \<open>n\<close> of them or all there are.\<close>

lemma readAtLeast_spec:
  "\<exists>c'. readAtLeast n c = ((take n (rx c), if n \<le> length (rx c) then None else Some (rerr c)), c') \<and>
     rx c' = drop n (rx c) \<and> tx c' = tx c \<and> werrs c' = werrs c \<and> rerr c' = rerr c \<and>
     closed c' = closed c"
proof (induction n c rule: readAtLeast.induct)
  case (1 n c)
  show ?case
  proof (cases "n = 0")
    case True
    then show ?thesis by (simp add: readAtLeast.simps)
  next
    case nz: False
    obtain bs r c' where rd: "conn_read n c = ((bs, r), c')"
      by (metis prod.collapse)
    show ?thesis
    proof (cases r)
      case (Some e)
      with rd nz show ?thesis
        using conn_read_Some [of n c bs e c'] by (simp add: readAtLeast.simps [of n c])
    next
      case None
      note f = conn_read_None [OF rd [unfolded None]]
      have IH: "\<exists>c''. readAtLeast (n - length bs) c' =
          ((take (n - length bs) (rx c'),
            if n - length bs \<le> length (rx c') then None else Some (rerr c')), c'') \<and>
          rx c'' = drop (n - length bs) (rx c') \<and> tx c'' = tx c' \<and> werrs c'' = werrs c' \<and>
          rerr c'' = rerr c' \<and> closed c'' = closed c'"
        by (rule "1.IH" [OF nz rd [symmetric] refl None])
      with rd None nz f show ?thesis
        by (auto simp: readAtLeast.simps [of n c] split: if_splits)
    qed
  qed
qed

lemma readFull_enough:
  assumes "n \<le> length (rx c)"
  shows "\<exists>c'. readFull n c = ((take n (rx c), None), c') \<and> rx c' = drop n (rx c) \<and> tx c' = tx c \<and>
    werrs c' = werrs c \<and> rerr c' = rerr c \<and> closed c' = closed c"
  using readAtLeast_spec [of n c] assms by (auto simp: readFull_def)

lemma readFull_short:
  assumes "length (rx c) < n"
  shows "\<exists>c'. readFull n c = ((rx c, Some (if rx c \<noteq> [] \<and> rerr c = EOF then UnexpectedEOF else rerr c)), c') \<and>
    rx c' = []"
  using readAtLeast_spec [of n c] assms by (auto simp: readFull_def)

section \<open>The interface of a sink and of a source\<close>

text \<open>
  \<open>sent s\<close> is what the peer of \<open>s\<close> can recover so far, \<open>fits\<close> the size of a write the
  layer supports, \<open>ok\<close> that its configuration is in range and no write failed before. A write
  returns; when it reports no error it took all of the data and the peer recovers exactly that.
\<close>

type_synonym 's writer = "'s \<Rightarrow> bytes \<Rightarrow> world \<Rightarrow> (iores \<times> 's \<times> world) outcome"
type_synonym 's reader = "'s \<Rightarrow> nat \<Rightarrow> ((bytes \<times> gerror option) \<times> 's) outcome"

locale byte_sink =
  fixes wr :: "'s writer"
    and sent :: "'s \<Rightarrow> bytes"
    and ok :: "'s \<Rightarrow> bool"
    and fits :: "'s \<Rightarrow> bytes \<Rightarrow> bool"
  assumes wr_ok: "ok s \<Longrightarrow> fits s d \<Longrightarrow>
    \<exists>n e s' w'. wr s d w = Return ((n, e), s', w') \<and>
      (e = None \<longrightarrow> n = length d \<and> ok s' \<and> sent s' = sent s @ d \<and> fits s' = fits s)"

text \<open>Writing one buffer after another, as the callers of \<open>Write\<close> do, until an error.\<close>

fun write_all :: "'s writer \<Rightarrow> 's \<Rightarrow> bytes list \<Rightarrow> world \<Rightarrow> (gerror option \<times> 's \<times> world) outcome" where
  "write_all wr s [] w = Return (None, s, w)"
| "write_all wr s (d # ds) w =
     (case wr s d w of
       Panic p \<Rightarrow> Panic p
     | Return ((n, Some e), s', w') \<Rightarrow> Return (Some e, s', w')
     | Return ((n, None), s', w') \<Rightarrow> write_all wr s' ds w')"

context byte_sink begin

lemma write_all_sent:
  "ok s \<Longrightarrow> list_all (fits s) ds \<Longrightarrow>
     \<exists>e s' w'. write_all wr s ds w = Return (e, s', w') \<and>
       (e = None \<longrightarrow> ok s' \<and> sent s' = sent s @ concat ds \<and> fits s' = fits s)"
proof (induction ds arbitrary: s w)
  case Nil
  then show ?case by simp
next
  case (Cons d ds)
  obtain n e s' w' where 1: "wr s d w = Return ((n, e), s', w')"
      "e = None \<longrightarrow> ok s' \<and> sent s' = sent s @ d \<and> fits s' = fits s"
    using wr_ok [of s d w] Cons.prems by auto
  show ?case
  proof (cases e)
    case None
    with 1 Cons.prems obtain e' s'' w'' where "write_all wr s' ds w' = Return (e', s'', w'')"
        "e' = None \<longrightarrow> ok s'' \<and> sent s'' = sent s' @ concat ds \<and> fits s'' = fits s'"
      using Cons.IH [of s' w'] by auto
    with 1 None show ?thesis by auto
  next
    case Some
    with 1 show ?thesis by auto
  qed
qed

end

text \<open>
  \<open>pending r\<close> is what the source still has to give; \<open>work r\<close> bounds the reads of at least
  one byte until it is used up.
\<close>

locale byte_source =
  fixes rd :: "'r reader"
    and pending :: "'r \<Rightarrow> bytes option"
    and live :: "'r \<Rightarrow> bool"
    and work :: "'r \<Rightarrow> nat"
  assumes rd_live: "pending r = Some q \<Longrightarrow> live r \<Longrightarrow>
      \<exists>bs r' q'. rd r k = Return ((bs, None), r') \<and> pending r' = Some q' \<and> q = bs @ q' \<and>
        length bs \<le> k \<and> (0 < k \<longrightarrow> work r' < work r)"
    and rd_done: "pending r = Some q \<Longrightarrow> \<not> live r \<Longrightarrow>
      q = [] \<and> (\<exists>e. rd r k = Return (([], e), r) \<and> (e = Some EOF \<or> e = None \<and> k = 0))"

text \<open>Reading with buffers of the given sizes, until an error.\<close>

fun read_all :: "'r reader \<Rightarrow> 'r \<Rightarrow> nat list \<Rightarrow> ((bytes \<times> gerror option) \<times> 'r) outcome" where
  "read_all rd r [] = Return (([], None), r)"
| "read_all rd r (k # ks) =
     (case rd r k of
       Panic p \<Rightarrow> Panic p
     | Return ((bs, Some e), r') \<Rightarrow> Return ((bs, Some e), r')
     | Return ((bs, None), r') \<Rightarrow>
         obind (read_all rd r' ks) (\<lambda>((bs', e), r''). Return ((bs @ bs', e), r'')))"

context byte_source begin

lemma read_all_prefix:
  "pending r = Some q \<Longrightarrow>
     \<exists>bs e r' q'. read_all rd r ks = Return ((bs, e), r') \<and> pending r' = Some q' \<and> q = bs @ q' \<and>
       (e = None \<or> e = Some EOF \<and> q' = [])"
proof (induction ks arbitrary: r q)
  case Nil
  then show ?case by simp
next
  case (Cons k ks)
  show ?case
  proof (cases "live r")
    case True
    obtain bs r' q' where 1: "rd r k = Return ((bs, None), r')" "pending r' = Some q'" "q = bs @ q'"
      using rd_live [OF Cons.prems True, of k] by auto
    obtain bs' e r'' q'' where "read_all rd r' ks = Return ((bs', e), r'')" "pending r'' = Some q''"
        "q' = bs' @ q''" "e = None \<or> e = Some EOF \<and> q'' = []"
      using Cons.IH [OF 1(2)] by auto
    with 1 show ?thesis by auto
  next
    case False
    then obtain e where e: "q = []" "rd r k = Return (([], e), r)" "e = Some EOF \<or> e = None"
      using rd_done [OF Cons.prems False, of k] by blast
    then show ?thesis using Cons.IH [OF Cons.prems] Cons.prems by auto
  qed
qed

lemma read_all_complete:
  "pending r = Some q \<Longrightarrow> 0 < k \<Longrightarrow>
     \<exists>N r'. read_all rd r (replicate N k) = Return ((q, Some EOF), r')"
proof (induction "work r" arbitrary: r q rule: less_induct)
  case less
  show ?case
  proof (cases "live r")
    case True
    obtain bs r' q' where 1: "rd r k = Return ((bs, None), r')" "pending r' = Some q'" "q = bs @ q'"
        "work r' < work r"
      using rd_live [OF less.prems(1) True, of k] less.prems(2) by auto
    obtain N r'' where "read_all rd r' (replicate N k) = Return ((q', Some EOF), r'')"
      using less.hyps [OF 1(4,2) less.prems(2)] by blast
    with 1 have "read_all rd r (replicate (Suc N) k) = Return ((q, Some EOF), r'')" by simp
    then show ?thesis by blast
  next
    case False
    with rd_done [OF less.prems(1) False, of k] less.prems(2)
    have "read_all rd r (replicate 1 k) = Return ((q, Some EOF), r)" by simp
    then show ?thesis by blast
  qed
qed

end

text \<open>The connection itself is a sink and a source.\<close>

definition conn_wr :: "conn writer" where
  "conn_wr c b w = (case conn_write c b of (r, c') \<Rightarrow> Return (r, c', w))"

definition conn_rd :: "conn reader" where
  "conn_rd c k = Return (conn_read k c)"

definition write_ok :: "conn \<Rightarrow> bool" where
  "write_ok c \<longleftrightarrow> list_all (\<lambda>e. e = None) (werrs c)"

lemma conn_write_ok:
  "write_ok c \<Longrightarrow> \<exists>c'. conn_write c b = ((length b, None), c') \<and> write_ok c' \<and> tx c' = tx c @ b \<and>
     rx c' = rx c \<and> rerr c' = rerr c \<and> closed c' = closed c"
  by (cases "werrs c") (auto simp: conn_write_def write_ok_def)

lemma conn_write_None:
  "conn_write c b = ((n, None), c') \<Longrightarrow> n = length b \<and> tx c' = tx c @ b \<and> rx c' = rx c \<and>
     rerr c' = rerr c \<and> closed c' = closed c"
  by (auto simp: conn_write_def split: list.splits option.splits)

interpretation raw_sink: byte_sink conn_wr tx "\<lambda>_. True" "\<lambda>_ _. True"
proof
  fix s :: conn and d :: bytes and w :: world
  show "\<exists>n e s' w'. conn_wr s d w = Return ((n, e), s', w') \<and>
      (e = None \<longrightarrow> n = length d \<and> True \<and> tx s' = tx s @ d \<and> (\<lambda>_. True) = (\<lambda>_. True))"
    using conn_write_None by (cases "conn_write s d") (auto simp: conn_wr_def)
qed

definition conn_pending :: "conn \<Rightarrow> bytes option" where
  "conn_pending c = (if rerr c = EOF then Some (rx c) else None)"

interpretation raw_source: byte_source conn_rd conn_pending "\<lambda>c. rx c \<noteq> []" "\<lambda>c. length (rx c)"
proof
  fix r :: conn and q :: bytes and k :: nat
  assume p: "conn_pending r = Some q"
  then have eof: "rerr r = EOF" and q: "q = rx r"
    by (auto simp: conn_pending_def split: if_splits)
  show "rx r \<noteq> [] \<Longrightarrow>
      \<exists>bs r' q'. conn_rd r k = Return ((bs, None), r') \<and> conn_pending r' = Some q' \<and> q = bs @ q' \<and>
        length bs \<le> k \<and> (0 < k \<longrightarrow> length (rx r') < length (rx r))"
    using eof q by (auto simp: conn_rd_def conn_read_def next_chunk_def Let_def conn_pending_def
        split: list.split)
  show "\<not> rx r \<noteq> [] \<Longrightarrow>
      q = [] \<and> (\<exists>e. conn_rd r k = Return (([], e), r) \<and> (e = Some EOF \<or> e = None \<and> k = 0))"
    using eof q by (simp add: conn_rd_def conn_read_def)
qed

end
