(* ===== verification/ConfigTypes.thy ===== *)
theory ConfigTypes
  imports Prelude
begin

text \<open>
  The configuration structs of config.go, with those of obfuscation.go, mimic.go and
  tls_fragment.go they embed: one record per struct, one field per Go field, each prefixed by
  its struct. Strings are byte strings, \<open>int\<close> fields are \<open>int\<close>, and the one \<open>float64\<close>
  is kept as its 64 bits.
\<close>

record ObfsConfig =
  ob_Enabled :: bool
  ob_MinPadding :: int
  ob_MaxPadding :: int
  ob_MinDelayMS :: int
  ob_MaxDelayMS :: int
  ob_BurstChance :: int

record StealthConfig =
  st_RandomPadding :: bool
  st_MinPadding :: int
  st_MaxPadding :: int
  st_KeepaliveJitter :: int
  st_ConnJitterMS :: int
  st_BurstSplit :: bool
  st_MaxBurstSize :: int
  st_FakeTraffic :: bool
  st_FakeTrafficInterval :: int

record PathConfig =
  pa_Transport :: string
  pa_Addr :: string
  pa_ConnectionPool :: int
  pa_AggressivePool :: bool
  pa_RetryInterval :: int
  pa_DialTimeout :: int

record PortMap =
  pm_Type :: string
  pm_Bind :: string
  pm_Target :: string

record SmuxConfig =
  sm_KeepAlive :: int
  sm_MaxRecv :: int
  sm_MaxStream :: int
  sm_FrameSize :: int
  sm_Version :: int

record KCPConfig =
  kcp_NoDelay :: int
  kcp_Interval :: int
  kcp_Resend :: int
  kcp_NC :: int
  kcp_SndWnd :: int
  kcp_RcvWnd :: int
  kcp_MTU :: int

record AdvancedConfig =
  adv_TCPNoDelay :: bool
  adv_TCPKeepAlive :: int
  adv_TCPReadBuffer :: int
  adv_TCPWriteBuffer :: int
  adv_WebSocketReadBuffer :: int
  adv_WebSocketWriteBuffer :: int
  adv_WebSocketCompression :: bool
  adv_CleanupInterval :: int
  adv_SessionTimeout :: int
  adv_ConnectionTimeout :: int
  adv_StreamTimeout :: int
  adv_MaxConnections :: int
  adv_MaxUDPFlows :: int
  adv_UDPFlowTimeout :: int
  adv_UDPBufferSize :: int
  adv_MaxStreamsPerSession :: int

record HTTPMimicCompat =
  hm_FakeDomain :: string
  hm_FakePath :: string
  hm_UserAgent :: string
  hm_ChunkedEncoding :: bool
  hm_SessionCookie :: bool
  hm_CustomHeaders :: "string list"

record ObfsCompat =
  oc_Enabled :: bool
  oc_MinPadding :: int
  oc_MaxPadding :: int
  oc_MinDelayMS :: int
  oc_MaxDelayMS :: int
  oc_BurstChance :: "64 word"

record FragmentConfig =
  fr_Enabled :: bool
  fr_MinSize :: int
  fr_MaxSize :: int
  fr_MinDelay :: int
  fr_MaxDelay :: int

record MimicConfig =
  mi_FakeDomain :: string
  mi_FakePath :: string
  mi_UserAgent :: string
  mi_CustomHeaders :: "string list"
  mi_SessionCookie :: bool
  mi_Chunked :: bool

record Forward =
  fw_TCP :: "string list"
  fw_UDP :: "string list"

record Config =
  ConfigVersion :: int
  Mode :: string
  Listen :: string
  Transport :: string
  PSK :: string
  Profile :: string
  Verbose :: bool
  CertFile :: string
  KeyFile :: string
  MaxSessions :: int
  Heartbeat :: int
  NumConnections :: int
  EnableDecoy :: bool
  DecoyInterval :: int
  EmbedFakeHeaders :: bool
  ListenPorts :: "string list"
  Maps :: "PortMap list"
  Paths :: "PathConfig list"
  Smux :: SmuxConfig
  KCP :: KCPConfig
  Advanced :: AdvancedConfig
  Obfuscation :: ObfsCompat
  HTTPMimic :: HTTPMimicCompat
  Fragment :: FragmentConfig
  Stealth :: StealthConfig
  ServerURL :: string
  SessionID :: string
  forward :: Forward
  Mimic :: MimicConfig
  Obfs :: ObfsConfig
  SessionTimeout :: int

end
