(* ===== verification/Padding.thy ===== *)
theory Padding
  imports ConfigTypes
begin

text \<open>
  The three padding schemes: the per-packet padding of encrypted_conn.go (\<open>addPadding\<close>,
  \<open>removePadding\<close>), its stealth variant (\<open>addStealthPadding\<close>, \<open>removeStealthPadding\<close>) and
  \<open>ApplyObfuscation\<close> / \<open>StripObfuscation\<close> of obfuscation.go with \<open>ApplyDelay\<close>. The locale
  \<open>padding_scheme\<close> states what the packet layer needs of a scheme; each is an interpretation
  of it on the sizes its 16-bit length field can carry.
\<close>

section \<open>Buffers\<close>

text \<open>\<open>make([]byte, n)\<close>: the zeroed buffer, or the panic for a length that is negative.\<close>

definition go_make :: "int \<Rightarrow> bytes outcome" where
  "go_make n = (if n < 0 then Panic MakeSliceLen else Return (replicate (nat n) 0))"

text \<open>\<open>copy(out[at:], src)\<close>, which stops at the end of either slice.\<close>

definition copy_at :: "nat \<Rightarrow> bytes \<Rightarrow> bytes \<Rightarrow> bytes" where
  "copy_at at src out = take (length out) (take at out @ src @ drop (at + length src) out)"

lemma length_copy_at [simp]: "length (copy_at at src out) = length out"
  by (simp add: copy_at_def)

section \<open>encrypted_conn.go: padding with the length of the data\<close>

text \<open>
  The common part: \<open>out := make([]byte, 2+len(data)+padLen)\<close>, the 16-bit length of the data,
  the data, and random bytes over the rest. A negative \<open>padLen\<close> shortens the buffer.
\<close>

definition pad_with :: "int \<Rightarrow> bytes \<Rightarrow> world \<Rightarrow> (bytes \<times> world) outcome" where
  "pad_with padLen data w =
     obind (go_make (i64 (2 + int (length data) + padLen))) (\<lambda>out.
       if length out < 2 then Panic SliceBounds
       else
         let out = copy_at 0 (put16 (word_of_nat (length data))) out;
             out = copy_at 2 data out
         in if padLen > 0
            then (case randRead (nat padLen) w of ((r, _), w') \<Rightarrow>
              Return (copy_at (2 + length data) r out, w'))
            else Return (out, w))"

definition addPadding :: "bytes \<Rightarrow> ObfsConfig \<Rightarrow> world \<Rightarrow> (bytes \<times> world) outcome" where
  "addPadding data obfs w =
     (let diff = i64 (ob_MaxPadding obfs - ob_MinPadding obfs)
      in case (if diff > 0 then secureRandInt diff w else (0, w)) of
        (r, w') \<Rightarrow> pad_with (i64 (ob_MinPadding obfs + r)) data w')"

definition addStealthPadding :: "bytes \<Rightarrow> StealthConfig \<Rightarrow> world \<Rightarrow> (bytes \<times> world) outcome" where
  "addStealthPadding data s w =
     (case secureRandInt (i64 (st_MaxPadding s - st_MinPadding s + 1)) w of
       (r, w') \<Rightarrow> pad_with (i64 (st_MinPadding s + r)) data w')"

text \<open>
  The readers; \<open>None\<close> is Go's \<open>nil\<close>. In \<open>data[2 : 2+origLen]\<close> the sum is one of
  \<open>uint16\<close> values, and a slice whose end lies before its start panics.
\<close>

definition data_slice :: "16 word \<Rightarrow> bytes \<Rightarrow> bytes option outcome" where
  "data_slice origLen data =
     (let hi = unat (2 + origLen)
      in if hi < 2 then Panic SliceBounds
         else Return (Some (take (hi - 2) (drop 2 data))))"

definition removePadding :: "bytes \<Rightarrow> bytes option outcome" where
  "removePadding data =
     (if length data < 2 then Return None
      else let origLen = be16 data
           in if unat origLen + 2 > length data then Return None
              else data_slice origLen data)"

definition removeStealthPadding :: "bytes \<Rightarrow> bytes option outcome" where
  "removeStealthPadding data =
     (if length data < 2 then Return None
      else let origLen = be16 data
           in if unat origLen + 2 > length data \<or> origLen = 0 then Return None
              else data_slice origLen data)"

section \<open>obfuscation.go: padding with the length of the padding\<close>

definition decoyPatterns :: "string list" where
  "decoyPatterns =
     [''User-Agent: '', ''GET / HTTP/1.1'', ''POST / HTTP/1.1'', ''Host: '', ''Accept: */*'',
      ''Content-Type: application/octet-stream'', ''Connection: keep-alive'',
      ''Cache-Control: no-cache'']"

definition bytes_of :: "string \<Rightarrow> bytes" where
  "bytes_of s = map of_char s"

definition string_of :: "bytes \<Rightarrow> string" where
  "string_of b = map (\<lambda>x. char_of (unat x)) b"

definition randByte :: "world \<Rightarrow> int \<times> world" where
  "randByte w = (case randRead 1 w of ((bs, _), w') \<Rightarrow> (uint (bs ! 0), w'))"

text \<open>The padding area: random bytes, over which a decoy string is copied when there is room.\<close>

definition padding_area :: "nat \<Rightarrow> world \<Rightarrow> bytes \<times> world" where
  "padding_area pad w =
     (case randRead pad w of ((area, _), w') \<Rightarrow>
        if pad > 12 then
          (case randByte w' of (i, w') \<Rightarrow>
             let decoy = bytes_of (decoyPatterns ! nat (i mod int (length decoyPatterns)))
             in if length decoy < pad then
                  (case randByte w' of (j, w') \<Rightarrow>
                     (copy_at (nat (j mod (int (pad - length decoy) + 1))) decoy area, w'))
                else (area, w'))
        else (area, w'))"

definition obfs_pad :: "ObfsConfig \<Rightarrow> world \<Rightarrow> (int \<times> world) outcome" where
  "obfs_pad cfg w =
     (if ob_MaxPadding cfg > ob_MinPadding cfg then
        (let m = i64 (ob_MaxPadding cfg - ob_MinPadding cfg + 1)
         in case randByte w of (r, w') \<Rightarrow>
              if m = 0 then Panic DivideByZero
              else Return (i64 (ob_MinPadding cfg + go_rem r m), w'))
      else Return (ob_MinPadding cfg, w))"

definition ApplyObfuscation :: "bytes \<Rightarrow> ObfsConfig option \<Rightarrow> world \<Rightarrow> (bytes \<times> world) outcome" where
  "ApplyObfuscation data cfg w =
     (case cfg of
       None \<Rightarrow> Return (data, w)
     | Some cfg \<Rightarrow>
         if \<not> ob_Enabled cfg then Return (data, w)
         else obind (obfs_pad cfg w) (\<lambda>(pad, w).
           let pad = (if pad < 0 then 0 else pad)
           in obind (go_make (i64 (2 + int (length data) + pad))) (\<lambda>out.
             let out = copy_at 2 data (copy_at 0 (put16 (word_of_int pad)) out)
             in if pad > 0
                then (case padding_area (nat pad) w of (area, w) \<Rightarrow>
                  Return (copy_at (2 + length data) area out, w))
                else Return (out, w))))"

definition StripObfuscation :: "bytes \<Rightarrow> ObfsConfig option \<Rightarrow> bytes option" where
  "StripObfuscation data cfg =
     (case cfg of
       None \<Rightarrow> Some data
     | Some cfg \<Rightarrow>
         if \<not> ob_Enabled cfg then Some data
         else if length data < 2 then None
         else let pad = uint (be16 data); body = drop 2 data
              in if pad < 0 \<or> pad > int (length body) then None
                 else Some (take (length body - nat pad) body))"

text \<open>\<open>ApplyDelay\<close>: how long it sleeps is recorded in the world.\<close>

definition ApplyDelay :: "ObfsConfig option \<Rightarrow> world \<Rightarrow> world outcome" where
  "ApplyDelay cfg w =
     (case cfg of
       None \<Rightarrow> Return w
     | Some cfg \<Rightarrow>
         if \<not> ob_Enabled cfg then Return w
         else if ob_MaxDelayMS cfg \<le> 0 then Return w
         else
           let mn = ob_MinDelayMS cfg;
               mx = (if ob_MaxDelayMS cfg < mn then mn else ob_MaxDelayMS cfg)
           in if mx > mn
              then (case randByte w of (r, w) \<Rightarrow>
                let m = i64 (mx - mn + 1)
                in if m = 0 then Panic DivideByZero
                   else Return (sleep (i64 (i64 (mn + go_rem r m) * millisecond)) w))
              else Return (sleep (i64 (mn * millisecond)) w))"

section \<open>Buffer laws\<close>

lemma copy_at_append:
  "length a = at \<Longrightarrow> length b = length src \<Longrightarrow> copy_at at src (a @ b @ c) = a @ src @ c"
  by (simp add: copy_at_def)

lemma copy_at_front: "length b = length src \<Longrightarrow> copy_at 0 src (b @ c) = src @ c"
  using copy_at_append [of "[]" 0 b src c] by simp

lemma copy_at_rest: "length a = at \<Longrightarrow> length b = length src \<Longrightarrow> copy_at at src (a @ b) = a @ src"
  using copy_at_append [of a at b src "[]"] by simp

lemma go_make_ok:
  "0 \<le> n \<Longrightarrow> n < 2 ^ 63 \<Longrightarrow> go_make (i64 n) = Return (replicate (nat n) 0)"
  by (simp add: go_make_def i64_small)

text \<open>A buffer of \<open>2 + l + p\<close> zeros, written with a two byte field and the data.\<close>

lemma written_buffer:
  assumes "length h = 2"
  shows "copy_at 2 data (copy_at 0 h (replicate (2 + length data + p) 0)) = h @ data @ replicate p 0"
proof -
  have "replicate (2 + length data + p) (0 :: byte) =
      replicate 2 0 @ replicate (length data) 0 @ replicate p 0"
    by (simp only: replicate_add append_assoc)
  then show ?thesis
    using assms by (simp add: copy_at_front copy_at_append)
qed

lemma pad_with_layout:
  assumes "0 \<le> padLen" and "2 + int (length data) + padLen < 2 ^ 63"
  shows "\<exists>r w'. pad_with padLen data w = Return (put16 (word_of_nat (length data)) @ data @ r, w') \<and>
    length r = nat padLen"
proof -
  obtain p where p: "padLen = int p" using assms(1) nonneg_int_cases by blast
  have mk: "go_make (i64 (2 + int (length data) + padLen)) = Return (replicate (2 + length data + p) 0)"
    using assms go_make_ok [of "2 + int (length data) + padLen"] by (simp add: p nat_add_distrib)
  note wb = written_buffer [of "put16 (word_of_nat (length data))" data p]
  show ?thesis
  proof (cases "p = 0")
    case True
    then show ?thesis
      using mk wb p unfolding pad_with_def by (simp del: replicate_Suc)
  next
    case False
    obtain r b w' where rr: "randRead p w = ((r, b), w')"
      by (metis prod.collapse)
    then have "length r = p" by (rule length_randRead)
    then have "copy_at (2 + length data) r (put16 (word_of_nat (length data)) @ data @ replicate p 0) =
        put16 (word_of_nat (length data)) @ data @ r"
      using copy_at_rest [of "put16 (word_of_nat (length data)) @ data" "2 + length data" "replicate p 0" r]
      by simp
    with False mk wb rr p \<open>length r = p\<close> show ?thesis
      unfolding pad_with_def by (simp del: replicate_Suc)
  qed
qed

lemma unat_two_plus: "n < 65534 \<Longrightarrow> unat (2 + word_of_nat n :: 16 word) = n + 2"
proof -
  assume "n < 65534"
  moreover have "(2 + word_of_nat n :: 16 word) = word_of_nat (n + 2)"
    by simp
  ultimately show ?thesis
    by (simp only: unat_length16)
qed

lemma word16_wrap: "word_of_nat (n mod 65536) = (word_of_nat n :: 16 word)"
  by (simp add: word_of_nat_eq_iff take_bit_eq_mod)

lemma unat_word16: "unat (word_of_nat n :: 16 word) = n mod 65536"
  by (simp add: unsigned_of_nat take_bit_eq_mod)

text \<open>Reading behind a length field of any length: two residues panic, the others take a prefix.\<close>

lemma data_slice_any:
  "data_slice (word_of_nat n) (put16 x @ b) =
     (if n mod 65536 < 65534 then Return (Some (take (n mod 65536) b)) else Panic SliceBounds)"
proof (cases "n mod 65536 < 65534")
  case True
  from unat_two_plus [OF this] word16_wrap [of n] have "unat (2 + word_of_nat n :: 16 word) = n mod 65536 + 2"
    by simp
  with True show ?thesis by (simp add: data_slice_def put16_def)
next
  case False
  then have m: "n mod 65536 = 65534 \<or> n mod 65536 = 65535" by auto
  have "(2 + word_of_nat n :: 16 word) = word_of_nat (n mod 65536 + 2)"
    using word16_wrap [of n] by simp
  then have "unat (2 + word_of_nat n :: 16 word) = (n mod 65536 + 2) mod 65536"
    by (simp only: unat_word16)
  then have "unat (2 + word_of_nat n :: 16 word) < 2" using m by auto
  with False show ?thesis by (simp add: data_slice_def)
qed

lemma data_slice_front:
  "length d < 65534 \<Longrightarrow> data_slice (word_of_nat (length d)) (put16 x @ d @ r) = Return (Some d)"
  by (simp add: data_slice_def unat_two_plus put16_def)

lemma removePadding_front:
  "length d < 65534 \<Longrightarrow>
     removePadding (put16 (word_of_nat (length d)) @ d @ r) = Return (Some d)"
  by (simp add: removePadding_def wire_simps data_slice_front unat_length16)

lemma removeStealthPadding_front:
  "d \<noteq> [] \<Longrightarrow> length d < 65534 \<Longrightarrow>
     removeStealthPadding (put16 (word_of_nat (length d)) @ d @ r) = Return (Some d)"
  by (simp add: removeStealthPadding_def wire_simps data_slice_front unat_length16
      word_of_nat_eq_0_iff nat_dvd_not_less)

section \<open>The interface of a padding scheme\<close>

text \<open>
  What the packet layer relies on: on data of a supported size, adding padding returns, stays
  within \<open>room\<close> extra bytes, is never empty, and the reader gives the data back.
\<close>

locale padding_scheme =
  fixes add :: "bytes \<Rightarrow> 'c \<Rightarrow> world \<Rightarrow> (bytes \<times> world) outcome"
    and strip :: "bytes \<Rightarrow> 'c \<Rightarrow> bytes option outcome"
    and good :: "'c \<Rightarrow> bool"
    and fits :: "bytes \<Rightarrow> bool"
    and room :: "'c \<Rightarrow> nat"
  assumes add_strip: "good c \<Longrightarrow> fits d \<Longrightarrow>
    \<exists>p w'. add d c w = Return (p, w') \<and> strip p c = Return (Some d) \<and>
      length d + 2 \<le> length p \<and> length p \<le> length d + room c"
begin

lemma strip_of_add:
  "good c \<Longrightarrow> fits d \<Longrightarrow> add d c w = Return (p, w') \<Longrightarrow> strip p c = Return (Some d)"
  using add_strip [of c d w] by auto

lemma add_length:
  "good c \<Longrightarrow> fits d \<Longrightarrow> add d c w = Return (p, w') \<Longrightarrow>
     length d + 2 \<le> length p \<and> length p \<le> length d + room c"
  using add_strip [of c d w] by auto

lemma add_injective:
  assumes "good c" "fits d" "fits e"
    and "add d c w = Return (p, w1)" "add e c v = Return (p, v1)"
  shows "d = e"
  using strip_of_add [OF assms(1,2,4)] strip_of_add [OF assms(1,3,5)] by simp

end

text \<open>Configurations the schemes support: the bounds in \<open>0 .. 2\<^sup>3\<^sup>1 - 1\<close>.\<close>

definition pad_range :: "int \<Rightarrow> int \<Rightarrow> bool" where
  "pad_range mn mx \<longleftrightarrow> 0 \<le> mn \<and> mn < 2 ^ 31 \<and> 0 \<le> mx \<and> mx < 2 ^ 31"

definition obfs_good :: "ObfsConfig \<Rightarrow> bool" where
  "obfs_good o' \<longleftrightarrow> pad_range (ob_MinPadding o') (ob_MaxPadding o')"

definition stealth_good :: "StealthConfig \<Rightarrow> bool" where
  "stealth_good s \<longleftrightarrow> pad_range (st_MinPadding s) (st_MaxPadding s)"

lemma pad_with_range:
  assumes rng: "pad_range mn mx" and r: "0 \<le> rnd" "rnd \<le> max 0 (mx - mn)" and d: "length d < 2 ^ 40"
  shows "\<exists>r w'. pad_with (i64 (mn + rnd)) d w = Return (put16 (word_of_nat (length d)) @ d @ r, w') \<and>
    int (length r) \<le> max mn mx"
proof -
  from rng have b: "0 \<le> mn" "mn < 2147483648" "0 \<le> mx" "mx < 2147483648"
    by (auto simp: pad_range_def)
  with r have s: "0 \<le> mn + rnd" "mn + rnd \<le> max mn mx" "mn + rnd < 2147483648"
    by linarith+
  moreover have "i64 (mn + rnd) = mn + rnd"
    using s by (intro i64_small) linarith+
  moreover have "int (length d) < 1099511627776" using d by simp
  then have "2 + int (length d) + (mn + rnd) < 2 ^ 63"
    using s by simp
  ultimately show ?thesis
    using pad_with_layout [of "mn + rnd" d w] by fastforce
qed

lemma addPadding_layout:
  assumes "obfs_good c" and "length d < 2 ^ 40"
  shows "\<exists>r w'. addPadding d c w = Return (put16 (word_of_nat (length d)) @ d @ r, w') \<and>
    int (length r) \<le> max (ob_MinPadding c) (ob_MaxPadding c)"
proof -
  let ?d = "ob_MaxPadding c - ob_MinPadding c"
  obtain rnd w1 where rnd: "(if i64 ?d > 0 then secureRandInt (i64 ?d) w else (0, w)) = (rnd, w1)"
    by (metis prod.collapse)
  have rng: "pad_range (ob_MinPadding c) (ob_MaxPadding c)"
    using assms(1) by (simp add: obfs_good_def)
  then have "i64 ?d = ?d" by (intro i64_small) (auto simp: pad_range_def)
  then have "0 \<le> rnd" "rnd \<le> max 0 ?d"
    using rnd secureRandInt_nonneg secureRandInt_less [of ?d w rnd w1] by (auto split: if_splits)
  from pad_with_range [OF rng this assms(2), of w1] rnd show ?thesis
    by (simp add: addPadding_def Let_def)
qed

lemma addStealthPadding_layout:
  assumes "stealth_good c" and "length d < 2 ^ 40"
  shows "\<exists>r w'. addStealthPadding d c w = Return (put16 (word_of_nat (length d)) @ d @ r, w') \<and>
    int (length r) \<le> max (st_MinPadding c) (st_MaxPadding c)"
proof -
  let ?d = "st_MaxPadding c - st_MinPadding c"
  obtain rnd w1 where rnd: "secureRandInt (i64 (?d + 1)) w = (rnd, w1)"
    by (metis prod.collapse)
  have rng: "pad_range (st_MinPadding c) (st_MaxPadding c)"
    using assms(1) by (simp add: stealth_good_def)
  then have "i64 (?d + 1) = ?d + 1" by (intro i64_small) (auto simp: pad_range_def)
  then have "0 \<le> rnd" "rnd \<le> max 0 ?d"
    using rnd secureRandInt_nonneg secureRandInt_less [of "?d + 1" w rnd w1]
    by (cases "0 < ?d + 1"; auto)+
  from pad_with_range [OF rng this assms(2), of w1] rnd show ?thesis
    by (simp add: addStealthPadding_def)
qed

interpretation obfs_scheme: padding_scheme addPadding "\<lambda>p _. removePadding p" obfs_good
  "\<lambda>d. length d < 65534" "\<lambda>c. nat (max (ob_MinPadding c) (ob_MaxPadding c)) + 2"
proof
  fix c d w
  assume c: "obfs_good c" and d: "length (d :: bytes) < 65534"
  then obtain r w' where "addPadding d c w = Return (put16 (word_of_nat (length d)) @ d @ r, w')"
      "int (length r) \<le> max (ob_MinPadding c) (ob_MaxPadding c)"
    using addPadding_layout [of c d w] by auto
  with removePadding_front [OF d] show "\<exists>p w'. addPadding d c w = Return (p, w') \<and>
      removePadding p = Return (Some d) \<and> length d + 2 \<le> length p \<and>
      length p \<le> length d + (nat (max (ob_MinPadding c) (ob_MaxPadding c)) + 2)"
    by auto
qed

interpretation stealth_scheme: padding_scheme addStealthPadding "\<lambda>p _. removeStealthPadding p"
  stealth_good "\<lambda>d. d \<noteq> [] \<and> length d < 65534"
  "\<lambda>c. nat (max (st_MinPadding c) (st_MaxPadding c)) + 2"
proof
  fix c d w
  assume c: "stealth_good c" and d: "d \<noteq> [] \<and> length (d :: bytes) < 65534"
  then obtain r w' where "addStealthPadding d c w = Return (put16 (word_of_nat (length d)) @ d @ r, w')"
      "int (length r) \<le> max (st_MinPadding c) (st_MaxPadding c)"
    using addStealthPadding_layout [of c d w] by auto
  with removeStealthPadding_front [of d] d show "\<exists>p w'. addStealthPadding d c w = Return (p, w') \<and>
      removeStealthPadding p = Return (Some d) \<and> length d + 2 \<le> length p \<and>
      length p \<le> length d + (nat (max (st_MinPadding c) (st_MaxPadding c)) + 2)"
    by auto
qed

lemma length_padding_area: "padding_area pad w = (area, w') \<Longrightarrow> length area = pad"
  by (auto simp: padding_area_def Let_def length_randRead split: if_splits prod.splits
      dest!: length_randRead)

lemma randByte_range: "randByte w = (r, w') \<Longrightarrow> 0 \<le> r \<and> r < 256"
  using uint_range_size [where 'a = 8]
  by (auto simp: randByte_def word_size split: prod.splits)

definition legacy_good :: "ObfsConfig \<Rightarrow> bool" where
  "legacy_good c \<longleftrightarrow> ob_Enabled c \<and> 0 \<le> ob_MinPadding c \<and> ob_MinPadding c < 65536 \<and>
     - (2 ^ 31) \<le> ob_MaxPadding c \<and> ob_MaxPadding c < 65536"

lemma obfs_pad_range:
  assumes "legacy_good c"
  shows "\<exists>pad w'. obfs_pad c w = Return (pad, w') \<and> 0 \<le> pad \<and> ob_MinPadding c \<le> pad \<and>
    pad \<le> max (ob_MinPadding c) (ob_MaxPadding c)"
proof (cases "ob_MaxPadding c > ob_MinPadding c")
  case True
  let ?m = "ob_MaxPadding c - ob_MinPadding c + 1"
  have b: "0 \<le> ob_MinPadding c" "ob_MaxPadding c < 65536"
    using assms by (auto simp: legacy_good_def)
  obtain r w1 where r: "randByte w = (r, w1)" by (metis prod.collapse)
  have m: "i64 ?m = ?m" "0 < ?m" using b True by (auto intro!: i64_small)
  have q: "0 \<le> r mod ?m" "r mod ?m \<le> ob_MaxPadding c - ob_MinPadding c"
    using m(2) pos_mod_bound [of ?m r] by auto
  have "go_rem r ?m = r mod ?m"
    using go_rem_nonneg [of r ?m] randByte_range [OF r] m(2) by simp
  moreover have "i64 (ob_MinPadding c + r mod ?m) = ob_MinPadding c + r mod ?m"
    using b q by (intro i64_small) linarith+
  ultimately show ?thesis
    using True r m b q by (simp add: obfs_pad_def Let_def)
next
  case False
  with assms show ?thesis by (auto simp: obfs_pad_def legacy_good_def)
qed

text \<open>With padding below \<open>2\<^sup>1\<^sup>6\<close> the output is the length field, the data and the padding.\<close>

lemma ApplyObfuscation_layout:
  assumes "legacy_good c" and "length d < 2 ^ 62"
  shows "\<exists>pad area w'. ApplyObfuscation d (Some c) w = Return (put16 (word_of_int pad) @ d @ area, w') \<and>
    length area = nat pad \<and> 0 \<le> pad \<and> ob_MinPadding c \<le> pad \<and> pad \<le> max (ob_MinPadding c) (ob_MaxPadding c)"
proof -
  obtain pad w1 where pad: "obfs_pad c w = Return (pad, w1)" "0 \<le> pad" "ob_MinPadding c \<le> pad"
      "pad \<le> max (ob_MinPadding c) (ob_MaxPadding c)"
    using obfs_pad_range [OF assms(1), of w] by blast
  have e: "ob_Enabled c" and le: "pad < 65536" using assms(1) pad by (auto simp: legacy_good_def)
  have "int (length d) < 2 ^ 62"
    using assms(2) by (metis of_nat_less_numeral_power_cancel_iff)
  then have mk: "go_make (i64 (2 + int (length d) + pad)) = Return (replicate (2 + length d + nat pad) 0)"
    using go_make_ok [of "2 + int (length d) + pad"] pad le by (simp add: nat_add_distrib)
  note wb = written_buffer [of "put16 (word_of_int pad)" d "nat pad"]
  obtain area w2 where area: "padding_area (nat pad) w1 = (area, w2)" by (metis prod.collapse)
  note l = length_padding_area [OF area]
  have "copy_at (2 + length d) area (put16 (word_of_int pad) @ d @ replicate (nat pad) 0) =
      put16 (word_of_int pad) @ d @ area"
    using copy_at_rest [of "put16 (word_of_int pad) @ d" "2 + length d" "replicate (nat pad) 0" area] l
    by simp
  with pad e mk wb area l
  have "\<exists>w'. ApplyObfuscation d (Some c) w = Return (put16 (word_of_int pad) @ d @ area, w')"
    by (cases "pad = 0") (auto simp: ApplyObfuscation_def simp del: replicate_Suc)
  with pad l show ?thesis by blast
qed

lemma StripObfuscation_front:
  assumes "ob_Enabled c" and "0 \<le> pad" "pad < 65536" and "length area = nat pad"
  shows "StripObfuscation (put16 (word_of_int pad) @ d @ area) (Some c) = Some d"
proof -
  have "uint (word_of_int pad :: 16 word) = pad"
    using assms(2,3) by (simp add: unsigned_of_int take_bit_int_eq_self)
  with assms show ?thesis
    by (simp add: StripObfuscation_def wire_simps)
qed

interpretation legacy_scheme: padding_scheme "\<lambda>d c. ApplyObfuscation d (Some c)"
  "\<lambda>p c. Return (StripObfuscation p (Some c))" legacy_good "\<lambda>d. length d < 2 ^ 62"
  "\<lambda>c. nat (max (ob_MinPadding c) (ob_MaxPadding c)) + 2"
proof
  fix c d w
  assume c: "legacy_good c" and d: "length (d :: bytes) < 2 ^ 62"
  obtain pad area w' where *: "ApplyObfuscation d (Some c) w = Return (put16 (word_of_int pad) @ d @ area, w')"
      "length area = nat pad" "0 \<le> pad" "pad \<le> max (ob_MinPadding c) (ob_MaxPadding c)"
    using ApplyObfuscation_layout [OF c d, of w] by blast
  have "StripObfuscation (put16 (word_of_int pad) @ d @ area) (Some c) = Some d"
    using * c by (intro StripObfuscation_front) (auto simp: legacy_good_def)
  with * show "\<exists>p w'. ApplyObfuscation d (Some c) w = Return (p, w') \<and>
      Return (StripObfuscation p (Some c)) = Return (Some d) \<and> length d + 2 \<le> length p \<and>
      length p \<le> length d + (nat (max (ob_MinPadding c) (ob_MaxPadding c)) + 2)"
    by auto
qed

text \<open>
  C28. The legacy obfuscation, with paddings below 65536: every message is padded without a panic, to
  two bytes more than itself and between the minimal and the larger of both paddings, and stripped it
  is the message again; stripping refuses exactly what is shorter than the length field and the
  padding it announces; and when obfuscation is off, both are the identity.
\<close>

theorem legacy_obfuscation_roundtrip:
  assumes "legacy_good c" and "length d < 2 ^ 62"
  shows "(\<exists>p w'. ApplyObfuscation d (Some c) w = Return (p, w') \<and> StripObfuscation p (Some c) = Some d \<and>
      length d + 2 + nat (ob_MinPadding c) \<le> length p \<and>
      length p \<le> length d + 2 + nat (max (ob_MinPadding c) (ob_MaxPadding c))) \<and>
    (\<forall>q. StripObfuscation q (Some c) = None \<longleftrightarrow> length q < 2 \<or> length q < 2 + unat (be16 q)) \<and>
    (\<forall>o'. o' = None \<or> o' = Some (c\<lparr>ob_Enabled := False\<rparr>) \<longrightarrow>
      ApplyObfuscation d o' w = Return (d, w) \<and> StripObfuscation d o' = Some d)"
proof -
  obtain pad area w' where *: "ApplyObfuscation d (Some c) w = Return (put16 (word_of_int pad) @ d @ area, w')"
      "length area = nat pad" "0 \<le> pad" "ob_MinPadding c \<le> pad" "pad \<le> max (ob_MinPadding c) (ob_MaxPadding c)"
    using ApplyObfuscation_layout [OF assms, of w] by blast
  have "StripObfuscation (put16 (word_of_int pad) @ d @ area) (Some c) = Some d"
    using * assms(1) by (intro StripObfuscation_front) (auto simp: legacy_good_def)
  moreover have "nat (ob_MinPadding c) \<le> nat pad" "nat pad \<le> nat (max (ob_MinPadding c) (ob_MaxPadding c))"
    using *(4,5) by (simp_all add: nat_mono)
  ultimately have a: "\<exists>p w'. ApplyObfuscation d (Some c) w = Return (p, w') \<and> StripObfuscation p (Some c) = Some d \<and>
      length d + 2 + nat (ob_MinPadding c) \<le> length p \<and>
      length p \<le> length d + 2 + nat (max (ob_MinPadding c) (ob_MaxPadding c))"
    using *(1,2) by (intro exI [of _ "put16 (word_of_int pad) @ d @ area"] exI [of _ w']) simp
  have b: "\<forall>q. StripObfuscation q (Some c) = None \<longleftrightarrow> length q < 2 \<or> length q < 2 + unat (be16 q)"
  proof
    fix q
    have "int (length q - 2) < uint (be16 q) \<longleftrightarrow> length q < 2 + unat (be16 q)" if "\<not> length q < 2"
      unfolding uint_nat of_nat_less_iff using that by linarith
    moreover have "ob_Enabled c" using assms(1) by (simp add: legacy_good_def)
    ultimately show "StripObfuscation q (Some c) = None \<longleftrightarrow> length q < 2 \<or> length q < 2 + unat (be16 q)"
      by (simp add: StripObfuscation_def Let_def not_less)
  qed
  have off: "\<forall>o'. o' = None \<or> o' = Some (c\<lparr>ob_Enabled := False\<rparr>) \<longrightarrow>
      ApplyObfuscation d o' w = Return (d, w) \<and> StripObfuscation d o' = Some d"
    by (auto simp: ApplyObfuscation_def StripObfuscation_def)
  show ?thesis using a b off by (intro conjI)
qed

theorem legacy_obfuscation_roundtrip_witness:
  "\<exists>c p w'. ApplyObfuscation [1, 2, 3] (Some c) \<lparr>w_entropy = [Some 9], w_sleeps = []\<rparr> = Return (p, w') \<and>
     StripObfuscation p (Some c) = Some [1, 2, 3] \<and> 12 \<le> length p \<and> length p \<le> 25 \<and>
     StripObfuscation [0] (Some c) = None"
proof -
  let ?c = "\<lparr>ob_Enabled = True, ob_MinPadding = 7, ob_MaxPadding = 20, ob_MinDelayMS = 0, ob_MaxDelayMS = 0,
    ob_BurstChance = 0\<rparr>"
  have c: "legacy_good ?c" by (simp add: legacy_good_def)
  have l: "length [1, 2, 3 :: byte] < 2 ^ 62" by simp
  note x = legacy_obfuscation_roundtrip [OF c l, of "\<lparr>w_entropy = [Some 9], w_sleeps = []\<rparr>"]
  from x obtain p w' where p: "ApplyObfuscation [1, 2, 3] (Some ?c) \<lparr>w_entropy = [Some 9], w_sleeps = []\<rparr> = Return (p, w')"
      "StripObfuscation p (Some ?c) = Some [1, 2, 3]" "12 \<le> length p" "length p \<le> 25"
    by (elim conjE exE) (simp add: eval_nat_numeral)
  moreover have "StripObfuscation [0] (Some ?c) = None" using x [THEN conjunct2, THEN conjunct1] by simp
  ultimately show ?thesis by (intro exI [of _ ?c] exI [of _ p] exI [of _ w'] conjI)
qed

end
