(* ===== verification/EncConn.thy ===== *)
theory EncConn
  imports Conn Padding
begin

text \<open>
  encrypted_conn.go: \<open>EncryptedConn\<close>, a packet layer over a connection. A write pads the data,
  seals it with AES-GCM when a key is set and puts it on the wire behind a four byte length;
  a read takes one packet from the wire, opens it, strips the padding and keeps what the caller's
  buffer cannot hold. The cipher is package crypto's: an argument of the model, with its
  documented contract as \<open>aead_ok\<close>.
\<close>

section \<open>The cipher and the connection state\<close>

record aead =
  aead_NonceSize :: nat
  aead_Seal :: "bytes \<Rightarrow> bytes \<Rightarrow> bytes"
  aead_Open :: "bytes \<Rightarrow> bytes \<Rightarrow> bytes option"

text \<open>
  What crypto/cipher documents of \<open>NewGCM\<close>: a 12 byte nonce, a 16 byte tag, and \<open>Open\<close>
  with the nonce of a \<open>Seal\<close> gives the sealed bytes back.
\<close>

definition aead_ok :: "aead \<Rightarrow> bool" where
  "aead_ok g \<longleftrightarrow> aead_NonceSize g = 12 \<and>
     (\<forall>nonce p. length nonce = 12 \<longrightarrow>
        aead_Open g nonce (aead_Seal g nonce p) = Some p \<and>
        length (aead_Seal g nonce p) = length p + 16)"

record 'b cryptolib =
  sha256 :: "bytes \<Rightarrow> bytes"
  newCipher :: "bytes \<Rightarrow> gerror + 'b"
  newGCM :: "'b \<Rightarrow> gerror + aead"

record encConn =
  ec_conn :: conn
  ec_gcm :: "aead option"
  ec_obfs :: "ObfsConfig option"
  ec_stealth :: "StealthConfig option"
  ec_readBuf :: bytes

definition NewEncryptedConn ::
    "'b cryptolib \<Rightarrow> conn \<Rightarrow> string \<Rightarrow> ObfsConfig option \<Rightarrow> StealthConfig option list \<Rightarrow> gerror + encConn" where
  "NewEncryptedConn lib conn psk obfs stealth =
     (let ec = \<lparr>ec_conn = conn, ec_gcm = None, ec_obfs = obfs,
                ec_stealth = (case stealth of s # _ \<Rightarrow> s | [] \<Rightarrow> None), ec_readBuf = []\<rparr>
      in if psk = [] then Inr ec
         else case newCipher lib (sha256 lib (bytes_of psk)) of
           Inl e \<Rightarrow> Inl (Wrap ''aes'' e)
         | Inr block \<Rightarrow>
             (case newGCM lib block of
               Inl e \<Rightarrow> Inl (Wrap ''gcm'' e)
             | Inr gcm \<Rightarrow> Inr (ec\<lparr>ec_gcm := Some gcm\<rparr>)))"

definition SetStealth :: "encConn \<Rightarrow> StealthConfig option \<Rightarrow> encConn" where
  "SetStealth c s = c\<lparr>ec_stealth := s\<rparr>"

definition ec_Close :: "encConn \<Rightarrow> encConn" where
  "ec_Close c = c\<lparr>ec_conn := conn_close (ec_conn c)\<rparr>"

text \<open>The two conditions of both directions: \<open>c.obfs != nil && c.obfs.Enabled\<close>, else
  \<open>c.stealth != nil && c.stealth.RandomPadding\<close>.\<close>

definition obfs_on :: "encConn \<Rightarrow> ObfsConfig option" where
  "obfs_on c = (case ec_obfs c of Some ob \<Rightarrow> if ob_Enabled ob then Some ob else None | None \<Rightarrow> None)"

definition stealth_on :: "encConn \<Rightarrow> StealthConfig option" where
  "stealth_on c =
     (case ec_stealth c of Some s \<Rightarrow> if st_RandomPadding s then Some s else None | None \<Rightarrow> None)"

section \<open>Write\<close>

definition obfsDelay :: "ObfsConfig \<Rightarrow> world \<Rightarrow> world" where
  "obfsDelay obfs w =
     (let mn = ob_MinDelayMS obfs; mx = ob_MaxDelayMS obfs
      in if mx \<le> mn \<or> mx \<le> 0 then w
         else case secureRandInt (i64 (mx - mn)) w of (r, w) \<Rightarrow>
           let d = i64 (mn + r) in if d > 0 then sleep (i64 (d * millisecond)) w else w)"

text \<open>Step 1 of \<open>writePacket\<close>: padding before encryption.\<close>

definition packet_payload :: "encConn \<Rightarrow> bytes \<Rightarrow> world \<Rightarrow> (bytes \<times> world) outcome" where
  "packet_payload c data w =
     (case obfs_on c of
       Some ob \<Rightarrow> addPadding data ob w
     | None \<Rightarrow>
         (case stealth_on c of
           Some s \<Rightarrow> if length data > 4 then addStealthPadding data s w else Return (data, w)
         | None \<Rightarrow> Return (data, w)))"

text \<open>Step 2: the frame put on the wire, or the error of a nonce that could not be read.\<close>

definition frame :: "bytes \<Rightarrow> bytes" where
  "frame pkt = put32 (word_of_nat (length pkt)) @ pkt"

definition seal_packet :: "encConn \<Rightarrow> bytes \<Rightarrow> world \<Rightarrow> (gerror + bytes) \<times> world" where
  "seal_packet c payload w =
     (case ec_gcm c of
       Some g \<Rightarrow>
         (case randRead (aead_NonceSize g) w of ((nonce, ok), w) \<Rightarrow>
            if \<not> ok then (Inl (Wrap ''nonce'' (Errorf ''rand'')), w)
            else (Inr (frame (nonce @ aead_Seal g nonce payload)), w))
     | None \<Rightarrow> (Inr (frame payload), w))"

definition writePacket :: "encConn \<Rightarrow> bytes \<Rightarrow> world \<Rightarrow> (iores \<times> encConn \<times> world) outcome" where
  "writePacket c data w =
     obind (packet_payload c data w) (\<lambda>(payload, w).
       case seal_packet c payload w of
         (Inl e, w) \<Rightarrow> Return ((0, Some e), c, w)
       | (Inr buf, w) \<Rightarrow>
           (case conn_write (ec_conn c) buf of
             ((_, Some e), cn) \<Rightarrow> Return ((0, Some e), c\<lparr>ec_conn := cn\<rparr>, w)
           | ((_, None), cn) \<Rightarrow>
               let w = (case obfs_on c of
                          Some ob \<Rightarrow>
                            if ob_MaxDelayMS ob > 0 \<and> length data > 128 then obfsDelay ob w else w
                        | None \<Rightarrow> w)
               in Return ((length data, None), c\<lparr>ec_conn := cn\<rparr>, w)))"

text \<open>The loop of \<open>burstWrite\<close>; every turn takes at least one byte off \<open>remaining\<close>.\<close>

function burst_loop :: "encConn \<Rightarrow> bytes \<Rightarrow> nat \<Rightarrow> int \<Rightarrow> world \<Rightarrow> (iores \<times> encConn \<times> world) outcome" where
  "burst_loop c remaining tot maxBurst w =
     (if remaining = [] then Return ((tot, None), c, w)
      else case secureRandInt (i64 (maxBurst - 2048 + 1)) w of (r, w) \<Rightarrow>
        let chunkSize = min (2048 + nat r) (length remaining)
        in case writePacket c (take chunkSize remaining) w of
             Panic p \<Rightarrow> Panic p
           | Return ((n, Some e), c, w) \<Rightarrow> Return ((tot + n, Some e), c, w)
           | Return ((n, None), c, w) \<Rightarrow>
               burst_loop c (drop chunkSize remaining) (tot + n) maxBurst w)"
  by pat_completeness auto
termination
  by (relation "measure (\<lambda>(c, remaining, tot, maxBurst, w). length remaining)") auto

declare burst_loop.simps [simp del]

definition burstWrite :: "encConn \<Rightarrow> bytes \<Rightarrow> world \<Rightarrow> (iores \<times> encConn \<times> world) outcome" where
  "burstWrite c data w =
     (case ec_stealth c of
       None \<Rightarrow> Panic NilDeref
     | Some s \<Rightarrow>
         let maxBurst = (if st_MaxBurstSize s \<le> 0 then 4096 else st_MaxBurstSize s)
         in burst_loop c data 0 maxBurst w)"

definition ec_Write :: "encConn writer" where
  "ec_Write c data w =
     (case ec_stealth c of
       Some s \<Rightarrow>
         if st_BurstSplit s \<and> int (length data) > st_MaxBurstSize s then burstWrite c data w
         else writePacket c data w
     | None \<Rightarrow> writePacket c data w)"

section \<open>Read\<close>

definition decrypt :: "encConn \<Rightarrow> bytes \<Rightarrow> gerror + bytes" where
  "decrypt c pkt =
     (case ec_gcm c of
       Some g \<Rightarrow>
         if length pkt < aead_NonceSize g then Inl (Errorf ''packet too short'')
         else (case aead_Open g (take (aead_NonceSize g) pkt) (drop (aead_NonceSize g) pkt) of
             None \<Rightarrow> Inl (Wrap ''decrypt'' (Errorf ''cipher: message authentication failed''))
           | Some plain \<Rightarrow> Inr plain)
     | None \<Rightarrow> Inr pkt)"

definition unpad :: "encConn \<Rightarrow> bytes \<Rightarrow> (gerror + bytes) outcome" where
  "unpad c plain =
     (case obfs_on c of
       Some _ \<Rightarrow>
         obind (removePadding plain) (\<lambda>r.
           Return (case r of None \<Rightarrow> Inl (Errorf ''invalid padding'') | Some d \<Rightarrow> Inr d))
     | None \<Rightarrow>
         (case stealth_on c of
           Some _ \<Rightarrow>
             obind (removeStealthPadding plain) (\<lambda>r.
               Return (Inr (case r of Some d \<Rightarrow> d | None \<Rightarrow> plain)))
         | None \<Rightarrow> Return (Inr plain)))"

definition decode_packet :: "encConn \<Rightarrow> bytes \<Rightarrow> (gerror + bytes) outcome" where
  "decode_packet c pkt =
     (case decrypt c pkt of Inl e \<Rightarrow> Return (Inl e) | Inr plain \<Rightarrow> unpad c plain)"

definition ec_Read :: "encConn reader" where
  "ec_Read c k =
     (if ec_readBuf c \<noteq> [] then
        let n = min k (length (ec_readBuf c))
        in Return ((take n (ec_readBuf c), None), c\<lparr>ec_readBuf := drop n (ec_readBuf c)\<rparr>)
      else case readFull 4 (ec_conn c) of
        ((_, Some e), cn) \<Rightarrow> Return (([], Some e), c\<lparr>ec_conn := cn\<rparr>)
      | ((h, None), cn) \<Rightarrow>
          let pktLen = be32 h
          in if pktLen = 0 \<or> pktLen > 16777216
             then Return (([], Some (ErrorfInt ''invalid packet length: %d'' (uint pktLen))),
               c\<lparr>ec_conn := cn\<rparr>)
             else (case readFull (unat pktLen) cn of
               ((_, Some e), cn) \<Rightarrow> Return (([], Some e), c\<lparr>ec_conn := cn\<rparr>)
             | ((pkt, None), cn) \<Rightarrow>
                 obind (decode_packet c pkt) (\<lambda>r.
                   case r of
                     Inl e \<Rightarrow> Return (([], Some e), c\<lparr>ec_conn := cn\<rparr>)
                   | Inr plain \<Rightarrow>
                       let n = min k (length plain);
                           c = c\<lparr>ec_conn := cn\<rparr>
                       in Return ((take n plain, None),
                            if n < length plain then c\<lparr>ec_readBuf := drop n plain\<rparr> else c))))"

section \<open>What is on the wire\<close>

text \<open>
  The plaintext a reader with packet decoder \<open>dec\<close> recovers from the bytes \<open>bs\<close>;
  \<open>None\<close> when they do not end at a packet boundary or a packet is refused.
\<close>

function decode_wire :: "(bytes \<Rightarrow> (gerror + bytes) outcome) \<Rightarrow> bytes \<Rightarrow> bytes option" where
  "decode_wire dec bs =
     (if bs = [] then Some []
      else if length bs < 4 then None
      else let n = unat (be32 bs)
           in if n = 0 \<or> n > 16777216 \<or> length bs < 4 + n then None
              else case dec (take n (drop 4 bs)) of
                  Return (Inr d) \<Rightarrow> map_option (append d) (decode_wire dec (drop (4 + n) bs))
                | _ \<Rightarrow> None)"
  by pat_completeness auto
termination
  by (relation "measure (\<lambda>(dec, bs). length bs)") auto

declare decode_wire.simps [simp del]

lemma decode_wire_Nil [simp]: "decode_wire dec [] = Some []"
  by (subst decode_wire.simps) simp

lemma decode_wire_eq:
  assumes "4 \<le> length bs" and n: "n = unat (be32 bs)"
  shows "decode_wire dec bs =
     (if n = 0 \<or> n > 16777216 \<or> length bs < 4 + n then None
      else case dec (take n (drop 4 bs)) of
          Return (Inr d) \<Rightarrow> map_option (append d) (decode_wire dec (drop (4 + n) bs))
        | _ \<Rightarrow> None)"
proof -
  have "bs \<noteq> []" "\<not> length bs < 4" using assms(1) by auto
  then show ?thesis
    unfolding n by (subst decode_wire.simps) (simp only: Let_def if_False)
qed

text \<open>What a non-empty decodable wire starts with.\<close>

lemma decode_wire_Some:
  assumes "decode_wire dec bs = Some p" and "bs \<noteq> []"
  obtains n d p' where "4 \<le> length bs" "n = unat (be32 bs)" "0 < n" "n \<le> 16777216"
    "4 + n \<le> length bs" "dec (take n (drop 4 bs)) = Return (Inr d)"
    "decode_wire dec (drop (4 + n) bs) = Some p'" "p = d @ p'"
proof -
  define n where n: "n = unat (be32 bs)"
  have 4: "4 \<le> length bs"
    using assms by (subst (asm) decode_wire.simps) (simp split: if_splits)
  note eq = decode_wire_eq [OF 4 n, of dec]
  have l: "0 < n" "n \<le> 16777216" "4 + n \<le> length bs"
    using eq assms(1) by (simp_all split: if_splits)
  have s: "(case dec (take n (drop 4 bs)) of
      Return (Inr d) \<Rightarrow> map_option (append d) (decode_wire dec (drop (4 + n) bs)) | _ \<Rightarrow> None) = Some p"
    using eq assms(1) l by simp
  show thesis
  proof (cases "dec (take n (drop 4 bs))")
    case (Panic e)
    with s show thesis by simp
  next
    case (Return r)
    with s that [OF 4 n l] show thesis by (cases r) auto
  qed
qed

lemma decode_wire_step:
  assumes "4 + n \<le> length bs" "n = unat (be32 bs)" "0 < n" "n \<le> 16777216"
    and "dec (take n (drop 4 bs)) = Return (Inr d)"
  shows "decode_wire dec bs = map_option (append d) (decode_wire dec (drop (4 + n) bs))"
proof -
  have "4 \<le> length bs" using assms(1) by simp
  from decode_wire_eq [OF this assms(2), of dec] assms(1,3-5) show ?thesis by simp
qed

lemma decode_wire_frame:
  assumes "0 < length pkt" "length pkt \<le> 16777216" and "dec pkt = Return (Inr d)"
  shows "decode_wire dec (frame pkt @ bs) = map_option (append d) (decode_wire dec bs)"
proof -
  have "unat (be32 (frame pkt @ bs)) = length pkt"
    using assms(2) by (simp add: frame_def be32_put32 unat_length32)
  then have n: "length pkt = unat (be32 (frame pkt @ bs))" by (rule sym)
  have "decode_wire dec (frame pkt @ bs) =
      map_option (append d) (decode_wire dec (drop (4 + length pkt) (frame pkt @ bs)))"
  proof (rule decode_wire_step [OF _ n assms(1,2)])
    show "4 + length pkt \<le> length (frame pkt @ bs)" by (simp add: frame_def)
    show "dec (take (length pkt) (drop 4 (frame pkt @ bs))) = Return (Inr d)"
      using assms(3) by (simp add: frame_def)
  qed
  then show ?thesis by (simp add: frame_def)
qed

lemma decode_wire_append:
  "decode_wire dec a = Some p \<Longrightarrow> decode_wire dec (a @ b) = map_option (append p) (decode_wire dec b)"
proof (induction "length a" arbitrary: a p rule: less_induct)
  case less
  show ?case
  proof (cases "a = []")
    case True
    with less.prems show ?thesis by (simp add: option.map_ident_strong)
  next
    case False
    obtain n d p' where 1: "4 \<le> length a" "n = unat (be32 a)" "0 < n" "n \<le> 16777216"
        "4 + n \<le> length a" "dec (take n (drop 4 a)) = Return (Inr d)"
        "decode_wire dec (drop (4 + n) a) = Some p'" "p = d @ p'"
      using decode_wire_Some [OF less.prems False] by metis
    have h: "be32 (a @ b) = be32 a"
      using 1(1) by (rule be32_append)
    have "decode_wire dec (a @ b) = map_option (append d) (decode_wire dec (drop (4 + n) (a @ b)))"
      using 1 h by (intro decode_wire_step) auto
    also have "drop (4 + n) (a @ b) = drop (4 + n) a @ b"
      using 1(5) by simp
    also have "decode_wire dec (drop (4 + n) a @ b) = map_option (append p') (decode_wire dec b)"
      using 1(3,5,7) by (intro less.hyps) auto
    finally show ?thesis
      using 1(8) by (cases "decode_wire dec b") simp_all
  qed
qed

lemma settings_conn [simp]:
  "obfs_on (c\<lparr>ec_conn := x\<rparr>) = obfs_on c" "stealth_on (c\<lparr>ec_conn := x\<rparr>) = stealth_on c"
  "obfs_on (c\<lparr>ec_readBuf := b\<rparr>) = obfs_on c" "stealth_on (c\<lparr>ec_readBuf := b\<rparr>) = stealth_on c"
  by (simp_all add: obfs_on_def stealth_on_def)

text \<open>Two connections with the same cipher and settings decode alike.\<close>

definition same_settings :: "encConn \<Rightarrow> encConn \<Rightarrow> bool" where
  "same_settings c d \<longleftrightarrow>
     ec_gcm c = ec_gcm d \<and> ec_obfs c = ec_obfs d \<and> ec_stealth c = ec_stealth d"

lemma same_settings_on:
  "same_settings c d \<Longrightarrow> obfs_on c = obfs_on d \<and> stealth_on c = stealth_on d \<and> ec_gcm c = ec_gcm d"
  by (simp add: same_settings_def obfs_on_def stealth_on_def)

lemma decode_packet_cong: "same_settings c d \<Longrightarrow> decode_packet c = decode_packet d"
proof -
  assume "same_settings c d"
  then have on: "obfs_on c = obfs_on d" "stealth_on c = stealth_on d" "ec_gcm c = ec_gcm d"
    by (auto dest!: same_settings_on)
  have eqs: "decrypt c = decrypt d" "unpad c = unpad d"
    unfolding fun_eq_iff decrypt_def unpad_def on by simp_all
  show ?thesis unfolding decode_packet_def [abs_def] eqs ..
qed

lemma decode_packet_conn [simp]:
  "decode_packet (c\<lparr>ec_conn := x\<rparr>) = decode_packet c"
  "decode_packet (c\<lparr>ec_readBuf := b\<rparr>) = decode_packet c"
  by (rule decode_packet_cong, simp add: same_settings_def)+

section \<open>A write puts decodable packets on the wire\<close>

text \<open>
  Settings in range: the padding bounds of the active scheme are within 0 and 8 MB (a packet then
  stays below the reader's 16 MB limit), and the cipher keeps its contract.
\<close>

definition enc_good :: "encConn \<Rightarrow> bool" where
  "enc_good c \<longleftrightarrow>
     (case ec_gcm c of Some g \<Rightarrow> aead_ok g | None \<Rightarrow> True) \<and>
     (case obfs_on c of
       Some ob \<Rightarrow> obfs_good ob \<and> max (ob_MinPadding ob) (ob_MaxPadding ob) \<le> 8388608
     | None \<Rightarrow>
         (case stealth_on c of
           Some s \<Rightarrow> stealth_good s \<and> max (st_MinPadding s) (st_MaxPadding s) \<le> 8388608
         | None \<Rightarrow> True))"

text \<open>The sizes of one packet's data for which reading gives the data back.\<close>

definition pkt_fits :: "encConn \<Rightarrow> bytes \<Rightarrow> bool" where
  "pkt_fits c d \<longleftrightarrow>
     (case obfs_on c of
       Some ob \<Rightarrow> length d < 65534
     | None \<Rightarrow>
         (case stealth_on c of
           Some s \<Rightarrow> 4 < length d \<and> length d < 65534
         | None \<Rightarrow> length d \<le> 16777188 \<and> (d \<noteq> [] \<or> ec_gcm c \<noteq> None)))"

lemma payload_ok:
  assumes "enc_good c" and "pkt_fits c d"
  shows "\<exists>p w'. packet_payload c d w = Return (p, w') \<and> unpad c p = Return (Inr d) \<and>
    length p \<le> 16777188 \<and> (p \<noteq> [] \<or> ec_gcm c \<noteq> None)"
proof (cases "obfs_on c")
  case (Some ob)
  with assms have g: "obfs_good ob" "max (ob_MinPadding ob) (ob_MaxPadding ob) \<le> 8388608"
      "length d < 65534"
    by (auto simp: enc_good_def pkt_fits_def)
  obtain p w' where "addPadding d ob w = Return (p, w')" "removePadding p = Return (Some d)"
      "length d + 2 \<le> length p"
      "length p \<le> length d + (nat (max (ob_MinPadding ob) (ob_MaxPadding ob)) + 2)"
    using obfs_scheme.add_strip [OF g(1,3), of w] by blast
  moreover from this have "length p \<le> 16777188" "p \<noteq> []" using g by auto
  ultimately show ?thesis
    using Some by (simp add: packet_payload_def unpad_def)
next
  case no: None
  show ?thesis
  proof (cases "stealth_on c")
    case (Some s)
    with assms no have g: "stealth_good s" "max (st_MinPadding s) (st_MaxPadding s) \<le> 8388608"
        "4 < length d" "length d < 65534"
      by (auto simp: enc_good_def pkt_fits_def)
    then have "d \<noteq> [] \<and> length d < 65534" by auto
    then obtain p w' where "addStealthPadding d s w = Return (p, w')"
        "removeStealthPadding p = Return (Some d)" "length d + 2 \<le> length p"
        "length p \<le> length d + (nat (max (st_MinPadding s) (st_MaxPadding s)) + 2)"
      using stealth_scheme.add_strip [OF g(1), of d w] by blast
    moreover from this have "length p \<le> 16777188" "p \<noteq> []" using g by auto
    ultimately show ?thesis
      using Some no g(3) by (simp add: packet_payload_def unpad_def)
  next
    case None
    with assms no show ?thesis
      by (auto simp: packet_payload_def unpad_def pkt_fits_def)
  qed
qed

lemma seal_ok:
  assumes "enc_good c"
    and "length p \<le> 16777188" and "p \<noteq> [] \<or> ec_gcm c \<noteq> None"
    and "seal_packet c p w = (Inr buf, w')"
  shows "\<exists>pkt. buf = frame pkt \<and> 0 < length pkt \<and> length pkt \<le> 16777216 \<and>
    decode_packet c pkt = unpad c p"
proof (cases "ec_gcm c")
  case None
  with assms show ?thesis
    by (auto simp: seal_packet_def decode_packet_def decrypt_def)
next
  case (Some g)
  with assms(1) have g: "aead_ok g" by (simp add: enc_good_def)
  obtain nonce b w1 where r: "randRead (aead_NonceSize g) w = ((nonce, b), w1)"
    by (metis prod.collapse)
  have n: "aead_NonceSize g = 12" "length nonce = 12"
    using g length_randRead [OF r] by (simp_all add: aead_ok_def)
  then have s: "aead_Open g nonce (aead_Seal g nonce p) = Some p"
      "length (aead_Seal g nonce p) = length p + 16"
    using g by (simp_all add: aead_ok_def)
  have "buf = frame (nonce @ aead_Seal g nonce p)"
    using assms(4) Some r by (auto simp: seal_packet_def split: if_splits)
  with Some n s assms(2) show ?thesis
    by (intro exI [of _ "nonce @ aead_Seal g nonce p"])
      (simp add: decode_packet_def decrypt_def)
qed

lemma writePacket_ok:
  assumes "enc_good c" and "pkt_fits c d"
  shows "\<exists>n e c' w'. writePacket c d w = Return ((n, e), c', w') \<and>
    c' = c\<lparr>ec_conn := ec_conn c'\<rparr> \<and>
    (e = None \<longrightarrow> n = length d \<and> (\<exists>pkt. tx (ec_conn c') = tx (ec_conn c) @ frame pkt \<and>
       0 < length pkt \<and> length pkt \<le> 16777216 \<and> decode_packet c pkt = Return (Inr d)))"
proof -
  obtain p w1 where p: "packet_payload c d w = Return (p, w1)" "unpad c p = Return (Inr d)"
      "length p \<le> 16777188" "p \<noteq> [] \<or> ec_gcm c \<noteq> None"
    using payload_ok [OF assms] by blast
  obtain r w2 where s: "seal_packet c p w1 = (r, w2)" by (metis prod.collapse)
  show ?thesis
  proof (cases r)
    case (Inl e)
    with p s show ?thesis by (simp add: writePacket_def)
  next
    case (Inr buf)
    obtain pkt where k: "buf = frame pkt" "0 < length pkt" "length pkt \<le> 16777216"
        "decode_packet c pkt = Return (Inr d)"
      using seal_ok [OF assms(1) p(3,4) s [unfolded Inr]] p(2) by auto
    obtain n e cn where w: "conn_write (ec_conn c) buf = ((n, e), cn)" by (metis prod.collapse)
    show ?thesis
    proof (cases e)
      case None
      with conn_write_None [of "ec_conn c" buf n cn] w p s Inr k show ?thesis
        by (auto simp: writePacket_def Let_def)
    next
      case (Some x)
      with p s Inr w show ?thesis by (simp add: writePacket_def)
    qed
  qed
qed

text \<open>
  From \<open>c\<close> to \<open>c'\<close> only the connection changed, and what was added to the wire decodes to
  \<open>d\<close>.
\<close>

definition delivers :: "encConn \<Rightarrow> encConn \<Rightarrow> bytes \<Rightarrow> bool" where
  "delivers c c' d \<longleftrightarrow> c' = c\<lparr>ec_conn := ec_conn c'\<rparr> \<and>
     (\<exists>bs. tx (ec_conn c') = tx (ec_conn c) @ bs \<and> decode_wire (decode_packet c) bs = Some d)"

lemma delivers_settings:
  "delivers c c' d \<Longrightarrow> obfs_on c' = obfs_on c \<and> stealth_on c' = stealth_on c \<and>
     ec_gcm c' = ec_gcm c \<and> ec_obfs c' = ec_obfs c \<and> ec_stealth c' = ec_stealth c \<and>
     ec_readBuf c' = ec_readBuf c \<and> decode_packet c' = decode_packet c"
  unfolding delivers_def
  by (metis decode_packet_conn(1) encConn.select_convs encConn.surjective encConn.update_convs(1)
      settings_conn(1,2))

lemma delivers_refl: "delivers c c []"
  by (simp add: delivers_def)

lemma delivers_trans:
  assumes "delivers a b d" and "delivers b c e"
  shows "delivers a c (d @ e)"
proof -
  obtain bs cs where 1: "tx (ec_conn b) = tx (ec_conn a) @ bs"
      "decode_wire (decode_packet a) bs = Some d" "tx (ec_conn c) = tx (ec_conn b) @ cs"
      "decode_wire (decode_packet b) cs = Some e"
    using assms by (auto simp: delivers_def)
  have "decode_packet b = decode_packet a"
    using delivers_settings [OF assms(1)] by simp
  with 1 have "decode_wire (decode_packet a) (bs @ cs) = Some (d @ e)"
    using decode_wire_append [OF 1(2), of cs] by simp
  moreover have "c = a\<lparr>ec_conn := ec_conn c\<rparr>"
  proof -
    have "b = a\<lparr>ec_conn := ec_conn b\<rparr>" "c = b\<lparr>ec_conn := ec_conn c\<rparr>"
      using assms by (simp_all add: delivers_def)
    then show ?thesis by (metis encConn.update_convs(1) encConn.surjective)
  qed
  ultimately show ?thesis
    using 1 by (auto simp: delivers_def)
qed

lemma writePacket_delivers:
  assumes "enc_good c" and "pkt_fits c d"
  shows "\<exists>n e c' w'. writePacket c d w = Return ((n, e), c', w') \<and>
    (e = None \<longrightarrow> n = length d \<and> delivers c c' d)"
proof -
  obtain n e c' w' where w: "writePacket c d w = Return ((n, e), c', w')"
      "c' = c\<lparr>ec_conn := ec_conn c'\<rparr>"
      "e = None \<longrightarrow> n = length d \<and> (\<exists>pkt. tx (ec_conn c') = tx (ec_conn c) @ frame pkt \<and>
         0 < length pkt \<and> length pkt \<le> 16777216 \<and> decode_packet c pkt = Return (Inr d))"
    using writePacket_ok [OF assms, of w] by blast
  have "decode_wire (decode_packet c) (frame pkt) = Some d"
    if "0 < length pkt" "length pkt \<le> 16777216" "decode_packet c pkt = Return (Inr d)" for pkt
    using decode_wire_frame [of pkt "decode_packet c" d "[]"] that by simp
  with w show ?thesis
    by (auto simp: delivers_def)
qed

text \<open>The bound on a burst chunk, and the settings for which every chunk can be read back.\<close>

definition burst_bound :: "StealthConfig \<Rightarrow> int" where
  "burst_bound s = (if st_MaxBurstSize s \<le> 0 then 4096 else st_MaxBurstSize s)"

definition burst_fits :: "encConn \<Rightarrow> int \<Rightarrow> bool" where
  "burst_fits c m \<longleftrightarrow> 0 < m \<and> m < 2 ^ 63 \<and>
     (case obfs_on c of
       Some _ \<Rightarrow> max 2048 m < 65534
     | None \<Rightarrow> stealth_on c = None \<and> max 2048 m \<le> 16777188)"

lemma burst_chunk:
  assumes "burst_fits c m" and "secureRandInt (i64 (m - 2048 + 1)) w = (r, w')"
  shows "2048 + r \<le> max 2048 m" and "0 \<le> r"
proof -
  have "i64 (m - 2048 + 1) = m - 2048 + 1"
    using assms(1) by (intro i64_small) (auto simp: burst_fits_def)
  then show "2048 + r \<le> max 2048 m" "0 \<le> r"
    using assms(2) secureRandInt_nonneg [of _ w r w'] secureRandInt_less [of "m - 2048 + 1" w r w']
    by (cases "0 < m - 2048 + 1"; auto)+
qed

lemma burst_chunk_fits:
  assumes "burst_fits c m" and "d \<noteq> []" and "int (length d) \<le> max 2048 m"
  shows "pkt_fits c d"
  using assms by (auto simp: burst_fits_def pkt_fits_def split: option.splits)

lemma delivers_cong:
  assumes "delivers c c' d"
  shows "enc_good c' = enc_good c" "burst_fits c' = burst_fits c" "pkt_fits c' = pkt_fits c"
proof -
  from delivers_settings [OF assms]
  have on: "obfs_on c' = obfs_on c" "stealth_on c' = stealth_on c" "ec_gcm c' = ec_gcm c"
    by simp_all
  show "enc_good c' = enc_good c" "burst_fits c' = burst_fits c" "pkt_fits c' = pkt_fits c"
    unfolding enc_good_def burst_fits_def [abs_def] pkt_fits_def [abs_def] on by (rule refl)+
qed

lemma burst_loop_delivers:
  assumes "enc_good c" and "burst_fits c m"
  shows "\<exists>n e c' w'. burst_loop c rest tot m w = Return ((n, e), c', w') \<and>
    (e = None \<longrightarrow> n = tot + length rest \<and> delivers c c' rest)"
  using assms
proof (induction "length rest" arbitrary: c rest tot w rule: less_induct)
  case less
  show ?case
  proof (cases "rest = []")
    case True
    then show ?thesis by (simp add: burst_loop.simps delivers_refl)
  next
    case False
    obtain r w1 where r: "secureRandInt (i64 (m - 2048 + 1)) w = (r, w1)"
      by (metis prod.collapse)
    define k where k: "k = min (2048 + nat r) (length rest)"
    have kb: "0 < k" "int k \<le> max 2048 m" "k \<le> length rest"
      using burst_chunk [OF less.prems(2) r] False unfolding k by auto
    have fit: "pkt_fits c (take k rest)"
      using kb False by (intro burst_chunk_fits [OF less.prems(2)]) auto
    obtain n e c1 w2 where p: "writePacket c (take k rest) w1 = Return ((n, e), c1, w2)"
        "e = None \<longrightarrow> n = length (take k rest) \<and> delivers c c1 (take k rest)"
      using writePacket_delivers [OF less.prems(1) fit, of w1] by blast
    have eq: "burst_loop c rest tot m w =
        (case e of Some x \<Rightarrow> Return ((tot + n, Some x), c1, w2)
         | None \<Rightarrow> burst_loop c1 (drop k rest) (tot + n) m w2)"
      using False p(1) r by (subst burst_loop.simps) (simp add: k Let_def split: option.split)
    show ?thesis
    proof (cases e)
      case (Some x)
      with eq show ?thesis by simp
    next
      case None
      with p have d: "n = k" "delivers c c1 (take k rest)" using kb by simp_all
      have "enc_good c1" "burst_fits c1 m"
        using less.prems delivers_cong [OF d(2)] by simp_all
      moreover have "length (drop k rest) < length rest" using kb False by auto
      ultimately obtain n' e' c' w' where
          q: "burst_loop c1 (drop k rest) (tot + n) m w2 = Return ((n', e'), c', w')"
          "e' = None \<longrightarrow> n' = tot + n + length (drop k rest) \<and> delivers c1 c' (drop k rest)"
        using less.hyps [of "drop k rest" c1 "tot + n" w2] by blast
      with eq None d kb show ?thesis
        using delivers_trans [OF d(2), of c' "drop k rest"] by auto
    qed
  qed
qed

text \<open>The writes \<open>Write\<close> supports.\<close>

definition write_fits :: "encConn \<Rightarrow> bytes \<Rightarrow> bool" where
  "write_fits c d \<longleftrightarrow>
     (case ec_stealth c of
       Some s \<Rightarrow>
         if st_BurstSplit s \<and> int (length d) > st_MaxBurstSize s then burst_fits c (burst_bound s)
         else pkt_fits c d
     | None \<Rightarrow> pkt_fits c d)"

lemma write_fits_cong:
  assumes "delivers c c' d"
  shows "write_fits c' = write_fits c"
proof -
  have on: "ec_stealth c' = ec_stealth c" using delivers_settings [OF assms] by simp
  show ?thesis
    unfolding write_fits_def [abs_def] delivers_cong [OF assms] on ..
qed

lemma ec_Write_delivers:
  assumes "enc_good c" and "write_fits c d"
  shows "\<exists>n e c' w'. ec_Write c d w = Return ((n, e), c', w') \<and>
    (e = None \<longrightarrow> n = length d \<and> delivers c c' d)"
proof (cases "ec_stealth c")
  case None
  with assms show ?thesis
    using writePacket_delivers by (simp add: ec_Write_def write_fits_def)
next
  case (Some s)
  show ?thesis
  proof (cases "st_BurstSplit s \<and> int (length d) > st_MaxBurstSize s")
    case True
    with assms Some have "burst_fits c (burst_bound s)" by (simp add: write_fits_def)
    from burst_loop_delivers [OF assms(1) this, of d 0 w] True Some show ?thesis
      by (simp add: ec_Write_def burstWrite_def burst_bound_def Let_def)
  next
    case False
    with assms Some show ?thesis
      using writePacket_delivers by (auto simp: ec_Write_def write_fits_def)
  qed
qed

definition enc_ok :: "encConn \<Rightarrow> bool" where
  "enc_ok c \<longleftrightarrow> enc_good c \<and> decode_wire (decode_packet c) (tx (ec_conn c)) \<noteq> None"

definition enc_sent :: "encConn \<Rightarrow> bytes" where
  "enc_sent c = the (decode_wire (decode_packet c) (tx (ec_conn c)))"

interpretation enc_sink: byte_sink ec_Write enc_sent enc_ok write_fits
proof
  fix c :: encConn and d :: bytes and w :: world
  assume ok: "enc_ok c" and f: "write_fits c d"
  then have g: "enc_good c" by (simp add: enc_ok_def)
  obtain n e c' w' where w: "ec_Write c d w = Return ((n, e), c', w')"
      "e = None \<longrightarrow> n = length d \<and> delivers c c' d"
    using ec_Write_delivers [OF g f, of w] by blast
  have "enc_ok c' \<and> enc_sent c' = enc_sent c @ d \<and> write_fits c' = write_fits c"
    if dl: "delivers c c' d"
  proof -
    note st = delivers_settings [OF dl]
    obtain p where p: "decode_wire (decode_packet c) (tx (ec_conn c)) = Some p"
      using ok by (auto simp: enc_ok_def)
    obtain bs where bs: "tx (ec_conn c') = tx (ec_conn c) @ bs"
        "decode_wire (decode_packet c) bs = Some d"
      using dl by (auto simp: delivers_def)
    have "decode_wire (decode_packet c') (tx (ec_conn c')) = Some (p @ d)"
      using decode_wire_append [OF p, of bs] bs st by simp
    with p g write_fits_cong [OF dl] delivers_cong(1) [OF dl] show ?thesis
      by (simp add: enc_ok_def enc_sent_def)
  qed
  with w show "\<exists>n e c' w'. ec_Write c d w = Return ((n, e), c', w') \<and>
      (e = None \<longrightarrow> n = length d \<and> enc_ok c' \<and> enc_sent c' = enc_sent c @ d \<and>
        write_fits c' = write_fits c)"
    by blast
qed

section \<open>A read gives out what the wire decodes to\<close>

definition enc_pending :: "encConn \<Rightarrow> bytes option" where
  "enc_pending c =
     (if rerr (ec_conn c) = EOF
      then map_option (append (ec_readBuf c)) (decode_wire (decode_packet c) (rx (ec_conn c)))
      else None)"

definition enc_live :: "encConn \<Rightarrow> bool" where
  "enc_live c \<longleftrightarrow> ec_readBuf c \<noteq> [] \<or> rx (ec_conn c) \<noteq> []"

lemma ec_Read_buffered:
  "ec_readBuf c \<noteq> [] \<Longrightarrow>
     ec_Read c k = Return ((take k (ec_readBuf c), None), c\<lparr>ec_readBuf := drop k (ec_readBuf c)\<rparr>)"
  by (simp add: ec_Read_def Let_def min_def)

text \<open>Reading a packet: the front of what it decodes to is returned, the rest is kept.\<close>

lemma ec_Read_frame:
  assumes b: "ec_readBuf c = []"
    and n: "n = unat (be32 (rx (ec_conn c)))" "0 < n" "n \<le> 16777216"
    and l: "4 + n \<le> length (rx (ec_conn c))"
  shows "\<exists>cn. ec_Read c k =
      (case decode_packet c (take n (drop 4 (rx (ec_conn c)))) of
        Panic p \<Rightarrow> Panic p
      | Return (Inl e) \<Rightarrow> Return (([], Some e), c\<lparr>ec_conn := cn\<rparr>)
      | Return (Inr d) \<Rightarrow> Return ((take k d, None), c\<lparr>ec_conn := cn, ec_readBuf := drop k d\<rparr>)) \<and>
    rx cn = drop (4 + n) (rx (ec_conn c)) \<and> tx cn = tx (ec_conn c) \<and> rerr cn = rerr (ec_conn c)"
proof -
  let ?bs = "rx (ec_conn c)"
  obtain c1 where h: "readFull 4 (ec_conn c) = ((take 4 ?bs, None), c1)" "rx c1 = drop 4 ?bs"
      "tx c1 = tx (ec_conn c)" "rerr c1 = rerr (ec_conn c)"
    using readFull_enough [of 4 "ec_conn c"] l by auto
  obtain c2 where p: "readFull n c1 = ((take n (drop 4 ?bs), None), c2)" "rx c2 = drop (n + 4) ?bs"
      "tx c2 = tx (ec_conn c)" "rerr c2 = rerr (ec_conn c)"
  proof -
    have "n \<le> length (rx c1)" using l h(2) by simp
    from readFull_enough [OF this] h that show thesis by (auto simp: add.commute)
  qed
  have w: "be32 ?bs \<noteq> 0" "\<not> be32 ?bs > 16777216"
    using n by (auto simp: word_less_nat_alt)
  have buf: "(if min k (length d) < length d then (c\<lparr>ec_conn := c2\<rparr>)\<lparr>ec_readBuf := drop (min k (length d)) d\<rparr>
      else c\<lparr>ec_conn := c2\<rparr>) = c\<lparr>ec_conn := c2, ec_readBuf := drop k d\<rparr>" for d
    using b by (auto simp: min_def)
  have "ec_Read c k = obind (decode_packet c (take n (drop 4 ?bs))) (\<lambda>r. case r of
      Inl e \<Rightarrow> Return (([], Some e), c\<lparr>ec_conn := c2\<rparr>)
    | Inr plain \<Rightarrow> Return ((take (min k (length plain)) plain, None),
        if min k (length plain) < length plain
        then (c\<lparr>ec_conn := c2\<rparr>)\<lparr>ec_readBuf := drop (min k (length plain)) plain\<rparr>
        else c\<lparr>ec_conn := c2\<rparr>))"
    using b h(1) p(1) w n(1) by (simp add: ec_Read_def wire_simps Let_def)
  then have "ec_Read c k = (case decode_packet c (take n (drop 4 ?bs)) of
        Panic p \<Rightarrow> Panic p
      | Return (Inl e) \<Rightarrow> Return (([], Some e), c\<lparr>ec_conn := c2\<rparr>)
      | Return (Inr d) \<Rightarrow> Return ((take k d, None), c\<lparr>ec_conn := c2, ec_readBuf := drop k d\<rparr>))"
    unfolding buf by (simp add: min_def split: outcome.split sum.split)
  with p show ?thesis by (auto simp: add.commute)
qed

lemma ec_Read_packet:
  assumes "ec_readBuf c = []"
    and "n = unat (be32 (rx (ec_conn c)))" "0 < n" "n \<le> 16777216"
    and "4 + n \<le> length (rx (ec_conn c))"
    and "decode_packet c (take n (drop 4 (rx (ec_conn c)))) = Return (Inr d)"
  shows "\<exists>cn. ec_Read c k = Return ((take k d, None), c\<lparr>ec_conn := cn, ec_readBuf := drop k d\<rparr>) \<and>
    rx cn = drop (4 + n) (rx (ec_conn c)) \<and> tx cn = tx (ec_conn c) \<and> rerr cn = rerr (ec_conn c)"
  using ec_Read_frame [OF assms(1-5), of k] assms(6) by simp

lemma ec_Read_eof:
  assumes "ec_readBuf c = []" and "rx (ec_conn c) = []"
  shows "ec_Read c k = Return (([], Some (rerr (ec_conn c))), c)"
  using assms by (simp add: ec_Read_def readFull_def readAtLeast.simps [of 4] conn_read_def)

definition enc_work :: "encConn \<Rightarrow> nat" where
  "enc_work c = length (the (enc_pending c)) + length (rx (ec_conn c))"

interpretation enc_source: byte_source ec_Read enc_pending enc_live enc_work
proof
  fix c :: encConn and q :: bytes and k :: nat
  assume p: "enc_pending c = Some q"
  then have eof: "rerr (ec_conn c) = EOF" by (simp add: enc_pending_def split: if_splits)
  show "enc_live c \<Longrightarrow> \<exists>bs c' q'. ec_Read c k = Return ((bs, None), c') \<and>
      enc_pending c' = Some q' \<and> q = bs @ q' \<and> length bs \<le> k \<and>
      (0 < k \<longrightarrow> enc_work c' < enc_work c)"
  proof (cases "ec_readBuf c = []")
    case False
    then obtain m where m: "length (ec_readBuf c) = Suc m" by (cases "ec_readBuf c") auto
    with p ec_Read_buffered [OF False, of k] show ?thesis
      by (auto simp: enc_pending_def enc_work_def split: if_splits)
  next
    case True
    assume "enc_live c"
    with True have "rx (ec_conn c) \<noteq> []" by (simp add: enc_live_def)
    moreover have dq: "decode_wire (decode_packet c) (rx (ec_conn c)) = Some q"
      using p eof True by (auto simp: enc_pending_def)
    ultimately obtain n d q' where 1: "n = unat (be32 (rx (ec_conn c)))" "0 < n" "n \<le> 16777216"
        "4 + n \<le> length (rx (ec_conn c))"
        "decode_packet c (take n (drop 4 (rx (ec_conn c)))) = Return (Inr d)"
        "decode_wire (decode_packet c) (drop (4 + n) (rx (ec_conn c))) = Some q'" "q = d @ q'"
      using decode_wire_Some by metis
    obtain cn where "ec_Read c k = Return ((take k d, None), c\<lparr>ec_conn := cn, ec_readBuf := drop k d\<rparr>)"
        "rx cn = drop (4 + n) (rx (ec_conn c))" "rerr cn = rerr (ec_conn c)"
      using ec_Read_packet [OF True 1(1-5), of k] by blast
    with 1(2-) dq eof True show ?thesis
      by (simp add: enc_pending_def enc_work_def) arith
  qed
  show "\<not> enc_live c \<Longrightarrow>
      q = [] \<and> (\<exists>e. ec_Read c k = Return (([], e), c) \<and> (e = Some EOF \<or> e = None \<and> k = 0))"
    using p eof ec_Read_eof [of c k] by (auto simp: enc_live_def enc_pending_def)
qed

text \<open>The connection a peer with the settings of \<open>c\<close> reads what \<open>c\<close> wrote from.\<close>

definition peer_of :: "encConn \<Rightarrow> encConn" where
  "peer_of c = c\<lparr>ec_conn := new_conn (tx (ec_conn c)), ec_readBuf := []\<rparr>"

lemma enc_pending_peer: "enc_ok c \<Longrightarrow> enc_pending (peer_of c) = Some (enc_sent c)"
  by (auto simp: enc_pending_def peer_of_def enc_sent_def enc_ok_def new_conn_def)

lemma writePacket_len:
  assumes "writePacket c d w = Return ((n, None), c', w')"
  shows "n = length d"
proof -
  obtain p w1 where p: "packet_payload c d w = Return (p, w1)"
    using assms by (auto simp: writePacket_def outcome_simps)
  obtain r w2 where s: "seal_packet c p w1 = (r, w2)" by (metis prod.collapse)
  with assms p obtain buf where "r = Inr buf" by (cases r) (auto simp: writePacket_def)
  moreover obtain m e cn where "conn_write (ec_conn c) buf = ((m, e), cn)" by (metis prod.collapse)
  ultimately show ?thesis
    using assms p s by (auto simp: writePacket_def Let_def split: option.splits)
qed

text \<open>One packet written on a fresh connection and read by the peer: what the payload unpads to.\<close>

lemma write_then_read:
  assumes g: "enc_good c" and t: "tx (ec_conn c) = []"
    and p: "packet_payload c d w = Return (p, w1)" "length p \<le> 16777188" "p \<noteq> []"
    and wr: "writePacket c d w = Return ((n, None), c', w')"
  shows "\<exists>cn. ec_Read (peer_of c') k =
      (case unpad c p of
        Panic q \<Rightarrow> Panic q
      | Return (Inl e) \<Rightarrow> Return (([], Some e), (peer_of c')\<lparr>ec_conn := cn\<rparr>)
      | Return (Inr x) \<Rightarrow>
          Return ((take k x, None), (peer_of c')\<lparr>ec_conn := cn, ec_readBuf := drop k x\<rparr>)) \<and>
    rx cn = []"
proof -
  obtain r w2 where s: "seal_packet c p w1 = (r, w2)" by (metis prod.collapse)
  with wr p(1) obtain buf where r: "r = Inr buf"
    by (cases r) (auto simp: writePacket_def)
  obtain pkt where k: "buf = frame pkt" "0 < length pkt" "length pkt \<le> 16777216"
      "decode_packet c pkt = unpad c p"
    using seal_ok [OF g p(2) _ s [unfolded r]] p(3) by blast
  obtain m e cn where cw: "conn_write (ec_conn c) buf = ((m, e), cn)" by (metis prod.collapse)
  with wr p(1) s r have e: "e = None" and c': "c' = c\<lparr>ec_conn := cn\<rparr>"
    by (auto simp: writePacket_def Let_def split: option.splits)
  have "tx cn = frame pkt" using conn_write_None [of "ec_conn c" buf m cn] cw e t k(1) by simp
  then have rx: "rx (ec_conn (peer_of c')) = frame pkt" by (simp add: peer_of_def new_conn_def c')
  have dp: "decode_packet (peer_of c') = decode_packet c"
    by (rule decode_packet_cong) (simp add: same_settings_def peer_of_def c')
  have n: "length pkt = unat (be32 (frame pkt))"
    using k(3) be32_put32 [of "word_of_nat (length pkt)" pkt] by (simp add: frame_def unat_length32)
  have "ec_readBuf (peer_of c') = []" by (simp add: peer_of_def)
  from ec_Read_frame [OF this, unfolded rx, OF n k(2,3), of k] k(4) show ?thesis
    by (auto simp: frame_def dp)
qed

end
