(* ===== verification/EncProps.thy ===== *)
theory EncProps
  imports EncConn
begin

text \<open>
  The properties of the encrypted connection: the round trip of a stream of writes, the writes
  that must succeed, what a read does on every branch, and the sizes at which the 16-bit length
  field of the padding goes wrong. The cipher of the witnesses is \<open>demo_aead\<close>.
\<close>

definition demo_aead :: aead where
  "demo_aead = \<lparr>aead_NonceSize = 12, aead_Seal = (\<lambda>nonce p. replicate 16 7 @ p),
     aead_Open = (\<lambda>nonce b. if take 16 b = replicate 16 7 then Some (drop 16 b) else None)\<rparr>"

lemma aead_ok_demo: "aead_ok demo_aead"
  by (simp add: aead_ok_def demo_aead_def)

definition demo_obfs :: "int \<Rightarrow> int \<Rightarrow> ObfsConfig" where
  "demo_obfs mn mx = \<lparr>ob_Enabled = True, ob_MinPadding = mn, ob_MaxPadding = mx,
     ob_MinDelayMS = 0, ob_MaxDelayMS = 0, ob_BurstChance = 0\<rparr>"

definition demo_stealth :: "bool \<Rightarrow> bool \<Rightarrow> int \<Rightarrow> StealthConfig" where
  "demo_stealth pad burst mb = \<lparr>st_RandomPadding = pad, st_MinPadding = 1, st_MaxPadding = 1,
     st_KeepaliveJitter = 2, st_ConnJitterMS = 500, st_BurstSplit = burst, st_MaxBurstSize = mb,
     st_FakeTraffic = False, st_FakeTrafficInterval = 30\<rparr>"

definition demo_conn :: "aead option \<Rightarrow> ObfsConfig option \<Rightarrow> StealthConfig option \<Rightarrow> encConn" where
  "demo_conn g ob s = \<lparr>ec_conn = new_conn [], ec_gcm = g, ec_obfs = ob, ec_stealth = s,
     ec_readBuf = []\<rparr>"

definition demo_world :: "nat \<Rightarrow> world" where
  "demo_world n = \<lparr>w_entropy = replicate n (Some 0), w_sleeps = []\<rparr>"

lemma demo_conn_sel [simp]:
  "ec_gcm (demo_conn g ob s) = g" "ec_obfs (demo_conn g ob s) = ob"
  "ec_stealth (demo_conn g ob s) = s" "ec_readBuf (demo_conn g ob s) = []"
  "ec_conn (demo_conn g ob s) = new_conn []"
  by (simp_all add: demo_conn_def)

lemma demo_obfs_sel [simp]:
  "ob_Enabled (demo_obfs mn mx)" "ob_MinPadding (demo_obfs mn mx) = mn"
  "ob_MaxPadding (demo_obfs mn mx) = mx" "ob_MaxDelayMS (demo_obfs mn mx) = 0"
  by (simp_all add: demo_obfs_def)

lemma demo_stealth_sel [simp]:
  "st_RandomPadding (demo_stealth b burst mb) = b" "st_BurstSplit (demo_stealth b burst mb) = burst"
  "st_MinPadding (demo_stealth b burst mb) = 1" "st_MaxPadding (demo_stealth b burst mb) = 1"
  "st_MaxBurstSize (demo_stealth b burst mb) = mb"
  by (simp_all add: demo_stealth_def)

lemma demo_conn_on [simp]:
  "obfs_on (demo_conn g (Some (demo_obfs mn mx)) s) = Some (demo_obfs mn mx)"
  "obfs_on (demo_conn g None s) = None"
  "stealth_on (demo_conn g ob (Some (demo_stealth b burst mb))) =
     (if b then Some (demo_stealth b burst mb) else None)"
  "stealth_on (demo_conn g ob None) = None"
  by (simp_all add: obfs_on_def stealth_on_def)

lemma demo_good [simp]:
  "0 \<le> mn \<Longrightarrow> mn \<le> 8388608 \<Longrightarrow> 0 \<le> mx \<Longrightarrow> mx \<le> 8388608 \<Longrightarrow>
     enc_good (demo_conn None (Some (demo_obfs mn mx)) s)"
  "0 \<le> mn \<Longrightarrow> mn \<le> 8388608 \<Longrightarrow> 0 \<le> mx \<Longrightarrow> mx \<le> 8388608 \<Longrightarrow>
     enc_good (demo_conn (Some demo_aead) (Some (demo_obfs mn mx)) s)"
  using aead_ok_demo by (simp_all add: enc_good_def obfs_good_def pad_range_def)

lemmas demo_defs = demo_conn_def demo_obfs_def demo_stealth_def demo_world_def demo_aead_def
  new_conn_def

lemmas enc_eval = ec_Write_def writePacket_def packet_payload_def seal_packet_def obfs_on_def
  stealth_on_def addPadding_def addStealthPadding_def pad_with_def go_make_def copy_at_def
  secureRandInt_def randRead_def conn_write_def frame_def put16_def put32_def i64_def
  eval_nat_numeral

section \<open>The round trip\<close>

text \<open>
  C1. Whatever the writes of one side were, as long as each is of a supported size and none
  reported an error, the other side, with the same key and settings, reads exactly their
  concatenation and then the end of the stream, with read buffers of any size, and any sequence
  of reads gives out a prefix of it.
\<close>

theorem tunnel_stream_roundtrip:
  assumes "enc_good c" and "tx (ec_conn c) = []" and "list_all (write_fits c) ds"
    and "write_all ec_Write c ds w = Return (None, c', w')" and "0 < k"
  shows "(\<exists>N r. read_all ec_Read (peer_of c') (replicate N k) = Return ((concat ds, Some EOF), r)) \<and>
    (\<exists>bs e r q. read_all ec_Read (peer_of c') ks = Return ((bs, e), r) \<and> concat ds = bs @ q)"
proof -
  have ok: "enc_ok c" and s: "enc_sent c = []"
    using assms(1,2) by (simp_all add: enc_ok_def enc_sent_def)
  have "enc_ok c'" "enc_sent c' = concat ds"
    using enc_sink.write_all_sent [OF ok assms(3), of w] assms(4) s by auto
  then have p: "enc_pending (peer_of c') = Some (concat ds)"
    using enc_pending_peer [of c'] by simp
  show ?thesis
    using enc_source.read_all_complete [OF p assms(5)] enc_source.read_all_prefix [OF p, of ks]
    by blast
qed

theorem tunnel_stream_roundtrip_witness:
  "\<exists>c' w'. write_all ec_Write (demo_conn (Some demo_aead) (Some (demo_obfs 1 1)) None) [[1, 2], [3]]
      (demo_world 40) = Return (None, c', w') \<and>
    (\<exists>N r. read_all ec_Read (peer_of c') (replicate N 2) = Return (([1, 2, 3], Some EOF), r))"
proof -
  let ?c = "demo_conn (Some demo_aead) (Some (demo_obfs 1 1)) None"
  have g: "enc_good ?c" by simp
  have f: "list_all (write_fits ?c) [[1, 2], [3]]"
    by (simp add: write_fits_def pkt_fits_def)
  have t: "tx (ec_conn ?c) = []" by (simp add: new_conn_def)
  obtain c' w' where w: "write_all ec_Write ?c [[1, 2], [3]] (demo_world 40) = Return (None, c', w')"
    by (simp add: enc_eval demo_defs Let_def)
  have "concat [[1, 2], [3]] = [1, 2, 3 :: byte]" by simp
  with tunnel_stream_roundtrip [OF g t f w, of 2 "[]"] w show ?thesis by fastforce
qed

section \<open>Reading: every branch\<close>

text \<open>The read fails with \<open>e\<close>: no byte is delivered and none is buffered.\<close>

definition read_fails :: "encConn \<Rightarrow> nat \<Rightarrow> gerror \<Rightarrow> bool" where
  "read_fails c k e \<longleftrightarrow> (\<exists>cn. ec_Read c k = Return (([], Some e), c\<lparr>ec_conn := cn\<rparr>))"

text \<open>What a connection reports that ended inside of what was asked for, with \<open>got\<close> read.\<close>

definition cut_error :: "bytes \<Rightarrow> conn \<Rightarrow> gerror" where
  "cut_error got cn = (if got \<noteq> [] \<and> rerr cn = EOF then UnexpectedEOF else rerr cn)"

lemma read_header_fails:
  assumes "ec_readBuf c = []" and "length (rx (ec_conn c)) < 4"
  shows "read_fails c k (cut_error (rx (ec_conn c)) (ec_conn c))"
  using readFull_short [OF assms(2)] assms(1)
  by (auto simp: read_fails_def cut_error_def ec_Read_def)

lemma read_length_fails:
  assumes "ec_readBuf c = []" and "4 \<le> length (rx (ec_conn c))" and n: "n = unat (be32 (rx (ec_conn c)))"
  shows "n = 0 \<or> n > 16777216 \<Longrightarrow> read_fails c k (ErrorfInt ''invalid packet length: %d'' (int n))"
    and "0 < n \<Longrightarrow> n \<le> 16777216 \<Longrightarrow> length (rx (ec_conn c)) < 4 + n \<Longrightarrow>
      read_fails c k (cut_error (drop 4 (rx (ec_conn c))) (ec_conn c))"
proof -
  let ?bs = "rx (ec_conn c)"
  obtain c1 where h: "readFull 4 (ec_conn c) = ((take 4 ?bs, None), c1)" "rx c1 = drop 4 ?bs"
      "rerr c1 = rerr (ec_conn c)"
    using readFull_enough [OF assms(2)] by auto
  show "read_fails c k (ErrorfInt ''invalid packet length: %d'' (int n))" if "n = 0 \<or> n > 16777216"
  proof -
    have "be32 ?bs = 0 \<or> be32 ?bs > 16777216" "uint (be32 ?bs) = int n"
      using n that by (auto simp: word_less_nat_alt unat_eq_0)
    with assms(1) h show ?thesis by (auto simp: read_fails_def ec_Read_def wire_simps Let_def)
  qed
  show "read_fails c k (cut_error (drop 4 ?bs) (ec_conn c))"
    if l: "0 < n" "n \<le> 16777216" "length ?bs < 4 + n"
  proof -
    have w: "be32 ?bs \<noteq> 0" "\<not> be32 ?bs > 16777216"
      using n l by (auto simp: word_less_nat_alt)
    have "length (rx c1) < n" using l(3) h(2) assms(2) by simp
    from readFull_short [OF this] assms(1) h w n show ?thesis
      by (auto simp: read_fails_def cut_error_def ec_Read_def wire_simps Let_def)
  qed
qed

text \<open>The plaintext of a packet: the packet itself without a cipher, what opens with one.\<close>

definition opened :: "encConn \<Rightarrow> bytes \<Rightarrow> bytes \<Rightarrow> bool" where
  "opened c pkt plain \<longleftrightarrow>
     (case ec_gcm c of
       None \<Rightarrow> plain = pkt
     | Some g \<Rightarrow> aead_NonceSize g \<le> length pkt \<and>
         aead_Open g (take (aead_NonceSize g) pkt) (drop (aead_NonceSize g) pkt) = Some plain)"

lemma opened_decrypt: "opened c pkt plain \<longleftrightarrow> decrypt c pkt = Inr plain"
  by (auto simp: opened_def decrypt_def split: option.splits)

text \<open>A plaintext too short for its length field, or for the length in it.\<close>

definition cut_padding :: "bytes \<Rightarrow> bool" where
  "cut_padding plain \<longleftrightarrow> length plain < 2 \<or> length plain < 2 + unat (be16 plain)"

lemma cut_unpad:
  assumes "cut_padding plain"
  shows "obfs_on c \<noteq> None \<Longrightarrow> unpad c plain = Return (Inl (Errorf ''invalid padding''))"
    and "obfs_on c = None \<Longrightarrow> unpad c plain = Return (Inr plain)"
  using assms
  by (auto simp: cut_padding_def unpad_def removePadding_def removeStealthPadding_def Let_def
      split: option.split)

text \<open>
  C6. A read with nothing buffered delivers no byte and fails with its own error for every malformed
  input: a header or packet that is cut off, a length of zero or above 16 MB, a packet shorter
  than a nonce, one that does not open under the key, and under obfuscation a plaintext too short for
  the length in it. Stealth padding refuses nothing: such a plaintext is delivered as it is.
\<close>

theorem read_refuses:
  assumes "ec_readBuf c = []" and bs: "bs = rx (ec_conn c)" and n: "n = unat (be32 bs)" and pkt: "pkt = take n (drop 4 bs)"
  shows "(length bs < 4 \<longrightarrow> read_fails c k (cut_error bs (ec_conn c))) \<and>
    (4 \<le> length bs \<and> (n = 0 \<or> n > 16777216) \<longrightarrow>
       read_fails c k (ErrorfInt ''invalid packet length: %d'' (int n))) \<and>
    (4 \<le> length bs \<and> 0 < n \<and> n \<le> 16777216 \<and> length bs < 4 + n \<longrightarrow>
       read_fails c k (cut_error (drop 4 bs) (ec_conn c))) \<and>
    (0 < n \<and> n \<le> 16777216 \<and> 4 + n \<le> length bs \<longrightarrow>
       (\<forall>g. ec_gcm c = Some g \<longrightarrow>
          (n < aead_NonceSize g \<longrightarrow> read_fails c k (Errorf ''packet too short'')) \<and>
          (aead_NonceSize g \<le> n \<and> aead_Open g (take (aead_NonceSize g) pkt) (drop (aead_NonceSize g) pkt) = None \<longrightarrow>
             read_fails c k (Wrap ''decrypt'' (Errorf ''cipher: message authentication failed'')))) \<and>
       (\<forall>plain. opened c pkt plain \<and> cut_padding plain \<longrightarrow>
          (obfs_on c \<noteq> None \<longrightarrow> read_fails c k (Errorf ''invalid padding'')) \<and>
          (obfs_on c = None \<and> stealth_on c \<noteq> None \<longrightarrow>
             (\<exists>cn. ec_Read c k = Return ((take k plain, None), c\<lparr>ec_conn := cn, ec_readBuf := drop k plain\<rparr>)))))"
proof (intro conjI)
  show "length bs < 4 \<longrightarrow> read_fails c k (cut_error bs (ec_conn c))"
    using read_header_fails [OF assms(1)] unfolding bs by blast
  show "4 \<le> length bs \<and> (n = 0 \<or> n > 16777216) \<longrightarrow>
      read_fails c k (ErrorfInt ''invalid packet length: %d'' (int n))"
    using read_length_fails(1) [OF assms(1)] n unfolding bs by blast
  show "4 \<le> length bs \<and> 0 < n \<and> n \<le> 16777216 \<and> length bs < 4 + n \<longrightarrow>
      read_fails c k (cut_error (drop 4 bs) (ec_conn c))"
    using read_length_fails(2) [OF assms(1)] n unfolding bs by blast
next
  have l: "length pkt = n" if "4 + n \<le> length bs" using that by (simp add: pkt)
  have d: "decode_packet c pkt = Return (Inl e) \<Longrightarrow> read_fails c k e"
      "decode_packet c pkt = Return (Inr p) \<Longrightarrow>
        \<exists>cn. ec_Read c k = Return ((take k p, None), c\<lparr>ec_conn := cn, ec_readBuf := drop k p\<rparr>)"
    if "0 < n" "n \<le> 16777216" "4 + n \<le> length bs" for e p
    using ec_Read_frame [OF assms(1) n [unfolded bs] that(1,2) that(3) [unfolded bs], of k]
    by (auto simp: read_fails_def pkt bs)
  show "0 < n \<and> n \<le> 16777216 \<and> 4 + n \<le> length bs \<longrightarrow>
       (\<forall>g. ec_gcm c = Some g \<longrightarrow>
          (n < aead_NonceSize g \<longrightarrow> read_fails c k (Errorf ''packet too short'')) \<and>
          (aead_NonceSize g \<le> n \<and> aead_Open g (take (aead_NonceSize g) pkt) (drop (aead_NonceSize g) pkt) = None \<longrightarrow>
             read_fails c k (Wrap ''decrypt'' (Errorf ''cipher: message authentication failed'')))) \<and>
       (\<forall>plain. opened c pkt plain \<and> cut_padding plain \<longrightarrow>
          (obfs_on c \<noteq> None \<longrightarrow> read_fails c k (Errorf ''invalid padding'')) \<and>
          (obfs_on c = None \<and> stealth_on c \<noteq> None \<longrightarrow>
             (\<exists>cn. ec_Read c k = Return ((take k plain, None), c\<lparr>ec_conn := cn, ec_readBuf := drop k plain\<rparr>))))"
    using l by (auto intro!: d simp: decode_packet_def decrypt_def opened_decrypt cut_unpad split: option.splits)
qed

theorem read_refuses_witness:
  "read_fails ((demo_conn (Some demo_aead) None None)\<lparr>ec_conn := new_conn [0, 0, 0, 3, 1, 2, 3]\<rparr>) 9
     (Errorf ''packet too short'') \<and>
   read_fails ((demo_conn None (Some (demo_obfs 1 1)) None)\<lparr>ec_conn := new_conn [0, 0, 0, 3, 0, 2, 3]\<rparr>) 9
     (Errorf ''invalid padding'')"
proof -
  have n: "3 = unat (be32 [0, 0, 0, 3, a, b, 3])" for a b
    by (simp add: be32_def get32_def)
  have r: "rx (new_conn bs) = bs" for bs by (simp add: new_conn_def)
  have "cut_padding [0, 2, 3]" by (simp add: cut_padding_def be16_def get16_def)
  then show ?thesis
    using read_refuses [of "(demo_conn (Some demo_aead) None None)\<lparr>ec_conn := new_conn [0, 0, 0, 3, 1, 2, 3]\<rparr>",
        OF _ refl _ refl, of 3 9]
      read_refuses [of "(demo_conn None (Some (demo_obfs 1 1)) None)\<lparr>ec_conn := new_conn [0, 0, 0, 3, 0, 2, 3]\<rparr>",
        OF _ refl _ refl, of 3 9] n [of 1 2] n [of 0 2]
    by (auto simp: r opened_def demo_defs obfs_on_def)
qed

section \<open>Writing: when it must succeed\<close>

text \<open>How much entropy one packet needs: the padding draw, the padding and the nonce.\<close>

definition entropy_need :: "encConn \<Rightarrow> nat" where
  "entropy_need c =
     (case obfs_on c of
       Some ob \<Rightarrow> nat (max (ob_MinPadding ob) (ob_MaxPadding ob)) + 1
     | None \<Rightarrow>
         (case stealth_on c of
           Some s \<Rightarrow> nat (max (st_MinPadding s) (st_MaxPadding s)) + 1
         | None \<Rightarrow> 0)) + 12"

definition all_good :: "world \<Rightarrow> bool" where
  "all_good w \<longleftrightarrow> list_all (\<lambda>d. d \<noteq> None) (w_entropy w)"

lemma fill_all_good:
  "list_all (\<lambda>d. d \<noteq> None) e \<Longrightarrow> n \<le> length e \<Longrightarrow>
     fst (snd (fill n e)) \<and> snd (snd (fill n e)) = drop n e"
  by (induction n e rule: fill.induct) (auto split: prod.splits)

lemma randRead_all_good:
  "all_good w \<Longrightarrow> n \<le> length (w_entropy w) \<Longrightarrow> randRead n w = ((bs, ok), w') \<Longrightarrow>
     ok \<and> w_entropy w' = drop n (w_entropy w) \<and> all_good w'"
  using fill_all_good [of "w_entropy w" n] set_drop_subset [of n "w_entropy w"]
  by (auto simp: randRead_def all_good_def list_all_iff split: prod.splits)

lemma secureRandInt_all_good:
  "all_good w \<Longrightarrow> secureRandInt n w = (r, w') \<Longrightarrow>
     all_good w' \<and> length (w_entropy w) \<le> length (w_entropy w') + 1"
  by (auto simp: secureRandInt_def all_good_def split: if_splits list.splits)

lemma pad_with_all_good:
  assumes "all_good w" and "pad_with p d w = Return (b, w')" and "nat p \<le> length (w_entropy w)"
  shows "all_good w' \<and> length (w_entropy w) \<le> length (w_entropy w') + nat p"
  using assms randRead_all_good [of w "nat p"]
  by (cases "go_make (i64 (2 + int (length d) + p))")
    (auto simp: pad_with_def Let_def split: if_splits prod.splits)

lemma range_draw:
  assumes "pad_range mn mx" and "0 \<le> rnd" "rnd \<le> max 0 (mx - mn)"
  shows "nat (i64 (mn + rnd)) \<le> nat (max mn mx)"
proof -
  have "i64 (mn + rnd) = mn + rnd"
    using assms by (intro i64_small) (auto simp: pad_range_def)
  with assms show ?thesis by (auto simp: pad_range_def)
qed

lemma addPadding_all_good:
  assumes "obfs_good c" and "all_good w" and "addPadding d c w = Return (b, w')"
    and "nat (max (ob_MinPadding c) (ob_MaxPadding c)) + 1 \<le> length (w_entropy w)"
  shows "all_good w' \<and>
    length (w_entropy w) \<le> length (w_entropy w') + nat (max (ob_MinPadding c) (ob_MaxPadding c)) + 1"
proof -
  let ?d = "ob_MaxPadding c - ob_MinPadding c"
  obtain rnd w1 where rnd: "(if i64 ?d > 0 then secureRandInt (i64 ?d) w else (0, w)) = (rnd, w1)"
    by (metis prod.collapse)
  have rng: "pad_range (ob_MinPadding c) (ob_MaxPadding c)"
    using assms(1) by (simp add: obfs_good_def)
  then have "i64 ?d = ?d" by (intro i64_small) (auto simp: pad_range_def)
  then have "0 \<le> rnd" "rnd \<le> max 0 ?d"
    using rnd secureRandInt_nonneg secureRandInt_less [of ?d w rnd w1] by (auto split: if_splits)
  from range_draw [OF rng this] have le: "nat (i64 (ob_MinPadding c + rnd)) \<le>
      nat (max (ob_MinPadding c) (ob_MaxPadding c))" .
  have w1: "all_good w1 \<and> length (w_entropy w) \<le> length (w_entropy w1) + 1"
    using rnd assms(2) secureRandInt_all_good [of w "i64 ?d" rnd w1] by (auto split: if_splits)
  have "pad_with (i64 (ob_MinPadding c + rnd)) d w1 = Return (b, w')"
    using assms(3) rnd by (simp add: addPadding_def Let_def)
  from pad_with_all_good [OF _ this] w1 le assms(4) show ?thesis by auto
qed

lemma addStealthPadding_all_good:
  assumes "stealth_good c" and "all_good w" and "addStealthPadding d c w = Return (b, w')"
    and "nat (max (st_MinPadding c) (st_MaxPadding c)) + 1 \<le> length (w_entropy w)"
  shows "all_good w' \<and>
    length (w_entropy w) \<le> length (w_entropy w') + nat (max (st_MinPadding c) (st_MaxPadding c)) + 1"
proof -
  let ?d = "st_MaxPadding c - st_MinPadding c"
  obtain rnd w1 where rnd: "secureRandInt (i64 (?d + 1)) w = (rnd, w1)"
    by (metis prod.collapse)
  have rng: "pad_range (st_MinPadding c) (st_MaxPadding c)"
    using assms(1) by (simp add: stealth_good_def)
  then have "i64 (?d + 1) = ?d + 1" by (intro i64_small) (auto simp: pad_range_def)
  then have "0 \<le> rnd" "rnd \<le> max 0 ?d"
    using rnd secureRandInt_nonneg secureRandInt_less [of "?d + 1" w rnd w1]
    by (cases "0 < ?d + 1"; auto)+
  from range_draw [OF rng this] have le: "nat (i64 (st_MinPadding c + rnd)) \<le>
      nat (max (st_MinPadding c) (st_MaxPadding c))" .
  have w1: "all_good w1 \<and> length (w_entropy w) \<le> length (w_entropy w1) + 1"
    using secureRandInt_all_good [OF assms(2) rnd] .
  have "pad_with (i64 (st_MinPadding c + rnd)) d w1 = Return (b, w')"
    using assms(3) rnd by (simp add: addStealthPadding_def)
  from pad_with_all_good [OF _ this] w1 le assms(4) show ?thesis by auto
qed

lemma payload_all_good:
  assumes "enc_good c" and "all_good w" and "packet_payload c d w = Return (p, w')"
    and "entropy_need c \<le> length (w_entropy w)"
  shows "all_good w' \<and> 12 \<le> length (w_entropy w')"
proof (cases "obfs_on c")
  case (Some ob)
  with assms addPadding_all_good [of ob w d p w'] show ?thesis
    by (auto simp: enc_good_def packet_payload_def entropy_need_def)
next
  case no: None
  show ?thesis
  proof (cases "stealth_on c")
    case (Some s)
    with no assms addStealthPadding_all_good [of s w d p w'] show ?thesis
      by (auto simp: enc_good_def packet_payload_def entropy_need_def split: if_splits)
  next
    case None
    with no assms show ?thesis by (auto simp: packet_payload_def entropy_need_def)
  qed
qed

text \<open>
  With settings in range, data of a supported size, a connection that accepts writes and a
  random source that has the bytes, \<open>writePacket\<close> reports all of the data written and no error,
  and what it added to the wire is packets that decode to the data.
\<close>

theorem writePacket_succeeds:
  assumes "enc_good c" and "pkt_fits c d" and "write_ok (ec_conn c)"
    and "all_good w" and "entropy_need c \<le> length (w_entropy w)"
  shows "\<exists>c' w'. writePacket c d w = Return ((length d, None), c', w') \<and> delivers c c' d"
proof -
  obtain p w1 where p: "packet_payload c d w = Return (p, w1)"
    using payload_ok [OF assms(1,2)] by blast
  have w1: "all_good w1" "12 \<le> length (w_entropy w1)"
    using payload_all_good [OF assms(1,4) p assms(5)] by auto
  have "\<exists>buf w2. seal_packet c p w1 = (Inr buf, w2)"
  proof (cases "ec_gcm c")
    case None
    then show ?thesis by (simp add: seal_packet_def)
  next
    case (Some g)
    then have "aead_NonceSize g = 12" using assms(1) by (simp add: enc_good_def aead_ok_def)
    moreover obtain nonce ok w2 where "randRead 12 w1 = ((nonce, ok), w2)" by (metis prod.collapse)
    ultimately show ?thesis
      using Some randRead_all_good [OF w1, of nonce ok w2] by (simp add: seal_packet_def)
  qed
  then obtain buf w2 where s: "seal_packet c p w1 = (Inr buf, w2)" by blast
  obtain cn where "conn_write (ec_conn c) buf = ((length buf, None), cn)"
    using conn_write_ok [OF assms(3), of buf] by blast
  with p s have "\<exists>c' w'. writePacket c d w = Return ((length d, None), c', w')"
    by (simp add: writePacket_def Let_def)
  with writePacket_delivers [OF assms(1,2), of w] show ?thesis by fastforce
qed

theorem writePacket_succeeds_witness:
  "\<exists>c' w'. writePacket (demo_conn (Some demo_aead) (Some (demo_obfs 2 5)) None) [9, 8] (demo_world 18) =
     Return ((2, None), c', w') \<and>
     delivers (demo_conn (Some demo_aead) (Some (demo_obfs 2 5)) None) c' [9, 8]"
proof -
  let ?c = "demo_conn (Some demo_aead) (Some (demo_obfs 2 5)) None"
  have "enc_good ?c" "pkt_fits ?c [9, 8]" "write_ok (ec_conn ?c)"
      "all_good (demo_world 18)" "entropy_need ?c \<le> length (w_entropy (demo_world 18))"
    by (simp_all add: pkt_fits_def write_ok_def new_conn_def all_good_def entropy_need_def
        list_all_iff demo_world_def)
  from writePacket_succeeds [OF this] show ?thesis by (simp add: numeral_2_eq_2)
qed

section \<open>Where the 16-bit length field goes wrong\<close>

text \<open>Padding is applied to this data.\<close>

definition padded :: "encConn \<Rightarrow> bytes \<Rightarrow> bool" where
  "padded c d \<longleftrightarrow> obfs_on c \<noteq> None \<or> stealth_on c \<noteq> None \<and> 4 < length d"

lemma padded_payload:
  assumes "enc_good c" and "padded c d" and "length d \<le> 8388000"
  shows "\<exists>r w1. packet_payload c d w = Return (put16 (word_of_nat (length d)) @ d @ r, w1) \<and>
    length r \<le> 8388608"
proof (cases "obfs_on c")
  case (Some ob)
  with assms(1) have g: "obfs_good ob" "max (ob_MinPadding ob) (ob_MaxPadding ob) \<le> 8388608"
    by (auto simp: enc_good_def)
  have "length d < 2 ^ 40" using assms(3) by simp
  from addPadding_layout [OF g(1) this, of w] g(2) Some show ?thesis
    by (auto simp: packet_payload_def)
next
  case None
  with assms(2) obtain s where s: "stealth_on c = Some s" "4 < length d"
    by (auto simp: padded_def)
  with assms(1) None have g: "stealth_good s" "max (st_MinPadding s) (st_MaxPadding s) \<le> 8388608"
    by (auto simp: enc_good_def)
  have "length d < 2 ^ 40" using assms(3) by simp
  from addStealthPadding_layout [OF g(1) this, of w] g(2) s None show ?thesis
    by (auto simp: packet_payload_def)
qed

lemma unpad_any:
  assumes "padded c d" and "length d mod 65536 \<noteq> 0"
  shows "unpad c (put16 (word_of_nat (length d)) @ d @ r) =
    (if length d mod 65536 < 65534 then Return (Inr (take (length d mod 65536) d)) else Panic SliceBounds)"
proof -
  let ?p = "put16 (word_of_nat (length d)) @ d @ r"
  have le: "length d mod 65536 \<le> length d" by (rule mod_less_eq_dividend)
  then have s: "data_slice (word_of_nat (length d)) ?p =
      (if length d mod 65536 < 65534 then Return (Some (take (length d mod 65536) d)) else Panic SliceBounds)"
    using data_slice_any [of "length d" _ "d @ r"] by simp
  have h: "be16 ?p = word_of_nat (length d)" by (rule be16_put16)
  have nz: "(word_of_nat (length d) :: 16 word) \<noteq> 0"
    using assms(2) unat_word16 [of "length d"] by (metis unat_0)
  have "removePadding ?p = data_slice (word_of_nat (length d)) ?p"
       "removeStealthPadding ?p = data_slice (word_of_nat (length d)) ?p"
    using h nz order_trans [OF le, of "length d + length r"]
    by (simp_all add: removePadding_def removeStealthPadding_def Let_def unat_word16)
  with s assms(1) show ?thesis
    by (auto simp: unpad_def padded_def split: option.split)
qed

lemma padded_exchange:
  assumes "enc_good c" and "tx (ec_conn c) = []" and "padded c d" and "length d \<le> 8388000"
    and "length d mod 65536 \<noteq> 0" and "writePacket c d w = Return ((n, None), c', w')"
  shows "\<exists>cn. ec_Read (peer_of c') k =
    (if length d mod 65536 < 65534
     then Return ((take k (take (length d mod 65536) d), None),
       (peer_of c')\<lparr>ec_conn := cn, ec_readBuf := drop k (take (length d mod 65536) d)\<rparr>)
     else Panic SliceBounds) \<and> rx cn = []"
proof -
  obtain r w1 where p: "packet_payload c d w = Return (put16 (word_of_nat (length d)) @ d @ r, w1)"
      "length r \<le> 8388608"
    using padded_payload [OF assms(1,3,4)] by blast
  then have "length (put16 (word_of_nat (length d)) @ d @ r) \<le> 16777188"
      "put16 (word_of_nat (length d)) @ d @ r \<noteq> []"
    using assms(4) by (simp_all add: put16_def)
  from write_then_read [OF assms(1,2) p(1) this assms(6), of k]
  show ?thesis unfolding unpad_any [OF assms(3,5)] by (auto split: if_splits)
qed

lemma demo_writes:
  assumes "padded (demo_conn None (Some (demo_obfs mn mx)) s) d" and "length d \<le> 8388000"
    and "0 \<le> mn" "mn \<le> 8388608" "0 \<le> mx" "mx \<le> 8388608"
  shows "\<exists>c' w'. writePacket (demo_conn None (Some (demo_obfs mn mx)) s) d w = Return ((length d, None), c', w')"
  using padded_payload [OF _ assms(1,2), of w] assms(3-)
  by (auto simp: writePacket_def seal_packet_def conn_write_def new_conn_def Let_def)

text \<open>
  C36. A padded packet whose data is 65534 or 65535 bytes long (modulo 65536) is written without an
  error, and makes the reader panic: \<open>2+origLen\<close> in \<open>data[2 : 2+origLen]\<close> wraps in
  \<open>uint16\<close> and the slice ends before it starts.
\<close>

theorem oversized_packet_panics_reader:
  assumes "enc_good c" and "tx (ec_conn c) = []" and "padded c d" and "length d \<le> 8388000"
    and "65534 \<le> length d mod 65536" and "writePacket c d w = Return ((n, None), c', w')"
  shows "ec_Read (peer_of c') k = Panic SliceBounds"
  using padded_exchange [OF assms(1-4) _ assms(6), of k] assms(5) by auto

theorem oversized_packet_panics_reader_witness:
  "\<exists>c' w'. writePacket (demo_conn None (Some (demo_obfs 3 3)) None) (replicate 65534 0) (demo_world 9) =
      Return ((65534, None), c', w') \<and> ec_Read (peer_of c') 4096 = Panic SliceBounds"
proof -
  let ?c = "demo_conn None (Some (demo_obfs 3 3)) None" and ?d = "replicate 65534 (0 :: byte)"
  have p: "padded ?c ?d" "length ?d \<le> 8388000" by (simp_all add: padded_def)
  then obtain c' w' where w: "writePacket ?c ?d (demo_world 9) = Return ((length ?d, None), c', w')"
    using demo_writes [of 3 3 None ?d "demo_world 9"] by auto
  have "ec_Read (peer_of c') 4096 = Panic SliceBounds"
    by (rule oversized_packet_panics_reader [OF _ _ p _ w]) (simp_all add: new_conn_def)
  with w show ?thesis by (simp add: length_replicate)
qed

text \<open>
  Padded data of 65536 bytes or more is cut to its length modulo 65536 on the way: the writer
  reports all of it written, the reader gives out only the first \<open>length d mod 65536\<close> bytes, and
  nothing of the rest is left to read.
\<close>

theorem oversized_packet_truncated:
  assumes "enc_good c" and "tx (ec_conn c) = []" and "padded c d" and "length d \<le> 8388000"
    and "65536 < length d" and "length d mod 65536 \<noteq> 0" and "length d mod 65536 < 65534"
    and "writePacket c d w = Return ((n, None), c', w')" and "length d \<le> k"
  shows "\<exists>r. ec_Read (peer_of c') k = Return ((take (length d mod 65536) d, None), r) \<and>
    rx (ec_conn r) = [] \<and> ec_readBuf r = [] \<and> n = length d"
  using padded_exchange [OF assms(1-4,6,8), of k] assms(7,9) writePacket_len [OF assms(8)] by auto

theorem oversized_packet_truncated_witness:
  "\<exists>c' w' r. writePacket (demo_conn None (Some (demo_obfs 3 3)) None) (replicate 65543 1) (demo_world 9) =
      Return ((65543, None), c', w') \<and>
    ec_Read (peer_of c') 65543 = Return ((replicate 7 1, None), r) \<and> ec_readBuf r = []"
proof -
  let ?c = "demo_conn None (Some (demo_obfs 3 3)) None" and ?d = "replicate 65543 (1 :: byte)"
  have p: "padded ?c ?d" "length ?d \<le> 8388000" by (simp_all add: padded_def)
  then obtain c' w' where w: "writePacket ?c ?d (demo_world 9) = Return ((length ?d, None), c', w')"
    using demo_writes [of 3 3 None ?d "demo_world 9"] by auto
  have "\<exists>r. ec_Read (peer_of c') 65543 = Return ((take (length ?d mod 65536) ?d, None), r) \<and>
      rx (ec_conn r) = [] \<and> ec_readBuf r = [] \<and> length ?d = length ?d"
    by (rule oversized_packet_truncated [OF _ _ p _ _ _ w]) (simp_all add: new_conn_def)
  moreover have "take (length ?d mod 65536) ?d = replicate 7 1" by (simp only: length_replicate take_replicate) simp
  ultimately show ?thesis using w by (simp only: length_replicate) blast
qed

section \<open>Stealth padding and short writes\<close>

text \<open>
  With stealth padding and no obfuscation, data of at most four bytes is sent without padding
  but read as if it had some: when its first two bytes name a length that fits, the reader drops
  them and all behind that length.
\<close>

theorem short_stealth_packet_misread:
  assumes "enc_good c" and "tx (ec_conn c) = []"
    and "obfs_on c = None" and "stealth_on c = Some s"
    and "2 \<le> length d" and "length d \<le> 4"
    and "m = unat (be16 d)" and "0 < m" and "m + 2 \<le> length d"
    and "writePacket c d w = Return ((n, None), c', w')" and "length d \<le> k"
  shows "\<exists>r. ec_Read (peer_of c') k = Return ((take m (drop 2 d), None), r) \<and>
    take m (drop 2 d) \<noteq> d"
proof -
  have p: "packet_payload c d w = Return (d, w)"
    using assms(3,4,6) by (simp add: packet_payload_def)
  have m: "m < 65534" "be16 d = word_of_nat m"
    using assms(6,9) by (simp_all add: assms(7))
  have "be16 d \<noteq> 0" using assms(7,8) by (metis neq0_conv unat_0)
  moreover have "data_slice (be16 d) d = Return (Some (take m (drop 2 d)))"
    unfolding data_slice_def m(2) unat_two_plus [OF m(1)] by (simp add: Let_def)
  ultimately have "unpad c d = Return (Inr (take m (drop 2 d)))"
    using assms(3-5,7,9) by (simp add: unpad_def removeStealthPadding_def Let_def)
  moreover have "length d \<le> 16777188" "d \<noteq> []" using assms(5,6) by auto
  moreover have "length (take m (drop 2 d)) < length d" using assms(5) by simp
  then have "take m (drop 2 d) \<noteq> d" by (metis less_irrefl)
  moreover have "take k (take m (drop 2 d)) = take m (drop 2 d)"
    using assms(9,11) by simp
  ultimately show ?thesis
    using write_then_read [OF assms(1,2) p _ _ assms(10), of k] assms(9,11) by (auto simp: min_def)
qed

theorem short_stealth_packet_misread_witness:
  "\<exists>c' w' r. writePacket (demo_conn None None (Some (demo_stealth True False 4096))) [0, 1, 65] (demo_world 0) =
      Return ((3, None), c', w') \<and>
    ec_Read (peer_of c') 3 = Return (([65], None), r)"
proof -
  let ?c = "demo_conn None None (Some (demo_stealth True False 4096))"
  obtain c' w' where w: "writePacket ?c [0, 1, 65] (demo_world 0) = Return ((3, None), c', w')"
    by (simp add: writePacket_def packet_payload_def seal_packet_def conn_write_def new_conn_def)
  have g: "enc_good ?c" by (simp add: enc_good_def stealth_good_def pad_range_def)
  have "be16 [0, 1, 65] = 1" by (simp add: be16_def get16_def)
  then have m: "1 = unat (be16 [0, 1, 65])" by simp
  have "\<exists>r. ec_Read (peer_of c') 3 = Return ((take 1 (drop 2 [0, 1, 65]), None), r) \<and>
      take 1 (drop 2 [0, 1, 65]) \<noteq> ([0, 1, 65] :: bytes)"
    by (rule short_stealth_packet_misread [OF g _ _ _ _ _ m _ _ w]) (simp_all add: new_conn_def)
  with w show ?thesis by auto
qed

lemma writePacket_delivers_payload:
  assumes "enc_good c" and "packet_payload c d w = Return (p, w1)" and "length p \<le> 16777188" "p \<noteq> []"
    and "unpad c p = Return (Inr e)" and "writePacket c d w = Return ((n, None), c', w')"
  shows "delivers c c' e"
proof -
  obtain r w2 where s: "seal_packet c p w1 = (r, w2)" by (metis prod.collapse)
  with assms(2,6) obtain buf where r: "r = Inr buf" by (cases r) (auto simp: writePacket_def)
  obtain pkt where k: "buf = frame pkt" "0 < length pkt" "length pkt \<le> 16777216"
      "decode_packet c pkt = Return (Inr e)"
    using seal_ok [OF assms(1,3) _ s [unfolded r]] assms(4,5) by auto
  obtain m x cn where w: "conn_write (ec_conn c) buf = ((m, x), cn)" by (metis prod.collapse)
  with assms(2,6) s r have "x = None" "c' = c\<lparr>ec_conn := cn\<rparr>"
    by (auto simp: writePacket_def Let_def split: option.splits)
  with w conn_write_None [of "ec_conn c" buf m cn] k decode_wire_frame [of pkt "decode_packet c" e "[]"]
  show ?thesis by (simp add: delivers_def)
qed

lemma burst_draw_small: "m \<le> 2048 \<Longrightarrow> 0 < m \<Longrightarrow> fst (secureRandInt (i64 (m - 2048 + 1)) w) = 0"
proof -
  assume m: "m \<le> 2048" "0 < m"
  then have "i64 (m - 2048 + 1) = m - 2048 + 1" by (intro i64_small) auto
  with m show ?thesis
    using secureRandInt_fst_le [of "m - 2048 + 1" w] secureRandInt_fst_nonneg [of "m - 2048 + 1" w]
    by (cases "m = 2048") (simp_all del: secureRandInt_fst_nonneg)
qed

text \<open>
  C35. Burst splitting makes packets out of long writes that are too short for padding: with stealth padding and a
  \<open>MaxBurstSize\<close> of at most 2048, writing 2051 bytes whose last three are \<open>0, 1, x\<close> succeeds,
  and the other side reads 2049 bytes: \<open>0, 1\<close> are lost from the stream.
\<close>

theorem burst_write_loses_bytes:
  assumes g: "enc_good c" and t: "tx (ec_conn c) = []" and o: "obfs_on c = None"
    and s: "ec_stealth c = Some s" "st_RandomPadding s" "st_BurstSplit s"
      "0 < st_MaxBurstSize s" "st_MaxBurstSize s \<le> 2048"
    and p: "length p = 2048" and wr: "ec_Write c (p @ [0, 1, x]) w = Return ((n, None), c', w')"
    and k: "0 < k"
  shows "n = 2051 \<and> (\<exists>N r. read_all ec_Read (peer_of c') (replicate N k) =
    Return ((p @ [x], Some EOF), r))"
proof -
  let ?m = "st_MaxBurstSize s" and ?d = "p @ [0, 1, x]"
  have on: "stealth_on c = Some s" using s by (simp add: stealth_on_def)
  have loop: "burst_loop c ?d 0 ?m w = Return ((n, None), c', w')"
    using wr s p by (simp add: ec_Write_def burstWrite_def)
  have z: "secureRandInt (i64 (?m - 2048 + 1)) v = (0, snd (secureRandInt (i64 (?m - 2048 + 1)) v))" for v
    using burst_draw_small [OF s(5,4), of v] by (metis prod.collapse)
  obtain w1 where r1: "secureRandInt (i64 (?m - 2048 + 1)) w = (0, w1)" using z by blast
  from loop obtain n1 c1 w2 where p1: "writePacket c p w1 = Return ((n1, None), c1, w2)"
      and rest: "burst_loop c1 [0, 1, x] n1 ?m w2 = Return ((n, None), c', w')"
    using p r1 by (subst (asm) burst_loop.simps) (auto simp: Let_def split: outcome.splits option.splits)
  obtain w3 where r2: "secureRandInt (i64 (?m - 2048 + 1)) w2 = (0, w3)" using z by blast
  from rest obtain n2 w4 where p2: "writePacket c1 [0, 1, x] w3 = Return ((n2, None), c', w4)"
      and n: "n = n1 + n2"
    using r2 by (subst (asm) burst_loop.simps)
      (auto simp: Let_def burst_loop.simps [of _ "[]"] split: outcome.splits option.splits)
  have d1: "delivers c c1 p"
    using writePacket_delivers [OF g, of p w1] p1 p o on by (simp add: pkt_fits_def)
  note st = delivers_settings [OF d1]
  have "be16 [0, 1, x] = 1" by (simp add: be16_def get16_def)
  then have "unpad c1 [0, 1, x] = Return (Inr [x])"
    using st o on by (simp add: unpad_def removeStealthPadding_def data_slice_def)
  moreover have "packet_payload c1 [0, 1, x] w3 = Return ([0, 1, x], w3)"
    using st o on by (simp add: packet_payload_def)
  ultimately have "delivers c1 c' [x]"
    using writePacket_delivers_payload [of c1 "[0, 1, x]" w3 "[0, 1, x]" w3 "[x]"] p2
      delivers_cong(1) [OF d1] g by simp
  with delivers_trans [OF d1] have d: "delivers c c' (p @ [x])" by blast
  have "enc_pending (peer_of c') = Some (p @ [x])"
  proof -
    have "decode_packet (peer_of c') = decode_packet c"
      using delivers_settings [OF d] by (intro decode_packet_cong) (simp add: same_settings_def peer_of_def)
    with d t show ?thesis by (auto simp: delivers_def enc_pending_def peer_of_def new_conn_def)
  qed
  from enc_source.read_all_complete [OF this k]
  show ?thesis using n writePacket_len [OF p1] writePacket_len [OF p2] p by simp
qed

theorem burst_write_loses_bytes_witness:
  "\<exists>c' w' N r. ec_Write (demo_conn None None (Some (demo_stealth True True 2048)))
       (replicate 2048 5 @ [0, 1, 6]) (demo_world 0) = Return ((2051, None), c', w') \<and>
     read_all ec_Read (peer_of c') (replicate N 512) = Return ((replicate 2048 5 @ [6], Some EOF), r)"
proof -
  let ?c = "demo_conn None None (Some (demo_stealth True True 2048))"
    and ?p = "replicate 2048 (5 :: byte)"
  have g: "enc_good ?c" by (simp add: enc_good_def stealth_good_def pad_range_def)
  obtain r w1 where "packet_payload ?c ?p (demo_world 0) = Return (put16 (word_of_nat (length ?p)) @ ?p @ r, w1)"
    using padded_payload [OF g, of ?p "demo_world 0"] by (auto simp: padded_def)
  then obtain cn w2 where "writePacket ?c ?p (demo_world 0) = Return ((2048, None), ?c\<lparr>ec_conn := cn\<rparr>, w2)"
      and cn: "werrs cn = []"
    by (auto simp: writePacket_def seal_packet_def conn_write_def new_conn_def Let_def)
  moreover obtain c' where "\<And>v. writePacket (?c\<lparr>ec_conn := cn\<rparr>) [0, 1, 6] v = Return ((3, None), c', v)"
    using cn by (simp add: writePacket_def packet_payload_def seal_packet_def conn_write_def Let_def)
  moreover have "secureRandInt 1 (demo_world 0) = (0, demo_world 0)"
    by (simp add: secureRandInt_def demo_world_def)
  moreover have "secureRandInt 1 w2 = (0, snd (secureRandInt 1 w2))"
    using burst_draw_small [of 2048 w2] by (simp add: i64_def prod_eq_iff)
  ultimately have "ec_Write ?c (?p @ [0, 1, 6]) (demo_world 0) =
      Return ((2051, None), c', snd (secureRandInt 1 w2))"
    by (simp add: ec_Write_def burstWrite_def burst_loop.simps i64_def Let_def split: prod.split)
  with burst_write_loses_bytes [OF g _ _ _ _ _ _ _ _ this, where k = 512] show ?thesis
    by (auto simp: new_conn_def)
qed

text \<open>
  \<open>MaxBurstSize\<close> does not bound the pieces when it is below 2048: data longer than it and up
  to 2048 bytes long is written as one packet, as if burst splitting were off.
\<close>

theorem small_burst_size_no_split:
  assumes "ec_stealth c = Some s" and "st_BurstSplit s" and "0 < st_MaxBurstSize s"
    and "st_MaxBurstSize s < int (length d)" and "length d \<le> 2048"
  shows "ec_Write c d w = writePacket c d w"
proof -
  let ?m = "st_MaxBurstSize s"
  have le: "?m < 2048" using assms(4,5) by linarith
  then have "i64 (?m - 2048 + 1) = ?m - 2048 + 1" using assms(3) by (intro i64_small) auto
  with le have r: "secureRandInt (i64 (?m - 2048 + 1)) w = (0, w)" by simp
  have ne: "d \<noteq> []" using assms(3,4) by auto
  have "ec_Write c d w = burst_loop c d 0 ?m w"
    using assms(1-4) by (simp add: ec_Write_def burstWrite_def)
  also have "\<dots> = writePacket c d w"
    using ne r assms(5)
    by (subst burst_loop.simps)
      (auto simp: Let_def min_def burst_loop.simps [of _ "[]"] split: outcome.split option.split prod.split)
  finally show ?thesis .
qed

theorem small_burst_size_no_split_witness:
  "ec_Write (demo_conn None None (Some (demo_stealth False True 1024))) (replicate 2000 7) (demo_world 0) =
   writePacket (demo_conn None None (Some (demo_stealth False True 1024))) (replicate 2000 7) (demo_world 0)"
  by (rule small_burst_size_no_split [of _ "demo_stealth False True 1024"]) simp_all

end
