(* ===== verification/Psk.thy ===== *)
theory Psk
  imports EncConn
begin

text \<open>
  crypto.go: sealing one message under a pre-shared key. The hash and the cipher constructors are
  those of \<open>cryptolib\<close>, the argument \<open>NewEncryptedConn\<close> takes too; an empty key turns
  encryption off on both sides.
\<close>

definition deriveKey :: "'b cryptolib \<Rightarrow> string \<Rightarrow> bytes" where
  "deriveKey lib psk = sha256 lib (bytes_of psk)"

definition pskCipher :: "'b cryptolib \<Rightarrow> string \<Rightarrow> gerror + aead" where
  "pskCipher lib psk =
     (case newCipher lib (deriveKey lib psk) of
       Inl e \<Rightarrow> Inl e
     | Inr block \<Rightarrow> (case newGCM lib block of Inl e \<Rightarrow> Inl e | Inr gcm \<Rightarrow> Inr gcm))"

definition EncryptPSK :: "'b cryptolib \<Rightarrow> bytes \<Rightarrow> string \<Rightarrow> world \<Rightarrow> (gerror + bytes) \<times> world" where
  "EncryptPSK lib plain psk w =
     (if psk = [] then (Inr plain, w)
      else case pskCipher lib psk of
        Inl e \<Rightarrow> (Inl e, w)
      | Inr gcm \<Rightarrow>
          (case randRead (aead_NonceSize gcm) w of ((nonce, ok), w) \<Rightarrow>
             if \<not> ok then (Inl (Errorf ''rand''), w)
             else (Inr (nonce @ aead_Seal gcm nonce plain), w)))"

definition DecryptPSK :: "'b cryptolib \<Rightarrow> bytes \<Rightarrow> string \<Rightarrow> gerror + bytes" where
  "DecryptPSK lib data psk =
     (if psk = [] then Inr data
      else case pskCipher lib psk of
        Inl e \<Rightarrow> Inl e
      | Inr gcm \<Rightarrow>
          let ns = aead_NonceSize gcm
          in if length data < ns then Inl (Errorf ''ciphertext too short'')
             else (case aead_Open gcm (take ns data) (drop ns data) of
                 None \<Rightarrow> Inl (Errorf ''cipher: message authentication failed'')
               | Some plain \<Rightarrow> Inr plain))"

text \<open>A library whose ciphers keep the contract of \<open>aead_ok\<close>.\<close>

definition lib_ok :: "'b cryptolib \<Rightarrow> bool" where
  "lib_ok lib \<longleftrightarrow> (\<forall>b g. newGCM lib b = Inr g \<longrightarrow> aead_ok g)"

lemma pskCipher_ok: "lib_ok lib \<Longrightarrow> pskCipher lib psk = Inr g \<Longrightarrow> aead_ok g"
  by (auto simp: pskCipher_def lib_ok_def split: sum.splits)

lemma EncryptPSK_Inr:
  assumes "lib_ok lib" and "psk \<noteq> []" and "EncryptPSK lib plain psk w = (Inr out, w')"
  obtains g nonce where "pskCipher lib psk = Inr g" "aead_ok g" "length nonce = 12"
    "out = nonce @ aead_Seal g nonce plain"
proof -
  obtain g where g: "pskCipher lib psk = Inr g"
    using assms(2,3) by (auto simp: EncryptPSK_def split: sum.splits)
  with assms(1) have ok: "aead_ok g" by (rule pskCipher_ok)
  obtain nonce b w1 where r: "randRead (aead_NonceSize g) w = ((nonce, b), w1)"
    by (metis prod.collapse)
  have "length nonce = 12" using length_randRead [OF r] ok by (simp add: aead_ok_def)
  moreover have "out = nonce @ aead_Seal g nonce plain"
    using assms(2,3) g r by (auto simp: EncryptPSK_def split: if_splits)
  ultimately show thesis using that g ok by blast
qed

text \<open>A cryptolib for the witnesses: its tag is the key's first byte sixteen times, the text is left open.\<close>

definition demo_lib :: "bytes cryptolib" where
  "demo_lib = \<lparr>sha256 = (\<lambda>b. replicate 32 (if b = [] then 0 else hd b)), newCipher = Inr,
     newGCM = (\<lambda>k. Inr \<lparr>aead_NonceSize = 12, aead_Seal = (\<lambda>nonce p. replicate 16 (hd k) @ p),
        aead_Open = (\<lambda>nonce b. if take 16 b = replicate 16 (hd k) then Some (drop 16 b) else None)\<rparr>)\<rparr>"

lemma lib_ok_demo: "lib_ok demo_lib"
  by (auto simp: lib_ok_def demo_lib_def aead_ok_def)

text \<open>
  C29. Decrypting with the key of the encryption gives the plaintext back; with a non-empty key the
  message is 28 bytes longer than the plaintext (nonce and tag), and one cut to fewer than 12 bytes
  is refused.
\<close>

theorem psk_roundtrip:
  assumes "lib_ok lib" and "EncryptPSK lib plain psk w = (Inr out, w')"
  shows "DecryptPSK lib out psk = Inr plain \<and>
    length out = length plain + (if psk = [] then 0 else 28) \<and>
    (psk \<noteq> [] \<longrightarrow> (\<forall>k<12. DecryptPSK lib (take k out) psk = Inl (Errorf ''ciphertext too short'')))"
proof (cases "psk = []")
  case True
  with assms(2) show ?thesis by (simp add: EncryptPSK_def DecryptPSK_def)
next
  case False
  from EncryptPSK_Inr [OF assms(1) False assms(2)]
  obtain g nonce where "pskCipher lib psk = Inr g" "aead_ok g" "length nonce = 12"
    "out = nonce @ aead_Seal g nonce plain" .
  with False show ?thesis by (auto simp: DecryptPSK_def aead_ok_def Let_def)
qed

theorem psk_roundtrip_witness:
  "\<exists>out w'. EncryptPSK demo_lib [1, 2] ''k'' \<lparr>w_entropy = replicate 12 (Some 3), w_sleeps = []\<rparr> = (Inr out, w') \<and>
     DecryptPSK demo_lib out ''k'' = Inr [1, 2] \<and> length out = 30"
proof -
  obtain out w' where e: "EncryptPSK demo_lib [1, 2] ''k''
      \<lparr>w_entropy = replicate 12 (Some 3), w_sleeps = []\<rparr> = (Inr out, w')"
    by (simp add: EncryptPSK_def pskCipher_def demo_lib_def deriveKey_def randRead_def eval_nat_numeral)
  from psk_roundtrip [OF lib_ok_demo this] e show ?thesis by auto
qed

text \<open>
  C30. The message format of the two files is the same one: a packet a connection with key \<open>psk\<close>
  seals is \<open>EncryptPSK\<close> of its payload behind the length field, and \<open>DecryptPSK\<close> opens
  exactly the packets the connection's reader decrypts, to the same plaintext.
\<close>

theorem psk_packet_equivalence:
  assumes "NewEncryptedConn lib cn psk obfs st = Inr c"
  shows "(case EncryptPSK lib p psk w of
      (Inr m, v) \<Rightarrow> seal_packet c p w = (Inr (frame m), v)
    | (Inl e, v) \<Rightarrow> \<exists>e'. seal_packet c p w = (Inl e', v)) \<and>
    (case DecryptPSK lib m psk of
      Inr d \<Rightarrow> decrypt c m = Inr d
    | Inl e \<Rightarrow> \<exists>e'. decrypt c m = Inl e')"
proof (cases "psk = []")
  case True
  with assms have "ec_gcm c = None" by (auto simp: NewEncryptedConn_def Let_def)
  with True show ?thesis
    by (simp add: EncryptPSK_def DecryptPSK_def seal_packet_def decrypt_def)
next
  case False
  with assms obtain g where g: "pskCipher lib psk = Inr g" "ec_gcm c = Some g"
    by (auto simp: NewEncryptedConn_def pskCipher_def deriveKey_def Let_def split: sum.splits)
  with False show ?thesis
    by (auto simp: EncryptPSK_def DecryptPSK_def seal_packet_def decrypt_def Let_def
        split: prod.split option.split if_splits)
qed

theorem psk_packet_equivalence_witness:
  "\<exists>c. NewEncryptedConn demo_lib (new_conn []) ''k'' None [] = Inr c \<and>
     (case DecryptPSK demo_lib (replicate 3 0) ''k'' of
       Inr d \<Rightarrow> decrypt c (replicate 3 0) = Inr d
     | Inl e \<Rightarrow> \<exists>e'. decrypt c (replicate 3 0) = Inl e')"
proof -
  obtain c where c: "NewEncryptedConn demo_lib (new_conn []) ''k'' None [] = Inr c"
    by (simp add: NewEncryptedConn_def demo_lib_def)
  from psk_packet_equivalence [OF this] c show ?thesis by blast
qed

end
