(* ===== verification/GoStrings.thy ===== *)
theory GoStrings
  imports Prelude
begin

text \<open>
  The functions of Go's packages strings and net (host and port) the program calls, on byte
  strings: a Go string is a sequence of bytes and an Isabelle \<open>char\<close> is one byte.
  \<open>ToLower\<close> and \<open>TrimSpace\<close> are those of ASCII text; bytes above 127 are left alone.
\<close>

section \<open>Package strings\<close>

definition HasPrefix :: "string \<Rightarrow> string \<Rightarrow> bool" where
  "HasPrefix s p \<longleftrightarrow> take (length p) s = p"

definition HasSuffix :: "string \<Rightarrow> string \<Rightarrow> bool" where
  "HasSuffix s p \<longleftrightarrow> length p \<le> length s \<and> drop (length s - length p) s = p"

definition TrimPrefix :: "string \<Rightarrow> string \<Rightarrow> string" where
  "TrimPrefix s p = (if HasPrefix s p then drop (length p) s else s)"

fun strIndex :: "string \<Rightarrow> string \<Rightarrow> nat option" where
  "strIndex [] p = (if p = [] then Some 0 else None)"
| "strIndex (c # s) p = (if HasPrefix (c # s) p then Some 0 else map_option Suc (strIndex s p))"

definition Contains :: "string \<Rightarrow> string \<Rightarrow> bool" where
  "Contains s p \<longleftrightarrow> strIndex s p \<noteq> None"

lemma HasPrefix_iff: "HasPrefix s p \<longleftrightarrow> (\<exists>t. s = p @ t)"
  unfolding HasPrefix_def by (metis append_eq_conv_conj append_take_drop_id)

lemma strIndex_bound: "strIndex s p = Some i \<Longrightarrow> i + length p \<le> length s"
proof (induction s arbitrary: i)
  case Nil
  then show ?case by (simp split: if_splits)
next
  case (Cons c s)
  show ?case
  proof (cases "HasPrefix (c # s) p")
    case True
    then have "length p \<le> length (c # s)"
      unfolding HasPrefix_def by (metis length_take min.cobounded1)
    with True Cons.prems show ?thesis by simp
  next
    case False
    with Cons show ?thesis by auto
  qed
qed

lemma strIndex_at: "strIndex s p = Some i \<Longrightarrow> take (length p) (drop i s) = p"
  by (induction s arbitrary: i) (auto simp: HasPrefix_def split: if_splits)

text \<open>\<open>strings.Split\<close> with a non-empty separator, \<open>strings.SplitN(s, sep, 2)\<close> and
  \<open>strings.ReplaceAll\<close>.\<close>

function strSplit :: "string \<Rightarrow> string \<Rightarrow> string list" where
  "strSplit s sep =
     (case strIndex s sep of
       None \<Rightarrow> [s]
     | Some m \<Rightarrow>
         if sep = [] then [s]
         else take m s # strSplit (drop (m + length sep) s) sep)"
  by pat_completeness auto
termination
proof (relation "measure (\<lambda>(s, sep). length s)", simp)
  fix s sep m
  assume "strIndex s sep = Some m" "(sep :: string) \<noteq> []"
  then have "m + length sep \<le> length s" "0 < length sep"
    using strIndex_bound by auto
  then have "length s - (m + length sep) < length s"
    by linarith
  then show "((drop (m + length sep) s, sep), s, sep) \<in> measure (\<lambda>(s, sep). length s)"
    by simp
qed

declare strSplit.simps [simp del]

definition strSplitN2 :: "string \<Rightarrow> string \<Rightarrow> string list" where
  "strSplitN2 s sep =
     (case strIndex s sep of None \<Rightarrow> [s] | Some m \<Rightarrow> [take m s, drop (m + length sep) s])"

fun joinWith :: "string \<Rightarrow> string list \<Rightarrow> string" where
  "joinWith sep [] = []"
| "joinWith sep [s] = s"
| "joinWith sep (s # t # ss) = s @ sep @ joinWith sep (t # ss)"

definition strReplaceAll :: "string \<Rightarrow> string \<Rightarrow> string \<Rightarrow> string" where
  "strReplaceAll s old new = joinWith new (strSplit s old)"

lemma strSplit_ne [simp]: "strSplit s sep \<noteq> []"
  by (subst strSplit.simps) (auto split: option.splits)

lemma joinWith_Cons: "ss \<noteq> [] \<Longrightarrow> joinWith sep (s # ss) = s @ sep @ joinWith sep ss"
  by (cases ss) simp_all

lemma joinWith_strSplit: "joinWith sep (strSplit s sep) = s"
proof (induction s sep rule: strSplit.induct)
  case (1 s sep)
  show ?case
  proof (cases "strIndex s sep")
    case None
    then show ?thesis by (simp add: strSplit.simps [of s])
  next
    case (Some m)
    show ?thesis
    proof (cases "sep = []")
      case True
      with Some show ?thesis by (simp add: strSplit.simps [of s])
    next
      case False
      have "drop m s = sep @ drop (m + length sep) s"
        using strIndex_at [OF Some] by (metis add.commute append_take_drop_id drop_drop)
      with Some False "1.IH" [OF Some False] show ?thesis
        by (simp add: strSplit.simps [of s] joinWith_Cons) (metis append_take_drop_id)
    qed
  qed
qed

definition is_space :: "char \<Rightarrow> bool" where
  "is_space c \<longleftrightarrow> c \<in> {CHR '' '', CHR 0x09, CHR 0x0A, CHR 0x0B, CHR 0x0C, CHR 0x0D}"

definition TrimSpace :: "string \<Rightarrow> string" where
  "TrimSpace s = rev (dropWhile is_space (rev (dropWhile is_space s)))"

definition lower :: "char \<Rightarrow> char" where
  "lower c = (if 65 \<le> (of_char c :: nat) \<and> (of_char c :: nat) \<le> 90 then char_of (of_char c + 32 :: nat) else c)"

definition ToLower :: "string \<Rightarrow> string" where
  "ToLower s = map lower s"

lemma dropWhile_head: "dropWhile P xs = [] \<or> \<not> P (hd (dropWhile P xs))"
  using hd_dropWhile [of P xs] by blast

lemma dropWhile_idle: "xs = [] \<or> \<not> P (hd xs) \<Longrightarrow> dropWhile P xs = xs"
  by (cases xs) simp_all

lemma TrimSpace_ends:
  "TrimSpace s \<noteq> [] \<Longrightarrow> \<not> is_space (hd (TrimSpace s)) \<and> \<not> is_space (last (TrimSpace s))"
proof -
  let ?a = "dropWhile is_space s"
  let ?b = "dropWhile is_space (rev ?a)"
  assume "TrimSpace s \<noteq> []"
  then have ne: "?b \<noteq> []" by (simp add: TrimSpace_def)
  then have l: "\<not> is_space (hd ?b)" using dropWhile_head [of is_space "rev ?a"] by blast
  have "rev ?a = takeWhile is_space (rev ?a) @ ?b" by simp
  then have "?a = rev ?b @ rev (takeWhile is_space (rev ?a))"
    by (metis rev_append rev_rev_ident)
  then have "hd ?a = hd (rev ?b)" using ne by (metis hd_append2 rev_is_Nil_conv)
  moreover have "?a \<noteq> []"
    using ne by (metis dropWhile.simps(1) rev.simps(1))
  then have "\<not> is_space (hd ?a)" using dropWhile_head [of is_space s] by blast
  ultimately show ?thesis
    using l ne by (simp add: TrimSpace_def last_rev)
qed

lemma TrimSpace_idem [simp]: "TrimSpace (TrimSpace s) = TrimSpace s"
proof (cases "TrimSpace s = []")
  case True
  then show ?thesis by (simp only: True) (simp add: TrimSpace_def)
next
  case False
  with TrimSpace_ends [OF False] show ?thesis
    by (subst TrimSpace_def) (simp add: dropWhile_idle hd_rev)
qed

lemma lower_idem [simp]: "lower (lower c) = lower c"
proof (cases "65 \<le> (of_char c :: nat) \<and> (of_char c :: nat) \<le> 90")
  case True
  then have "(of_char (char_of (of_char c + 32 :: nat)) :: nat) = of_char c + 32"
    by (simp add: of_char_of)
  with True show ?thesis by (simp add: lower_def)
next
  case False
  then show ?thesis by (auto simp: lower_def)
qed

lemma ToLower_idem [simp]: "ToLower (ToLower s) = ToLower s"
  by (simp add: ToLower_def)

section \<open>net.SplitHostPort and net.JoinHostPort\<close>

definition lastIndexByte :: "string \<Rightarrow> char \<Rightarrow> nat option" where
  "lastIndexByte s c =
     (case strIndex (rev s) [c] of None \<Rightarrow> None | Some i \<Rightarrow> Some (length s - Suc i))"

definition indexByte :: "string \<Rightarrow> char \<Rightarrow> nat option" where
  "indexByte s c = strIndex s [c]"

definition SplitHostPort :: "string \<Rightarrow> gerror + string \<times> string" where
  "SplitHostPort hp =
     (case lastIndexByte hp (CHR '':'') of
       None \<Rightarrow> Inl (Errorf ''missing port in address'')
     | Some i \<Rightarrow>
         let check = (\<lambda>host j k.
           if indexByte (drop j hp) (CHR ''['') \<noteq> None
             then Inl (Errorf ''unexpected '[' in address'')
           else if indexByte (drop k hp) (CHR '']'') \<noteq> None
             then Inl (Errorf ''unexpected ']' in address'')
           else Inr (host, drop (i + 1) hp))
         in if take 1 hp = ''['' then
              (case indexByte hp (CHR '']'') of
                None \<Rightarrow> Inl (Errorf ''missing ']' in address'')
              | Some e \<Rightarrow>
                  if e + 1 = length hp then Inl (Errorf ''missing port in address'')
                  else if e + 1 = i then check (take (e - 1) (drop 1 hp)) 1 (e + 1)
                  else if hp ! (e + 1) = CHR '':'' then Inl (Errorf ''too many colons in address'')
                  else Inl (Errorf ''missing port in address''))
            else if indexByte (take i hp) (CHR '':'') \<noteq> None
              then Inl (Errorf ''too many colons in address'')
            else check (take i hp) 0 0)"

definition JoinHostPort :: "string \<Rightarrow> string \<Rightarrow> string" where
  "JoinHostPort host port =
     (if indexByte host (CHR '':'') \<noteq> None then ''['' @ host @ '']:'' @ port
      else host @ '':'' @ port)"

lemma indexByte_None [simp]: "indexByte s c = None \<longleftrightarrow> c \<notin> set s"
  by (induction s) (auto simp: indexByte_def HasPrefix_def)

lemma strIndex_single: "strIndex (xs @ c # ys) [c] = Some (length xs) \<longleftrightarrow> c \<notin> set xs"
  by (induction xs) (auto simp: HasPrefix_def)

lemma lastIndexByte_last: "c \<notin> set ys \<Longrightarrow> lastIndexByte (xs @ c # ys) c = Some (length xs)"
  using strIndex_single [of "rev ys" c "rev xs"] by (simp add: lastIndexByte_def)

lemma indexByte_first: "c \<notin> set xs \<Longrightarrow> indexByte (xs @ c # ys) c = Some (length xs)"
  by (simp add: indexByte_def strIndex_single)

lemma indexByte_bound: "indexByte s c = Some i \<Longrightarrow> i < length s"
  using strIndex_bound [of s "[c]" i] by (simp add: indexByte_def)

text \<open>Joining a host and a port free of brackets and splitting again gives them back.\<close>

lemma SplitHostPort_JoinHostPort:
  assumes "CHR ''['' \<notin> set h" "CHR '']'' \<notin> set h"
    and "CHR ''['' \<notin> set p" "CHR '']'' \<notin> set p" "CHR '':'' \<notin> set p"
  shows "SplitHostPort (JoinHostPort h p) = Inr (h, p)"
proof (cases "CHR '':'' \<in> set h")
  case True
  have i: "lastIndexByte (''['' @ h @ '']:'' @ p) (CHR '':'') = Some (length h + 2)"
    using lastIndexByte_last [OF assms(5), of "''['' @ h @ '']''"] by simp
  have e: "indexByte (''['' @ h @ '']:'' @ p) (CHR '']'') = Some (length h + 1)"
    using indexByte_first [of "CHR '']''" "''['' @ h" "CHR '':'' # p"] assms(2) by simp
  have n: "indexByte (h @ '']:'' @ p) (CHR ''['') = None" "indexByte (CHR '':'' # p) (CHR '']'') = None"
    using assms by simp_all
  show ?thesis
    using True i e n by (simp add: JoinHostPort_def SplitHostPort_def)
next
  case False
  have i: "lastIndexByte (h @ '':'' @ p) (CHR '':'') = Some (length h)"
    using lastIndexByte_last [OF assms(5), of h] by simp
  have "take 1 (h @ '':'' @ p) \<noteq> ''[''"
    using assms(1) by (cases h) auto
  with False i assms show ?thesis
    by (simp add: JoinHostPort_def SplitHostPort_def)
qed

end
