(* ===== verification/Fragment.thy ===== *)
theory Fragment
  imports Conn ConfigTypes GoStrings
begin

text \<open>
  tls_fragment.go, tls_fragment_linux.go and tls_fragment_other.go: a connection whose first large
  write is cut in two, the choice of the cut and the pause, the raw socket dial with its system
  calls as a trace, and the random cipher suite list. Name resolution and the results of the system
  calls are the operating system's: fields of \<open>osnet\<close>, an argument of the dialling functions.
\<close>

section \<open>Sockets and what is dialled\<close>

text \<open>A TCP socket: the byte stream and the options the program sets on it.\<close>

record sock =
  so_conn :: conn
  so_nodelay :: bool
  so_keepalive :: bool
  so_period :: int
  so_rbuf :: "int option"
  so_wbuf :: "int option"

definition new_sock :: "conn \<Rightarrow> sock" where
  "new_sock c = \<lparr>so_conn = c, so_nodelay = True, so_keepalive = True, so_period = 15 * second,
     so_rbuf = None, so_wbuf = None\<rparr>"

record FragmentedConn =
  fc_Conn :: sock
  fc_fragmentSize :: int
  fc_delay :: int
  fc_firstWrite :: bool

text \<open>
  The dynamic type of a \<open>net.Conn\<close>: a socket, a fragmenting wrapper, or a TLS connection with its
  server name and the stream of application data the TLS library makes of it.
\<close>

datatype netconn =
    TCPConn sock
  | Fragmented FragmentedConn
  | UConn string conn

section \<open>FragmentedConn.Write\<close>

definition fc_inner :: "FragmentedConn \<Rightarrow> bytes \<Rightarrow> iores \<times> FragmentedConn" where
  "fc_inner c b =
     (case conn_write (so_conn (fc_Conn c)) b of
       (r, cn) \<Rightarrow> (r, c\<lparr>fc_Conn := (fc_Conn c)\<lparr>so_conn := cn\<rparr>\<rparr>))"

definition fc_Write :: "FragmentedConn writer" where
  "fc_Write c b w =
     (if fc_firstWrite c \<or> int (length b) \<le> fc_fragmentSize c then
        (case fc_inner (c\<lparr>fc_firstWrite := True\<rparr>) b of (r, c) \<Rightarrow> Return (r, c, w))
      else if fc_fragmentSize c < 0 then Panic SliceBounds
      else
        let c = c\<lparr>fc_firstWrite := True\<rparr>;
            frag1 = take (nat (fc_fragmentSize c)) b;
            frag2 = drop (nat (fc_fragmentSize c)) b
        in case fc_inner c frag1 of
             ((n1, Some e), c) \<Rightarrow> Return ((n1, Some e), c, w)
           | ((n1, None), c) \<Rightarrow>
               (case secureRandInt 2 w of (r, w) \<Rightarrow>
                 let w = sleep (i64 (fc_delay c + r * millisecond)) w
                 in case fc_inner c frag2 of
                      ((n2, e), c) \<Rightarrow> Return ((n1 + n2, e), c, w)))"

definition fc_sent :: "FragmentedConn \<Rightarrow> bytes" where
  "fc_sent c = tx (so_conn (fc_Conn c))"

definition fc_segs :: "FragmentedConn \<Rightarrow> bytes list" where
  "fc_segs c = segs (so_conn (fc_Conn c))"

definition same_cut :: "FragmentedConn \<Rightarrow> FragmentedConn \<Rightarrow> bool" where
  "same_cut c c' \<longleftrightarrow> fc_fragmentSize c' = fc_fragmentSize c \<and> fc_delay c' = fc_delay c"

lemma conn_write_segs: "conn_write c b = ((n, None), c') \<Longrightarrow> n = length b \<and> segs c' = segs c @ [b]"
  by (auto simp: conn_write_def split: list.splits option.splits)

lemma fc_inner_None:
  assumes "fc_inner c b = ((n, None), c')"
  shows "n = length b \<and> fc_segs c' = fc_segs c @ [b] \<and> fc_firstWrite c' = fc_firstWrite c \<and> same_cut c c'"
  using assms conn_write_segs [of "so_conn (fc_Conn c)" b n]
  by (auto simp: fc_inner_def fc_segs_def same_cut_def split: prod.splits)

lemma fc_sent_segs: "fc_sent c = concat (fc_segs c)"
  by (simp add: fc_sent_def fc_segs_def tx_def)

text \<open>The segments one write makes, and the pauses it takes.\<close>

definition cut :: "FragmentedConn \<Rightarrow> bytes \<Rightarrow> bytes list" where
  "cut c b =
     (if fc_firstWrite c \<or> int (length b) \<le> fc_fragmentSize c then [b]
      else [take (nat (fc_fragmentSize c)) b, drop (nat (fc_fragmentSize c)) b])"

lemma concat_cut [simp]: "concat (cut c b) = b"
  by (simp add: cut_def)

lemma fc_Write_spec:
  assumes "0 \<le> fc_fragmentSize c"
  shows "\<exists>n e c' w'. fc_Write c b w = Return ((n, e), c', w') \<and>
    (e = None \<longrightarrow> n = length b \<and> fc_segs c' = fc_segs c @ cut c b \<and> fc_firstWrite c' \<and> same_cut c c' \<and>
      w_sleeps w' = w_sleeps w @
        (if length (cut c b) = 1 then []
         else [i64 (fc_delay c + fst (secureRandInt 2 w) * millisecond)]))"
proof (cases "fc_firstWrite c \<or> int (length b) \<le> fc_fragmentSize c")
  case True
  obtain n e c1 where i: "fc_inner (c\<lparr>fc_firstWrite := True\<rparr>) b = ((n, e), c1)"
    by (metis prod.collapse)
  with True fc_inner_None [of "c\<lparr>fc_firstWrite := True\<rparr>" b n c1] show ?thesis
    by (cases e) (auto simp: fc_Write_def cut_def fc_segs_def same_cut_def)
next
  case False
  let ?c = "c\<lparr>fc_firstWrite := True\<rparr>" and ?k = "nat (fc_fragmentSize c)"
  obtain n1 e1 c1 where i1: "fc_inner ?c (take ?k b) = ((n1, e1), c1)" by (metis prod.collapse)
  show ?thesis
  proof (cases e1)
    case (Some e)
    with False assms i1 show ?thesis by (auto simp: fc_Write_def Let_def)
  next
    case None
    note f1 = fc_inner_None [OF i1 [unfolded None]]
    obtain n2 e2 c2 where i2: "fc_inner c1 (drop ?k b) = ((n2, e2), c2)" by (metis prod.collapse)
    obtain r w1 where r: "secureRandInt 2 w = (r, w1)" by (metis prod.collapse)
    have eq: "fc_Write c b w = Return ((n1 + n2, e2), c2, sleep (i64 (fc_delay c1 + r * millisecond)) w1)"
      using False assms i1 i2 None r by (auto simp: fc_Write_def Let_def)
    show ?thesis
    proof (cases e2)
      case None
      with fc_inner_None [OF i2 [unfolded None]] f1 eq r False secureRandInt_sleeps [OF r]
      show ?thesis by (auto simp: cut_def fc_segs_def same_cut_def sleep_def)
    next
      case Some
      with eq show ?thesis by auto
    qed
  qed
qed

interpretation frag_sink: byte_sink fc_Write fc_sent "\<lambda>c. 0 \<le> fc_fragmentSize c" "\<lambda>_ _. True"
proof
  fix s :: FragmentedConn and d :: bytes and w :: world
  assume "0 \<le> fc_fragmentSize s"
  from fc_Write_spec [OF this, of d w] this
  show "\<exists>n e s' w'. fc_Write s d w = Return ((n, e), s', w') \<and>
      (e = None \<longrightarrow> n = length d \<and> 0 \<le> fc_fragmentSize s' \<and> fc_sent s' = fc_sent s @ d \<and>
        (\<lambda>_. True) = (\<lambda>_. True))"
    by (fastforce simp: fc_sent_segs same_cut_def)
qed

lemma fc_Write_later:
  assumes "0 \<le> fc_fragmentSize c" and "fc_firstWrite c"
    and "write_all fc_Write c ds w = Return (None, c', w')"
  shows "fc_segs c' = fc_segs c @ ds \<and> w_sleeps w' = w_sleeps w"
  using assms
proof (induction ds arbitrary: c w)
  case Nil
  then show ?case by simp
next
  case (Cons d ds)
  obtain n e c1 w1 where w: "fc_Write c d w = Return ((n, e), c1, w1)"
      "e = None \<longrightarrow> fc_segs c1 = fc_segs c @ cut c d \<and> fc_firstWrite c1 \<and> same_cut c c1 \<and>
        w_sleeps w1 = w_sleeps w @ (if length (cut c d) = 1 then []
         else [i64 (fc_delay c + fst (secureRandInt 2 w) * millisecond)])"
    using fc_Write_spec [OF Cons.prems(1), of d w] by blast
  have "e = None" using w(1) Cons.prems(3) by (cases e) auto
  moreover have "cut c d = [d]" using Cons.prems(2) by (simp add: cut_def)
  ultimately show ?case
    using w Cons.prems Cons.IH [of c1 w1] by (auto simp: same_cut_def)
qed

text \<open>
  C38. Whatever is written, a fragmenting connection cuts only its first write, and only when that
  is longer than the fragment size: then into two segments at that size with one pause of the
  configured delay plus at most a millisecond between them. All other writes go out whole and
  without a pause, and together the segments are the data.
\<close>

theorem fragments_first_write_only:
  assumes "0 \<le> fc_fragmentSize c" and "\<not> fc_firstWrite c"
    and "write_all fc_Write c (d # ds) w = Return (None, c', w')"
  shows "fc_segs c' = fc_segs c @ cut c d @ ds \<and> fc_sent c' = fc_sent c @ concat (d # ds) \<and>
    (if int (length d) \<le> fc_fragmentSize c then cut c d = [d] \<and> w_sleeps w' = w_sleeps w
     else cut c d = [take (nat (fc_fragmentSize c)) d, drop (nat (fc_fragmentSize c)) d] \<and>
       (\<exists>r. 0 \<le> r \<and> r \<le> 1 \<and> w_sleeps w' = w_sleeps w @ [i64 (fc_delay c + r * millisecond)]))"
proof -
  obtain n e c1 w1 where w: "fc_Write c d w = Return ((n, e), c1, w1)"
      "e = None \<longrightarrow> fc_segs c1 = fc_segs c @ cut c d \<and> fc_firstWrite c1 \<and> same_cut c c1 \<and>
        w_sleeps w1 = w_sleeps w @ (if length (cut c d) = 1 then []
         else [i64 (fc_delay c + fst (secureRandInt 2 w) * millisecond)])"
    using fc_Write_spec [OF assms(1), of d w] by blast
  have e: "e = None" using w(1) assms(3) by (cases e) auto
  then have rest: "write_all fc_Write c1 ds w1 = Return (None, c', w')" using w(1) assms(3) by simp
  have l: "fc_segs c' = fc_segs c1 @ ds \<and> w_sleeps w' = w_sleeps w1"
    using w(2) e assms(1) by (intro fc_Write_later [OF _ _ rest]) (auto simp: same_cut_def)
  have "fst (secureRandInt 2 w) \<le> 1" using secureRandInt_fst_le [of 2 w] by simp
  with w(2) e l assms(2) show ?thesis
    by (auto simp: cut_def fc_sent_segs intro!: exI [of _ "fst (secureRandInt 2 w)"])
qed

theorem fragments_first_write_only_witness:
  "\<exists>c' w'. write_all fc_Write \<lparr>fc_Conn = new_sock (new_conn []), fc_fragmentSize = 2, fc_delay = 5,
       fc_firstWrite = False\<rparr> [[1, 2, 3], [4, 5, 6]] \<lparr>w_entropy = [Some 1], w_sleeps = []\<rparr> =
     Return (None, c', w') \<and> fc_segs c' = [[1, 2], [3], [4, 5, 6]]"
proof -
  let ?c = "\<lparr>fc_Conn = new_sock (new_conn []), fc_fragmentSize = 2, fc_delay = 5, fc_firstWrite = False\<rparr>"
  obtain c' w' where w: "write_all fc_Write ?c [[1, 2, 3], [4, 5, 6]]
      \<lparr>w_entropy = [Some 1], w_sleeps = []\<rparr> = Return (None, c', w')"
    by (simp add: fc_Write_def fc_inner_def conn_write_def new_sock_def new_conn_def Let_def
        secureRandInt_def eval_nat_numeral)
  have "fc_segs c' = fc_segs ?c @ cut ?c [1, 2, 3] @ [[4, 5, 6]]"
    using fragments_first_write_only [OF _ _ w] by simp
  then have "fc_segs c' = [[1, 2], [3], [4, 5, 6]]"
    by (simp add: fc_segs_def new_sock_def new_conn_def cut_def eval_nat_numeral)
  with w show ?thesis by blast
qed

end
