(* ===== verification/Dial.thy ===== *)
theory Dial
  imports Fragment "HOL-Library.Multiset"
begin

text \<open>
  The dialling half of tls_fragment.go and its Linux and non-Linux \<open>dialRawTCP\<close>: the system
  calls are recorded as a trace, so what happens to each descriptor on every path can be stated;
  and \<open>GetRandomCipherSuites\<close> with its shuffle.
\<close>

section \<open>System calls\<close>

datatype syscall =
    Socket int
  | SetNoDelay int
  | SetNonblock int bool
  | Connect int
  | EpollCreate int
  | EpollCtlAdd int int
  | EpollWait int int
  | GetSoError int
  | CloseFd int
  | NewFile int
  | FileConn int
  | CloseFile int

text \<open>What the system answers: one field per call the code makes.\<close>

record osnet =
  resolveTCP :: "string \<Rightarrow> gerror + nat list option \<times> int"
  sysSocket :: "gerror + int"
  sysConnect :: "int option"
  epollCreate :: "gerror + int"
  epollCtl :: "gerror option"
  epollWait :: "gerror + nat"
  soError :: "gerror + int"
  fileConn :: "gerror + conn"
  dialTCP :: "string \<Rightarrow> gerror + conn"

definition EINPROGRESS :: int where
  "EINPROGRESS = 115"

text \<open>\<open>defer syscall.Close(epfd)\<close> closes the epoll descriptor on every return.\<close>

definition waitConnect :: "osnet \<Rightarrow> int \<Rightarrow> int \<Rightarrow> gerror option \<times> syscall list" where
  "waitConnect os fd timeout =
     (case epollCreate os of
       Inl e \<Rightarrow> (Some (Wrap ''epoll_create'' e), [])
     | Inr epfd \<Rightarrow>
         let ret = (\<lambda>r tr. (r, EpollCreate epfd # EpollCtlAdd epfd fd # tr @ [CloseFd epfd]))
         in case epollCtl os of
              Some e \<Rightarrow> ret (Some (Wrap ''epoll_ctl'' e)) []
            | None \<Rightarrow>
                let ms = timeout div millisecond;
                    ms = (if ms \<le> 0 then 10000 else ms)
                in case epollWait os of
                     Inl e \<Rightarrow> ret (Some (Wrap ''epoll_wait'' e)) [EpollWait epfd ms]
                   | Inr n \<Rightarrow>
                       if n = 0 then ret (Some (Errorf ''connect timed out'')) [EpollWait epfd ms]
                       else case soError os of
                           Inl e \<Rightarrow> ret (Some (Wrap ''getsockopt'' e)) [EpollWait epfd ms, GetSoError fd]
                         | Inr val \<Rightarrow>
                             ret (if val \<noteq> 0 then Some (Wrap ''connect error'' (Errno val)) else None)
                               [EpollWait epfd ms, GetSoError fd])"

definition dialRawTCP_linux :: "osnet \<Rightarrow> string \<Rightarrow> int \<Rightarrow> (gerror + conn) \<times> syscall list" where
  "dialRawTCP_linux os addr timeout =
     (case SplitHostPort addr of
       Inl e \<Rightarrow> (Inl e, [])
     | Inr (host, port) \<Rightarrow>
         (case resolveTCP os (JoinHostPort host port) of
           Inl e \<Rightarrow> (Inl e, [])
         | Inr (None, _) \<Rightarrow> (Inl (Errorf ''ipv6 not supported for raw dial''), [])
         | Inr (Some _, _) \<Rightarrow>
             (case sysSocket os of
               Inl e \<Rightarrow> (Inl (Wrap ''socket'' e), [])
             | Inr fd \<Rightarrow>
                 let tr = [Socket fd, SetNoDelay fd, SetNonblock fd True, Connect fd];
                     finish = (\<lambda>tr.
                       let tr = tr @ [SetNonblock fd False, NewFile fd, FileConn fd, CloseFile fd]
                       in case fileConn os of
                            Inl e \<Rightarrow> (Inl (Wrap ''file conn'' e), tr @ [CloseFd fd])
                          | Inr conn \<Rightarrow> (Inr conn, tr))
                 in case sysConnect os of
                      None \<Rightarrow> finish tr
                    | Some errno \<Rightarrow>
                        if errno = EINPROGRESS then
                          (case waitConnect os fd timeout of
                            (Some e, wtr) \<Rightarrow> (Inl e, tr @ wtr @ [CloseFd fd])
                          | (None, wtr) \<Rightarrow> finish (tr @ wtr))
                        else (Inl (Wrap ''connect'' (Errno errno)), tr @ [CloseFd fd]))))"

definition dialRawTCP_other :: "osnet \<Rightarrow> string \<Rightarrow> int \<Rightarrow> (gerror + conn) \<times> syscall list" where
  "dialRawTCP_other os addr timeout =
     (Inl (Errorf ''raw TCP dial not supported on this platform''), [])"

section \<open>DialFragmented\<close>

definition DefaultFragmentConfig :: FragmentConfig where
  "DefaultFragmentConfig =
     \<lparr>fr_Enabled = True, fr_MinSize = 64, fr_MaxSize = 191, fr_MinDelay = 1, fr_MaxDelay = 3\<rparr>"

text \<open>The cut and the pause (in nanoseconds) drawn for one connection.\<close>

definition fragParams :: "FragmentConfig \<Rightarrow> world \<Rightarrow> (int \<times> int) \<times> world" where
  "fragParams cfg w =
     (let minSize = (if fr_MinSize cfg \<le> 0 then 64 else fr_MinSize cfg);
          maxSize = (if fr_MaxSize cfg \<le> 0 then 191 else fr_MaxSize cfg);
          minDelay = (if fr_MinDelay cfg \<le> 0 then 1 else fr_MinDelay cfg);
          maxDelay = (if fr_MaxDelay cfg \<le> 0 then 3 else fr_MaxDelay cfg);
          diff = i64 (maxSize - minSize);
          delayDiff = i64 (maxDelay - minDelay)
      in case (if diff > 0 then secureRandInt (i64 (diff + 1)) w else (0, w)) of (r, w) \<Rightarrow>
         case (if delayDiff > 0 then secureRandInt (i64 (delayDiff + 1)) w else (0, w)) of (s, w) \<Rightarrow>
           ((i64 (minSize + r), i64 (i64 (minDelay + s) * millisecond)), w))"

definition setTCPNoDelay :: "netconn \<Rightarrow> bool \<Rightarrow> netconn" where
  "setTCPNoDelay c enable = (case c of TCPConn s \<Rightarrow> TCPConn (s\<lparr>so_nodelay := enable\<rparr>) | _ \<Rightarrow> c)"

text \<open>The first argument is the platform's \<open>dialRawTCP\<close>.\<close>

definition DialFragmented ::
    "(osnet \<Rightarrow> string \<Rightarrow> int \<Rightarrow> (gerror + conn) \<times> syscall list) \<Rightarrow> osnet \<Rightarrow> string \<Rightarrow>
     FragmentConfig option \<Rightarrow> int \<Rightarrow> world \<Rightarrow> (gerror + netconn) \<times> syscall list \<times> world" where
  "DialFragmented raw os addr cfg timeout w =
     (let dial = (\<lambda>w tr. case dialTCP os addr of
                     Inl e \<Rightarrow> (Inl e, tr, w) | Inr c \<Rightarrow> (Inr (TCPConn (new_sock c)), tr, w))
      in case cfg of
           None \<Rightarrow> dial w []
         | Some cfg \<Rightarrow>
             if \<not> fr_Enabled cfg then dial w []
             else case fragParams cfg w of ((fragSize, delay), w) \<Rightarrow>
               let wrap = (\<lambda>c. case c of
                     TCPConn s \<Rightarrow> Inr (Fragmented \<lparr>fc_Conn = s, fc_fragmentSize = fragSize,
                       fc_delay = delay, fc_firstWrite = False\<rparr>)
                   | _ \<Rightarrow> Inr c)
               in case raw os addr timeout of
                    (Inr c, tr) \<Rightarrow> (wrap (TCPConn (new_sock c)), tr, w)
                  | (Inl _, tr) \<Rightarrow>
                      (case dial w tr of
                        (Inl e, tr, w) \<Rightarrow> (Inl (Wrap ''dial'' e), tr, w)
                      | (Inr c, tr, w) \<Rightarrow> (wrap (setTCPNoDelay c True), tr, w)))"

definition randomFragmentSize :: "world \<Rightarrow> int \<times> world" where
  "randomFragmentSize w =
     (case randRead 1 w of ((b, _), w) \<Rightarrow> (uint (and (b ! 0) 0x7F) + 64, w))"

section \<open>What becomes of the descriptors\<close>

definition closes :: "int \<Rightarrow> syscall list \<Rightarrow> nat" where
  "closes fd tr = count (mset tr) (CloseFd fd) + count (mset tr) (CloseFile fd)"

lemma closes_simps [simp]:
  "closes fd [] = 0" "closes fd (a @ b) = closes fd a + closes fd b"
  "closes fd (x # a) = (if x = CloseFd fd \<or> x = CloseFile fd then 1 else 0) + closes fd a"
  by (auto simp: closes_def)

lemma waitConnect_closes:
  assumes "epollCreate os \<noteq> Inr fd"
  shows "closes fd (snd (waitConnect os fd t)) = 0"
  using assms
  by (auto simp: waitConnect_def Let_def split: sum.split option.split)

text \<open>
  Waiting for a connection opens at most the one epoll descriptor and closes exactly what it
  opened, on every path; the wait is bounded by the timeout in milliseconds, ten seconds when that
  is not positive.
\<close>

theorem waitConnect_closes_epoll:
  "count (mset (snd (waitConnect os fd t))) (EpollCreate ep) = (if epollCreate os = Inr ep then 1 else 0) \<and>
   closes ep (snd (waitConnect os fd t)) = (if epollCreate os = Inr ep then 1 else 0) \<and>
   (\<forall>x ms. EpollWait x ms \<in> set (snd (waitConnect os fd t)) \<longrightarrow>
      0 < ms \<and> (ms = 10000 \<or> ms * millisecond \<le> t))"
  by (auto simp: waitConnect_def Let_def millisecond_def split: sum.split option.split)

definition demo_os :: "int option \<Rightarrow> gerror + nat \<Rightarrow> gerror + conn \<Rightarrow> osnet" where
  "demo_os cn wt fc = \<lparr>resolveTCP = (\<lambda>_. Inr (Some [10, 0, 0, 1], 80)), sysSocket = Inr 7,
     sysConnect = cn, epollCreate = Inr 8, epollCtl = None, epollWait = wt, soError = Inr 0,
     fileConn = fc, dialTCP = (\<lambda>_. Inr (new_conn []))\<rparr>"

theorem waitConnect_closes_epoll_witness:
  "EpollWait 8 10000 \<in> set (snd (waitConnect (demo_os None (Inr 0) (Inl EOF)) 7 0)) \<and>
   closes 8 (snd (waitConnect (demo_os None (Inr 0) (Inl EOF)) 7 0)) = 1"
  using waitConnect_closes_epoll [of "demo_os None (Inr 0) (Inl EOF)" 7 0 8]
  by (simp add: waitConnect_def demo_os_def Let_def millisecond_def)

lemma dialRaw_shape:
  assumes "sysSocket os = Inr fd" and "epollCreate os \<noteq> Inr fd"
    and "dialRawTCP_linux os addr t = (r, tr)"
  shows "tr = [] \<and> (\<exists>e. r = Inl e) \<or>
    (Socket fd \<in> set tr \<and>
      (if FileConn fd \<in> set tr
       then r = (case fileConn os of Inl e \<Rightarrow> Inl (Wrap ''file conn'' e) | Inr c \<Rightarrow> Inr c) \<and>
         closes fd tr = (case fileConn os of Inl _ \<Rightarrow> 2 | Inr _ \<Rightarrow> 1)
       else (\<exists>e. r = Inl e) \<and> closes fd tr = 1))"
proof -
  have w: "closes fd (snd (waitConnect os fd t)) = 0" "FileConn fd \<notin> set (snd (waitConnect os fd t))"
    using waitConnect_closes [OF assms(2)]
    by (auto simp: waitConnect_def Let_def split: sum.split option.split)
  show ?thesis
    using assms(1,3) w unfolding dialRawTCP_linux_def
    by (cases "waitConnect os fd t") (auto simp: Let_def split: sum.splits option.splits prod.splits if_splits)
qed

text \<open>
  A raw dial that does not fail in \<open>net.FileConn\<close> closes its socket descriptor exactly once
  when it opened it: on an error itself, on success through the file \<open>FileConn\<close> duplicated it from.
\<close>

theorem dialRaw_closes_once:
  assumes "sysSocket os = Inr fd" and "epollCreate os \<noteq> Inr fd"
    and "dialRawTCP_linux os addr t = (r, tr)" and "\<forall>e. r \<noteq> Inl (Wrap ''file conn'' e)"
  shows "closes fd tr = (if Socket fd \<in> set tr then 1 else 0)"
  using dialRaw_shape [OF assms(1-3)] assms(4) by (auto split: if_splits sum.splits)

theorem dialRaw_closes_once_witness:
  "\<exists>r tr. dialRawTCP_linux (demo_os (Some 115) (Inr 0) (Inl EOF)) ''h:1'' 0 = (r, tr) \<and> closes 7 tr = 1"
proof -
  let ?os = "demo_os (Some 115) (Inr 0) (Inl EOF)"
  have a: "SplitHostPort ''h:1'' = Inr (''h'', ''1'')"
    using SplitHostPort_JoinHostPort [of "''h''" "''1''"] by (simp add: JoinHostPort_def)
  obtain r tr where d: "dialRawTCP_linux ?os ''h:1'' 0 = (r, tr)" by (metis prod.collapse)
  moreover from this have "Socket 7 \<in> set tr" "r = Inl (Errorf ''connect timed out'')"
    by (auto simp: dialRawTCP_linux_def a demo_os_def waitConnect_def EINPROGRESS_def Let_def)
  moreover have "sysSocket ?os = Inr 7" "epollCreate ?os \<noteq> Inr 7" by (simp_all add: demo_os_def)
  ultimately show ?thesis using dialRaw_closes_once [of ?os 7 "''h:1''" 0 r tr] by simp
qed

text \<open>
  When \<open>net.FileConn\<close> fails after a connect, the descriptor is closed twice: by
  \<open>f.Close()\<close> and again by number, when it may already belong to another socket.
\<close>

theorem dialRaw_double_close:
  assumes "sysSocket os = Inr fd" and "epollCreate os \<noteq> Inr fd" and "fileConn os = Inl e"
    and "dialRawTCP_linux os addr t = (r, tr)" and "FileConn fd \<in> set tr"
  shows "closes fd tr = 2 \<and> r = Inl (Wrap ''file conn'' e)"
  using dialRaw_shape [OF assms(1,2,4)] assms(3,5) by auto

theorem dialRaw_double_close_witness:
  "\<exists>r tr. dialRawTCP_linux (demo_os None (Inr 0) (Inl (Errno 24))) ''h:1'' 0 = (r, tr) \<and> closes 7 tr = 2"
proof -
  let ?os = "demo_os None (Inr 0) (Inl (Errno 24))"
  have a: "SplitHostPort ''h:1'' = Inr (''h'', ''1'')"
    using SplitHostPort_JoinHostPort [of "''h''" "''1''"] by (simp add: JoinHostPort_def)
  obtain r tr where d: "dialRawTCP_linux ?os ''h:1'' 0 = (r, tr)" by (metis prod.collapse)
  moreover from this have "FileConn 7 \<in> set tr"
    by (auto simp: dialRawTCP_linux_def a demo_os_def Let_def)
  moreover have "sysSocket ?os = Inr 7" "epollCreate ?os \<noteq> Inr 7" "fileConn ?os = Inl (Errno 24)"
    by (simp_all add: demo_os_def)
  ultimately show ?thesis using dialRaw_double_close [of ?os 7 "Errno 24" "''h:1''" 0 r tr] by blast
qed

text \<open>
  The kernel's verdict on the connect: it succeeded at once, or it was in progress, the wait was set
  up, reported an event in time, and the socket had no error pending.
\<close>

definition connected :: "osnet \<Rightarrow> bool" where
  "connected os \<longleftrightarrow> sysConnect os = None \<or> sysConnect os = Some EINPROGRESS \<and> \<not> isl (epollCreate os) \<and>
     epollCtl os = None \<and> (\<exists>n. epollWait os = Inr n \<and> 0 < n) \<and> soError os = Inr 0"

lemma waitConnect_None:
  "fst (waitConnect os fd t) = None \<longleftrightarrow> \<not> isl (epollCreate os) \<and> epollCtl os = None \<and>
     (\<exists>n. epollWait os = Inr n \<and> 0 < n) \<and> soError os = Inr 0"
  by (auto simp: waitConnect_def Let_def split: sum.split option.split)

lemma dialRaw_run:
  assumes "sysSocket os = Inr fd" and "dialRawTCP_linux os addr t = (r, tr)" and "tr \<noteq> []"
  shows "\<exists>wtr e. (wtr = [] \<or> wtr = snd (waitConnect os fd t)) \<and> dialRawTCP_linux os addr t =
    (let tr = [Socket fd, SetNoDelay fd, SetNonblock fd True, Connect fd] @ wtr;
         fin = [SetNonblock fd False, NewFile fd, FileConn fd, CloseFile fd]
     in if connected os
        then case fileConn os of
            Inl x \<Rightarrow> (Inl (Wrap ''file conn'' x), tr @ fin @ [CloseFd fd])
          | Inr c \<Rightarrow> (Inr c, tr @ fin)
        else (Inl e, tr @ [CloseFd fd]))"
proof -
  obtain e wtr where w: "waitConnect os fd t = (e, wtr)" by (metis prod.collapse)
  obtain h q where h: "SplitHostPort addr = Inr (h, q)"
    using assms(2,3) by (auto simp: dialRawTCP_linux_def split: sum.splits)
  obtain ip port where ip: "resolveTCP os (JoinHostPort h q) = Inr (Some ip, port)"
    using assms(2,3) h by (auto simp: dialRawTCP_linux_def split: sum.splits option.splits)
  consider (now) "sysConnect os = None" | (later) "sysConnect os = Some EINPROGRESS"
    | (fails) n where "sysConnect os = Some n" "n \<noteq> EINPROGRESS" by (cases "sysConnect os") auto
  then show ?thesis
  proof cases
    case now
    then have "connected os" by (simp add: connected_def)
    with now assms(1) h ip show ?thesis
      by (intro exI [of _ "[]"]) (simp add: dialRawTCP_linux_def Let_def split: sum.split)
  next
    case later
    then have c: "connected os \<longleftrightarrow> e = None"
      using waitConnect_None [of os fd t] w by (simp add: connected_def)
    show ?thesis
    proof (cases e)
      case None
      with c later assms(1) h ip w show ?thesis
        by (intro exI [of _ wtr]) (simp add: dialRawTCP_linux_def Let_def split: sum.split)
    next
      case (Some x)
      with c later assms(1) h ip w show ?thesis
        by (intro exI [of _ wtr] exI [of _ x]) (simp add: dialRawTCP_linux_def Let_def)
    qed
  next
    case fails
    then have "\<not> connected os" by (simp add: connected_def)
    with fails assms(1) h ip show ?thesis
      by (intro exI [of _ "[]"] exI [of _ "Wrap ''connect'' (Errno n)"]) (simp add: dialRawTCP_linux_def Let_def)
  qed
qed

lemma dialRaw_trace:
  assumes "sysSocket os = Inr fd" and "dialRawTCP_linux os addr t = (r, tr)" and "tr \<noteq> []"
  obtains wtr rest where "wtr = [] \<or> wtr = snd (waitConnect os fd t)"
    "tr = [Socket fd, SetNoDelay fd, SetNonblock fd True, Connect fd] @ wtr @ rest"
    "\<forall>c. r = Inr c \<longleftrightarrow> connected os \<and> fileConn os = Inr c"
    "rest = (if connected os then [SetNonblock fd False, NewFile fd, FileConn fd, CloseFile fd] else []) @
      (if isl r then [CloseFd fd] else [])"
proof -
  from dialRaw_run [OF assms] obtain wtr e where r: "wtr = [] \<or> wtr = snd (waitConnect os fd t)"
    "(r, tr) = (let tr = [Socket fd, SetNoDelay fd, SetNonblock fd True, Connect fd] @ wtr;
         fin = [SetNonblock fd False, NewFile fd, FileConn fd, CloseFile fd]
     in if connected os
        then case fileConn os of
            Inl x \<Rightarrow> (Inl (Wrap ''file conn'' x), tr @ fin @ [CloseFd fd])
          | Inr c \<Rightarrow> (Inr c, tr @ fin)
        else (Inl e, tr @ [CloseFd fd]))"
    unfolding assms(2) by blast
  show thesis
  proof (cases "connected os")
    case False
    with r(2) show thesis by (intro that [OF r(1)]) simp_all
  next
    case True
    with r(2) show thesis by (cases "fileConn os") (auto intro!: that [OF r(1)])
  qed
qed

text \<open>
  C27. A raw dial, once it has a socket: \<open>TCP_NODELAY\<close> is set before it connects; a connection is
  returned exactly when the kernel reports the connect as done, at once or after the wait with no
  pending socket error, and the file gave one; the epoll descriptor is closed exactly when it was
  created; the socket is closed through the file exactly when connected and by \<open>Close\<close> exactly on an
  error, hence twice when \<open>net.FileConn\<close> fails: the number may then belong to another connection.
\<close>

theorem raw_dial_descriptors:
  assumes "sysSocket os = Inr fd" and "epollCreate os \<noteq> Inr fd" and "dialRawTCP_linux os addr t = (r, tr)"
    and "tr \<noteq> []"
  shows "take 4 tr = [Socket fd, SetNoDelay fd, SetNonblock fd True, Connect fd] \<and>
    (\<forall>c. r = Inr c \<longleftrightarrow> connected os \<and> fileConn os = Inr c) \<and>
    (\<forall>ep. epollCreate os = Inr ep \<longrightarrow> closes ep tr = count (mset tr) (EpollCreate ep)) \<and>
    count (mset tr) (CloseFile fd) = (if connected os then 1 else 0) \<and>
    count (mset tr) (CloseFd fd) = (if isl r then 1 else 0)"
proof -
  from dialRaw_trace [OF assms(1,3,4)] obtain wtr rest where t:
    "wtr = [] \<or> wtr = snd (waitConnect os fd t)"
    "tr = [Socket fd, SetNoDelay fd, SetNonblock fd True, Connect fd] @ wtr @ rest"
    "\<forall>c. r = Inr c \<longleftrightarrow> connected os \<and> fileConn os = Inr c"
    "rest = (if connected os then [SetNonblock fd False, NewFile fd, FileConn fd, CloseFile fd] else []) @
      (if isl r then [CloseFd fd] else [])" by blast
  have "closes fd wtr = 0" using t(1) waitConnect_closes [OF assms(2)] by auto
  then have w: "count (mset wtr) (CloseFile fd) = 0" "count (mset wtr) (CloseFd fd) = 0" by (simp_all add: closes_def)
  have e: "closes ep tr = count (mset tr) (EpollCreate ep)" if e: "epollCreate os = Inr ep" for ep
  proof -
    have n: "ep \<noteq> fd" using assms(2) e by auto
    then have "closes ep rest = 0" "count (mset rest) (EpollCreate ep) = 0" by (simp_all add: t(4))
    moreover have "closes ep wtr = count (mset wtr) (EpollCreate ep)"
      using t(1) e by (auto simp: waitConnect_def Let_def split: sum.split option.split)
    ultimately show ?thesis using n by (simp add: t(2))
  qed
  have "count (mset rest) (CloseFile fd) = (if connected os then 1 else 0)"
      "count (mset rest) (CloseFd fd) = (if isl r then 1 else 0)"
    by (simp_all add: t(4))
  with t(3) w e show ?thesis by (simp add: t(2))
qed

theorem raw_dial_descriptors_witness:
  "\<exists>r tr. dialRawTCP_linux (demo_os (Some 115) (Inr 1) (Inl (Errno 24))) ''h:1'' 0 = (r, tr) \<and>
     closes 8 tr = 1 \<and> count (mset tr) (CloseFile 7) = 1 \<and> count (mset tr) (CloseFd 7) = 1"
proof -
  let ?os = "demo_os (Some 115) (Inr 1) (Inl (Errno 24))"
  have a: "SplitHostPort ''h:1'' = Inr (''h'', ''1'')"
    using SplitHostPort_JoinHostPort [of "''h''" "''1''"] by (simp add: JoinHostPort_def)
  obtain r tr where d: "dialRawTCP_linux ?os ''h:1'' 0 = (r, tr)" by (metis prod.collapse)
  then have t: "count (mset tr) (EpollCreate 8) = 1" "tr \<noteq> []" "isl r"
    by (auto simp: dialRawTCP_linux_def a demo_os_def waitConnect_def EINPROGRESS_def Let_def)
  have "sysSocket ?os = Inr 7" "epollCreate ?os \<noteq> Inr 7" "epollCreate ?os = Inr 8" "connected ?os"
    by (simp_all add: demo_os_def connected_def EINPROGRESS_def)
  with raw_dial_descriptors [OF this(1,2) d t(2)] t d show ?thesis by auto
qed

section \<open>The fragment parameters\<close>

lemma draw_between:
  assumes "1 \<le> lo" "lo < 2 ^ 62" "1 \<le> hi" "hi < 2 ^ 62"
    and "(if i64 (hi - lo) > 0 then secureRandInt (i64 (i64 (hi - lo) + 1)) w else (0, w)) = (r, w')"
  shows "lo \<le> lo + r" "lo + r \<le> max lo hi"
proof -
  have a: "i64 (hi - lo) = hi - lo" using assms(1-4) by (intro i64_small) auto
  have b: "i64 (hi - lo + 1) = hi - lo + 1" using assms(1-4) by (intro i64_small) auto
  show "lo \<le> lo + r" "lo + r \<le> max lo hi"
    using assms(5) secureRandInt_nonneg secureRandInt_less unfolding a b
    by (auto split: if_splits) fastforce
qed

text \<open>
  For settings that fit, the cut is between \<open>MinSize\<close> and \<open>MaxSize\<close> (64 and 191 where
  they are not set), or \<open>MinSize\<close> when that is the larger, and never zero; the pause is within
  the configured milliseconds in the same way.
\<close>

theorem fragParams_bounds:
  assumes "fragParams cfg w = ((sz, delay), w')"
    and "fr_MinSize cfg < 2 ^ 62" "fr_MaxSize cfg < 2 ^ 62"
    and "fr_MinDelay cfg \<le> 9000000000000" "fr_MaxDelay cfg \<le> 9000000000000"
  shows "let lo = pos_or (fr_MinSize cfg) 64; hi = pos_or (fr_MaxSize cfg) 191;
             dlo = pos_or (fr_MinDelay cfg) 1; dhi = pos_or (fr_MaxDelay cfg) 3
         in 1 \<le> sz \<and> lo \<le> sz \<and> sz \<le> max lo hi \<and>
            dlo * millisecond \<le> delay \<and> delay \<le> max dlo dhi * millisecond"
proof -
  define lo hi dlo dhi where d: "lo = pos_or (fr_MinSize cfg) 64" "hi = pos_or (fr_MaxSize cfg) 191"
    "dlo = pos_or (fr_MinDelay cfg) 1" "dhi = pos_or (fr_MaxDelay cfg) 3"
  have b: "1 \<le> lo" "lo < 2 ^ 62" "1 \<le> hi" "hi < 2 ^ 62"
    "1 \<le> dlo" "dlo \<le> 9000000000000" "1 \<le> dhi" "dhi \<le> 9000000000000"
    using assms(2-) by (auto simp: d pos_or_def)
  obtain r w1 where r: "(if i64 (hi - lo) > 0 then secureRandInt (i64 (i64 (hi - lo) + 1)) w else (0, w)) = (r, w1)"
    by (metis prod.collapse)
  obtain s w2 where s: "(if i64 (dhi - dlo) > 0 then secureRandInt (i64 (i64 (dhi - dlo) + 1)) w1 else (0, w1)) = (s, w2)"
    by (metis prod.collapse)
  have res: "sz = i64 (lo + r)" "delay = i64 (i64 (dlo + s) * millisecond)"
    using assms(1) r s unfolding fragParams_def d pos_or_def Let_def by auto
  note 1 = draw_between [OF b(1-4) r]
  have "dlo < 2 ^ 62" "dhi < 2 ^ 62" using b by simp_all
  note 2 = draw_between [OF b(5) this(1) b(7) this(2) s]
  have "i64 (lo + r) = lo + r" using 1 b by (intro i64_small) auto
  moreover have e: "i64 (dlo + s) = dlo + s" using 2 b by (intro i64_small) auto
  moreover have "i64 ((dlo + s) * millisecond) = (dlo + s) * millisecond"
    using 2 b by (intro i64_small) (auto simp: millisecond_def)
  ultimately have "1 \<le> sz \<and> lo \<le> sz \<and> sz \<le> max lo hi \<and>
      dlo * millisecond \<le> delay \<and> delay \<le> max dlo dhi * millisecond"
    using res 1 2 b by (auto simp: millisecond_def)
  then show ?thesis by (simp add: d)
qed

theorem fragParams_bounds_witness:
  "\<exists>sz delay w'. fragParams DefaultFragmentConfig \<lparr>w_entropy = [Some 127, Some 1], w_sleeps = []\<rparr> =
     ((sz, delay), w') \<and> 64 \<le> sz \<and> sz \<le> 191 \<and> 1000000 \<le> delay \<and> delay \<le> 3000000"
proof -
  obtain sz delay w' where f: "fragParams DefaultFragmentConfig
      \<lparr>w_entropy = [Some 127, Some 1], w_sleeps = []\<rparr> = ((sz, delay), w')"
    by (metis prod.collapse)
  from fragParams_bounds [OF f] f show ?thesis
    by (simp add: DefaultFragmentConfig_def pos_or_def millisecond_def Let_def)
qed

section \<open>GetRandomCipherSuites\<close>

definition picotunCipherSuites :: "16 word list" where
  "picotunCipherSuites = [0xc02f, 0xc030, 0xcca8, 0xcca9, 0xc02b, 0xc02c]"

text \<open>\<open>for i := len(suites) - 1; i > 0; i--\<close>; the argument is \<open>i\<close>.\<close>

fun shuffle_from :: "nat \<Rightarrow> 'a list \<Rightarrow> world \<Rightarrow> 'a list \<times> world" where
  "shuffle_from 0 suites w = (suites, w)"
| "shuffle_from (Suc i) suites w =
     (case secureRandInt (int (Suc i) + 1) w of (j, w) \<Rightarrow>
        shuffle_from i (suites[Suc i := suites ! nat j, nat j := suites ! Suc i]) w)"

definition GetRandomCipherSuites :: "world \<Rightarrow> 16 word list \<times> world" where
  "GetRandomCipherSuites w =
     (case shuffle_from (length picotunCipherSuites - 1) picotunCipherSuites w of (suites, w) \<Rightarrow>
        case secureRandInt 4 w of (r, w) \<Rightarrow>
          let cnt = r + 3;
              cnt = (if cnt > int (length suites) then int (length suites) else cnt)
          in (take (nat cnt) suites, w))"

lemma mset_exchange:
  "i < length xs \<Longrightarrow> j < length xs \<Longrightarrow> mset (xs[i := xs ! j, j := xs ! i]) = mset xs"
  by (rule mset_swap)

lemma mset_shuffle:
  "i < length xs \<Longrightarrow> mset (fst (shuffle_from i xs w)) = mset xs"
proof (induction i xs w rule: shuffle_from.induct)
  case (1 xs w)
  then show ?case by simp
next
  case (2 i xs w)
  obtain j w1 where j: "secureRandInt (int (Suc i) + 1) w = (j, w1)" by (metis prod.collapse)
  have "nat j \<le> Suc i"
    using secureRandInt_nonneg [OF j] secureRandInt_less [OF j] by simp
  with 2 j show ?case
    by (simp add: mset_exchange)
qed

lemma distinct_prefix:
  assumes "mset xs = mset ys" and "distinct ys"
  shows "distinct (take k xs) \<and> set (take k xs) \<subseteq> set ys"
proof -
  have "distinct xs" using assms by (metis mset_eq_imp_distinct_iff)
  moreover have "set xs = set ys" using assms(1) by (rule mset_eq_setD)
  ultimately show ?thesis using set_take_subset [of k xs] by simp
qed

text \<open>
  The random cipher suite list is always three to six suites of the fixed table, none twice,
  whatever the random source does, and the shuffled list it is cut from is a permutation of it.
\<close>

theorem cipher_suites_distinct:
  "mset (fst (shuffle_from 5 picotunCipherSuites w)) = mset picotunCipherSuites \<and>
   distinct (fst (GetRandomCipherSuites w)) \<and>
   set (fst (GetRandomCipherSuites w)) \<subseteq> set picotunCipherSuites \<and>
   3 \<le> length (fst (GetRandomCipherSuites w)) \<and> length (fst (GetRandomCipherSuites w)) \<le> 6"
proof -
  have l: "length picotunCipherSuites = 6" "distinct picotunCipherSuites"
    by (simp_all add: picotunCipherSuites_def)
  obtain xs w1 where xs: "shuffle_from 5 picotunCipherSuites w = (xs, w1)" by (metis prod.collapse)
  obtain r w2 where r: "secureRandInt 4 w1 = (r, w2)" by (metis prod.collapse)
  have m: "mset xs = mset picotunCipherSuites"
    using mset_shuffle [of 5 picotunCipherSuites w] xs l by simp
  then have "length xs = 6" using l by (metis size_mset)
  moreover have "0 \<le> r" "r < 4" using secureRandInt_nonneg [OF r] secureRandInt_less [OF r] by simp_all
  ultimately have "\<exists>k. fst (GetRandomCipherSuites w) = take k xs \<and> 3 \<le> length (take k xs) \<and> length (take k xs) \<le> 6"
    using xs r l by (auto simp: GetRandomCipherSuites_def Let_def intro!: exI [of _ "nat (r + 3)"])
  then obtain k where k: "fst (GetRandomCipherSuites w) = take k xs" "3 \<le> length (take k xs)"
      "length (take k xs) \<le> 6"
    by blast
  from distinct_prefix [OF m l(2), of k] k m xs show ?thesis by simp
qed

end
