(* ===== verification/ConfigLoad.thy ===== *)
theory ConfigLoad
  imports ConfigTypes GoStrings
begin

text \<open>
  config.go: the defaults, the performance profiles, the aliases of old settings, the conversion of
  port maps and the migration of old files, and \<open>LoadConfig\<close> over a file system. The YAML codec is
  the library's, an argument of the model; so is the conversion of the one floating point setting
  (\<open>burst_milli\<close>, Go's \<open>int(x * 1000)\<close>).
\<close>

section \<open>Defaults\<close>

definition str_or :: "string \<Rightarrow> string \<Rightarrow> string" where
  "str_or s d = (if s = [] then d else s)"

definition normalizePath :: "string \<Rightarrow> string" where
  "normalizePath p =
     (let p = TrimSpace p
      in if p = [] then [] else if \<not> HasPrefix p ''/'' then ''/'' @ p else p)"

definition smux_defaults :: "SmuxConfig \<Rightarrow> SmuxConfig" where
  "smux_defaults s = s\<lparr>sm_KeepAlive := pos_or (sm_KeepAlive s) 2,
     sm_MaxRecv := pos_or (sm_MaxRecv s) 4194304, sm_MaxStream := pos_or (sm_MaxStream s) 4194304,
     sm_FrameSize := pos_or (sm_FrameSize s) 4096, sm_Version := pos_or (sm_Version s) 2\<rparr>"

definition advanced_defaults :: "AdvancedConfig \<Rightarrow> AdvancedConfig" where
  "advanced_defaults a = a\<lparr>
     adv_TCPKeepAlive := pos_or (adv_TCPKeepAlive a) 5,
     adv_TCPReadBuffer := pos_or (adv_TCPReadBuffer a) 4194304,
     adv_TCPWriteBuffer := pos_or (adv_TCPWriteBuffer a) 4194304,
     adv_CleanupInterval := pos_or (adv_CleanupInterval a) 3,
     adv_ConnectionTimeout := pos_or (adv_ConnectionTimeout a) 30,
     adv_StreamTimeout := pos_or (adv_StreamTimeout a) 60,
     adv_MaxConnections := pos_or (adv_MaxConnections a) 500,
     adv_MaxUDPFlows := pos_or (adv_MaxUDPFlows a) 300,
     adv_UDPFlowTimeout := pos_or (adv_UDPFlowTimeout a) 120,
     adv_UDPBufferSize := pos_or (adv_UDPBufferSize a) 524288,
     adv_MaxStreamsPerSession := pos_or (adv_MaxStreamsPerSession a) 512,
     adv_TCPNoDelay := True\<rparr>"

definition mimic_UA :: string where
  "mimic_UA = ''Mozilla/5.0 (Windows NT 10.0; Win64; x64) AppleWebKit/537.36''"

definition httpmimic_defaults :: "HTTPMimicCompat \<Rightarrow> HTTPMimicCompat" where
  "httpmimic_defaults h = h\<lparr>
     hm_FakeDomain := str_or (hm_FakeDomain h) ''www.google.com'',
     hm_FakePath := normalizePath (str_or (hm_FakePath h) ''/search''),
     hm_UserAgent := str_or (hm_UserAgent h) mimic_UA,
     hm_SessionCookie := True\<rparr>"

definition fragment_defaults :: "string \<Rightarrow> FragmentConfig \<Rightarrow> FragmentConfig" where
  "fragment_defaults transport f = f\<lparr>
     fr_MinSize := pos_or (fr_MinSize f) 64, fr_MaxSize := pos_or (fr_MaxSize f) 191,
     fr_MinDelay := pos_or (fr_MinDelay f) 1, fr_MaxDelay := pos_or (fr_MaxDelay f) 3,
     fr_Enabled := fr_Enabled f \<or> transport = ''httpsmux'' \<or> transport = ''wssmux''\<rparr>"

definition stealth_defaults :: "StealthConfig \<Rightarrow> StealthConfig" where
  "stealth_defaults s = s\<lparr>
     st_MinPadding := pos_or (st_MinPadding s) 16, st_MaxPadding := pos_or (st_MaxPadding s) 128,
     st_KeepaliveJitter := pos_or (st_KeepaliveJitter s) 2,
     st_ConnJitterMS := pos_or (st_ConnJitterMS s) 500,
     st_MaxBurstSize := pos_or (st_MaxBurstSize s) 4096,
     st_FakeTrafficInterval := pos_or (st_FakeTrafficInterval s) 30\<rparr>"

text \<open>Multi-port: merge \<open>Listen\<close> into \<open>ListenPorts\<close>.\<close>

definition merge_listen :: "Config \<Rightarrow> Config" where
  "merge_listen c =
     (if Mode c = ''server'' then
        let c = (if ListenPorts c = [] \<and> Listen c \<noteq> [] then c\<lparr>ListenPorts := [Listen c]\<rparr> else c);
            c = (if ListenPorts c = []
                 then c\<lparr>ListenPorts := [''0.0.0.0:2020''], Listen := ''0.0.0.0:2020''\<rparr> else c)
        in if Listen c = [] then c\<lparr>Listen := ListenPorts c ! 0\<rparr> else c
      else c)"

definition applyBaseDefaults :: "Config \<Rightarrow> Config" where
  "applyBaseDefaults c =
     merge_listen (c\<lparr>
       Profile := str_or (Profile c) ''balanced'',
       Heartbeat := pos_or (Heartbeat c) 2,
       SessionTimeout :=
         (if adv_SessionTimeout (Advanced c) > 0 then adv_SessionTimeout (Advanced c)
          else pos_or (SessionTimeout c) 30),
       Smux := smux_defaults (Smux c),
       Advanced := advanced_defaults (Advanced c),
       HTTPMimic := httpmimic_defaults (HTTPMimic c),
       Obfuscation := (Obfuscation c)\<lparr>oc_MinPadding := pos_or (oc_MinPadding (Obfuscation c)) 16,
         oc_MaxPadding := pos_or (oc_MaxPadding (Obfuscation c)) 64\<rparr>,
       NumConnections := pos_or (NumConnections c) 4,
       DecoyInterval := pos_or (DecoyInterval c) 5,
       Fragment := fragment_defaults (ToLower (Transport c)) (Fragment c),
       Stealth := stealth_defaults (Stealth c)\<rparr>)"

section \<open>Profiles\<close>

definition no_delay :: "Config \<Rightarrow> Config" where
  "no_delay c = c\<lparr>Obfuscation := (Obfuscation c)\<lparr>oc_MinDelayMS := 0, oc_MaxDelayMS := 0\<rparr>\<rparr>"

definition no_chunks :: "Config \<Rightarrow> Config" where
  "no_chunks c = c\<lparr>HTTPMimic := (HTTPMimic c)\<lparr>hm_ChunkedEncoding := False\<rparr>\<rparr>"

definition speed_path :: "PathConfig \<Rightarrow> PathConfig" where
  "speed_path p = p\<lparr>
     pa_ConnectionPool := (if pa_ConnectionPool p < 4 then 4 else pa_ConnectionPool p),
     pa_AggressivePool := True,
     pa_RetryInterval := (if pa_RetryInterval p \<le> 0 \<or> pa_RetryInterval p > 2 then 2 else pa_RetryInterval p),
     pa_DialTimeout := pos_or (pa_DialTimeout p) 10\<rparr>"

definition gaming_path :: "PathConfig \<Rightarrow> PathConfig" where
  "gaming_path p = p\<lparr>
     pa_ConnectionPool := (if pa_ConnectionPool p < 6 then 6 else pa_ConnectionPool p),
     pa_AggressivePool := True,
     pa_RetryInterval := (if pa_RetryInterval p \<le> 0 \<or> pa_RetryInterval p > 1 then 1 else pa_RetryInterval p),
     pa_DialTimeout := pos_or (pa_DialTimeout p) 5\<rparr>"

definition streaming_path :: "PathConfig \<Rightarrow> PathConfig" where
  "streaming_path p = p\<lparr>
     pa_ConnectionPool := (if pa_ConnectionPool p < 4 then 4 else pa_ConnectionPool p),
     pa_RetryInterval := pos_or (pa_RetryInterval p) 2,
     pa_DialTimeout := pos_or (pa_DialTimeout p) 10\<rparr>"

definition lowcpu_path :: "PathConfig \<Rightarrow> PathConfig" where
  "lowcpu_path p = p\<lparr>
     pa_ConnectionPool := (if pa_ConnectionPool p \<le> 0 \<or> pa_ConnectionPool p > 2 then 2 else pa_ConnectionPool p),
     pa_RetryInterval := pos_or (pa_RetryInterval p) 5,
     pa_DialTimeout := pos_or (pa_DialTimeout p) 15\<rparr>"

definition balanced_path :: "PathConfig \<Rightarrow> PathConfig" where
  "balanced_path p = p\<lparr>
     pa_ConnectionPool := pos_or (pa_ConnectionPool p) 4,
     pa_RetryInterval := pos_or (pa_RetryInterval p) 3,
     pa_DialTimeout := pos_or (pa_DialTimeout p) 10\<rparr>"

definition applyProfile :: "Config \<Rightarrow> Config" where
  "applyProfile c =
     (let p = ToLower (Profile c)
      in if p = ''speed'' \<or> p = ''aggressive'' then
           (no_chunks (no_delay c))\<lparr>
             Paths := map speed_path (Paths c),
             Stealth := (Stealth c)\<lparr>st_BurstSplit := False\<rparr>,
             Advanced := (Advanced c)\<lparr>adv_MaxConnections :=
               (if adv_MaxConnections (Advanced c) < 1024 then 1024 else adv_MaxConnections (Advanced c))\<rparr>\<rparr>
         else if p = ''gaming'' \<or> p = ''latency'' then
           (no_chunks (no_delay c))\<lparr>
             Smux := (Smux c)\<lparr>sm_KeepAlive := 1\<rparr>,
             Advanced := (Advanced c)\<lparr>adv_TCPKeepAlive := 2\<rparr>,
             Stealth := (Stealth c)\<lparr>st_RandomPadding := False, st_BurstSplit := False\<rparr>,
             Paths := map gaming_path (Paths c)\<rparr>
         else if p = ''streaming'' then
           (no_delay c)\<lparr>
             Smux := (Smux c)\<lparr>sm_MaxRecv := 2097152, sm_MaxStream := 2097152\<rparr>,
             Paths := map streaming_path (Paths c)\<rparr>
         else if p = ''lowcpu'' \<or> p = ''cpu-efficient'' then
           c\<lparr>Smux := (Smux c)\<lparr>sm_KeepAlive := 5, sm_MaxRecv := 524288, sm_MaxStream := 524288\<rparr>,
             Stealth := (Stealth c)\<lparr>st_FakeTraffic := False\<rparr>,
             Paths := map lowcpu_path (Paths c)\<rparr>
         else
           (no_delay c)\<lparr>Paths := map balanced_path (Paths c)\<rparr>)"

section \<open>Aliases and port maps\<close>

definition sync_mimic :: "HTTPMimicCompat \<Rightarrow> MimicConfig \<Rightarrow> MimicConfig" where
  "sync_mimic h m = m\<lparr>
     mi_FakeDomain := str_or (mi_FakeDomain m) (hm_FakeDomain h),
     mi_FakePath := str_or (mi_FakePath m) (hm_FakePath h),
     mi_UserAgent := str_or (mi_UserAgent m) (hm_UserAgent h),
     mi_CustomHeaders :=
       (if mi_CustomHeaders m = [] \<and> hm_CustomHeaders h \<noteq> [] then hm_CustomHeaders h
        else mi_CustomHeaders m),
     mi_Chunked := hm_ChunkedEncoding h,
     mi_SessionCookie := hm_SessionCookie h\<rparr>"

definition sync_obfs :: "(64 word \<Rightarrow> int) \<Rightarrow> ObfsCompat \<Rightarrow> ObfsConfig \<Rightarrow> ObfsConfig" where
  "sync_obfs burst_milli oc ob = ob\<lparr>
     ob_Enabled := (if \<not> ob_Enabled ob then oc_Enabled oc else ob_Enabled ob),
     ob_MinPadding := pos_or (ob_MinPadding ob) (oc_MinPadding oc),
     ob_MaxPadding := pos_or (ob_MaxPadding ob) (oc_MaxPadding oc),
     ob_MinDelayMS := pos_or (ob_MinDelayMS ob) (oc_MinDelayMS oc),
     ob_MaxDelayMS := pos_or (ob_MaxDelayMS ob) (oc_MaxDelayMS oc),
     ob_BurstChance := pos_or (ob_BurstChance ob) (burst_milli (oc_BurstChance oc))\<rparr>"

definition syncAliases :: "(64 word \<Rightarrow> int) \<Rightarrow> Config \<Rightarrow> Config" where
  "syncAliases burst_milli c =
     c\<lparr>Mimic := sync_mimic (HTTPMimic c) (Mimic c),
       Obfs := sync_obfs burst_milli (Obfuscation c) (Obfs c)\<rparr>"

definition map_entry :: "PortMap \<Rightarrow> string" where
  "map_entry m = TrimSpace (pm_Bind m) @ ''->'' @ TrimSpace (pm_Target m)"

definition add_map :: "PortMap \<Rightarrow> Forward \<Rightarrow> Forward" where
  "add_map m f =
     (let entry = map_entry m; t = ToLower (TrimSpace (pm_Type m))
      in if t = ''udp'' then f\<lparr>fw_UDP := fw_UDP f @ [entry]\<rparr>
         else if t = ''both'' then f\<lparr>fw_TCP := fw_TCP f @ [entry], fw_UDP := fw_UDP f @ [entry]\<rparr>
         else f\<lparr>fw_TCP := fw_TCP f @ [entry]\<rparr>)"

definition convertMapsToForward :: "Config \<Rightarrow> Config" where
  "convertMapsToForward c =
     (if fw_TCP (forward c) = [] \<and> fw_UDP (forward c) = []
      then c\<lparr>forward := fold add_map (Maps c) (forward c)\<rparr> else c)"

section \<open>Migration, saving, loading\<close>

definition CurrentConfigVersion :: int where
  "CurrentConfigVersion = 2"

record yamlcodec =
  yaml_Marshal :: "Config \<Rightarrow> gerror + bytes"
  yaml_Unmarshal :: "bytes \<Rightarrow> gerror + Config"

text \<open>
  A file system: the contents, the errors of reading, and for a path whose writes fail the error
  with what the truncated file is left with.
\<close>

record fs =
  fs_files :: "string \<Rightarrow> gerror + bytes"
  fs_wfail :: "string \<Rightarrow> (gerror \<times> bytes) option"

definition WriteFile :: "string \<Rightarrow> bytes \<Rightarrow> fs \<Rightarrow> gerror option \<times> fs" where
  "WriteFile path data s =
     (case fs_wfail s path of
       None \<Rightarrow> (None, s\<lparr>fs_files := (fs_files s)(path := Inr data)\<rparr>)
     | Some (e, left) \<Rightarrow> (Some e, s\<lparr>fs_files := (fs_files s)(path := Inr left)\<rparr>))"

definition SaveConfig :: "yamlcodec \<Rightarrow> Config \<Rightarrow> string \<Rightarrow> fs \<Rightarrow> gerror option \<times> fs" where
  "SaveConfig y c path s =
     (case yaml_Marshal y c of
       Inl e \<Rightarrow> (Some (Wrap ''marshal'' e), s)
     | Inr data \<Rightarrow> WriteFile path data s)"

definition migrate_smux :: "string \<Rightarrow> SmuxConfig \<Rightarrow> SmuxConfig" where
  "migrate_smux profile s = s\<lparr>
     sm_MaxRecv := (if sm_MaxRecv s = 524288 \<or> sm_MaxRecv s = 1048576 then 4194304 else sm_MaxRecv s),
     sm_MaxStream := (if sm_MaxStream s = 524288 \<or> sm_MaxStream s = 1048576 then 4194304 else sm_MaxStream s),
     sm_FrameSize := (if sm_FrameSize s = 2048 then 4096 else sm_FrameSize s),
     sm_KeepAlive := (if sm_KeepAlive s = 1 \<and> profile \<noteq> ''gaming'' then 2 else sm_KeepAlive s)\<rparr>"

definition migrate_v1 :: "Config \<Rightarrow> Config" where
  "migrate_v1 c = c\<lparr>
     Smux := migrate_smux (Profile c) (Smux c),
     Advanced := (Advanced c)\<lparr>
       adv_TCPReadBuffer := (if adv_TCPReadBuffer (Advanced c) \<in> {32768, 65536} then 4194304
         else adv_TCPReadBuffer (Advanced c)),
       adv_TCPWriteBuffer := (if adv_TCPWriteBuffer (Advanced c) \<in> {32768, 65536} then 4194304
         else adv_TCPWriteBuffer (Advanced c))\<rparr>,
     SessionTimeout := (if SessionTimeout c = 15 then 30 else SessionTimeout c),
     Stealth := (Stealth c)\<lparr>st_RandomPadding := True\<rparr>\<rparr>"

definition migrateConfig :: "yamlcodec \<Rightarrow> Config \<Rightarrow> string \<Rightarrow> fs \<Rightarrow> Config \<times> fs" where
  "migrateConfig y c path s =
     (if ConfigVersion c \<ge> CurrentConfigVersion then (c, s)
      else
        let c = (if ConfigVersion c < 2 then migrate_v1 c else c);
            c = c\<lparr>ConfigVersion := CurrentConfigVersion\<rparr>
        in if path \<noteq> [] then (c, snd (SaveConfig y c path s)) else (c, s))"

text \<open>The trimming \<open>LoadConfig\<close> does itself.\<close>

definition trim_config :: "Config \<Rightarrow> Config" where
  "trim_config c =
     (let c = c\<lparr>Mode := ToLower (TrimSpace (Mode c)), Transport := ToLower (TrimSpace (Transport c)),
            Profile := ToLower (TrimSpace (Profile c)), Listen := TrimSpace (Listen c),
            ServerURL := TrimSpace (ServerURL c)\<rparr>
      in if Mode c = ''server'' \<and> Listen c = [] \<and> ListenPorts c = []
         then c\<lparr>Listen := ''0.0.0.0:2020''\<rparr> else c)"

definition prepare :: "(64 word \<Rightarrow> int) \<Rightarrow> Config \<Rightarrow> Config" where
  "prepare burst_milli c =
     syncAliases burst_milli (convertMapsToForward (applyProfile (applyBaseDefaults (trim_config c))))"

definition LoadConfig ::
    "yamlcodec \<Rightarrow> (64 word \<Rightarrow> int) \<Rightarrow> string \<Rightarrow> fs \<Rightarrow> (gerror + Config) \<times> fs" where
  "LoadConfig y burst_milli path s =
     (case fs_files s path of
       Inl e \<Rightarrow> (Inl e, s)
     | Inr b \<Rightarrow>
         (case yaml_Unmarshal y b of
           Inl e \<Rightarrow> (Inl e, s)
         | Inr c \<Rightarrow>
             (case migrateConfig y (prepare burst_milli c) path s of (c, s) \<Rightarrow> (Inr c, s))))"

end
