(* ===== verification/Utils.thy ===== *)
theory Utils
  imports GoStrings Padding
begin

text \<open>
  utils.go: the parser of port mappings \<open>bind->target\<close> and the random URL-safe string.
  \<open>base64.RawURLEncoding\<close> is that of RFC 4648 without padding.
\<close>

section \<open>SplitMap\<close>

definition SplitMap :: "string \<Rightarrow> string \<times> string \<times> bool" where
  "SplitMap s =
     (let parts = strSplit s ''->''
      in if length parts \<noteq> 2 then ([], [], False)
         else
           let bind = TrimSpace (parts ! 0);
               target = TrimSpace (parts ! 1)
           in if bind = [] \<or> target = [] then ([], [], False)
              else ((if \<not> Contains bind '':'' then ''0.0.0.0:'' @ bind else bind), target, True))"

definition no_arrow :: "string \<Rightarrow> bool" where
  "no_arrow s \<longleftrightarrow> \<not> Contains s ''->''"

lemma strIndex_arrow: "no_arrow a \<Longrightarrow> strIndex (a @ ''->'' @ b) ''->'' = Some (length a)"
proof (induction a)
  case Nil
  then show ?case by (simp add: HasPrefix_def)
next
  case (Cons c a)
  have na: "no_arrow a" "\<not> HasPrefix (c # a) ''->''"
    using Cons.prems by (auto simp: no_arrow_def Contains_def split: if_splits)
  have "\<not> HasPrefix (c # a @ ''->'' @ b) ''->''"
  proof (cases a)
    case Nil
    then show ?thesis by (simp add: HasPrefix_def)
  next
    case (Cons d a')
    with na(2) show ?thesis by (simp add: HasPrefix_def)
  qed
  with Cons.IH [OF na(1)] show ?case by simp
qed

lemma strSplit_none: "no_arrow b \<Longrightarrow> strSplit b ''->'' = [b]"
  by (subst strSplit.simps) (simp add: no_arrow_def Contains_def)

lemma strSplit_arrow: "no_arrow a \<Longrightarrow> strSplit (a @ ''->'' @ b) ''->'' = a # strSplit b ''->''"
  using strIndex_arrow [of a b] by (subst strSplit.simps) simp

lemma strSplit_two:
  assumes "strSplit s ''->'' = [a, b]"
  shows "s = a @ ''->'' @ b \<and> no_arrow b"
proof -
  have s: "s = a @ ''->'' @ b" using joinWith_strSplit [of "''->''" s] assms by simp
  obtain m where m: "strIndex s ''->'' = Some m" "b # [] = strSplit (drop (m + 2) s) ''->''"
    using assms by (subst (asm) strSplit.simps) (auto split: option.splits)
  have "\<not> Contains b ''->''"
  proof
    assume "Contains b ''->''"
    moreover have "drop (m + 2) s = b" using joinWith_strSplit [of "''->''" "drop (m + 2) s"] m(2) [symmetric] by simp
    ultimately obtain k where "strIndex (drop (m + 2) s) ''->'' = Some k" by (auto simp: Contains_def)
    then have "strSplit (drop (m + 2) s) ''->'' \<noteq> [b]"
      by (subst strSplit.simps) simp
    with m(2) show False by simp
  qed
  with s show ?thesis by (simp add: no_arrow_def)
qed

text \<open>What \<open>SplitMap\<close> makes of the part before the arrow.\<close>

definition bind_addr :: "string \<Rightarrow> string" where
  "bind_addr b = (if \<not> Contains b '':'' then ''0.0.0.0:'' @ b else b)"

lemma SplitMap_join:
  assumes "no_arrow b" "no_arrow t" "TrimSpace b \<noteq> []" "TrimSpace t \<noteq> []"
  shows "SplitMap (b @ ''->'' @ t) = (bind_addr (TrimSpace b), TrimSpace t, True)"
proof -
  have "strSplit (b @ ''->'' @ t) ''->'' = [b, t]"
    using strSplit_arrow [OF assms(1), of t] strSplit_none [OF assms(2)] by simp
  then show ?thesis
    using assms(3,4) unfolding SplitMap_def bind_addr_def by (simp add: Let_def)
qed

lemma Contains_prefix: "Contains (''0.0.0.0:'' @ b) '':''"
  by (simp add: Contains_def HasPrefix_def)

text \<open>
  \<open>SplitMap\<close> accepts exactly the strings with one arrow and something other than space on
  both sides of it; it returns those sides trimmed, the first with the wildcard host in front when
  it is a bare port, so an accepted bind address always has a colon. What it refuses gives two
  empty strings.
\<close>

theorem SplitMap_spec:
  assumes "SplitMap s = (b, t, ok)"
  shows "(ok \<longleftrightarrow> (\<exists>l r. strSplit s ''->'' = [l, r] \<and> TrimSpace l \<noteq> [] \<and> TrimSpace r \<noteq> [])) \<and>
    (if ok then Contains b '':'' \<and> t \<noteq> [] \<and> TrimSpace t = t \<and>
        (\<exists>l r. s = l @ ''->'' @ r \<and> no_arrow r \<and> b = bind_addr (TrimSpace l) \<and> t = TrimSpace r)
      else b = [] \<and> t = [])"
proof (cases "length (strSplit s ''->'') = 2")
  case True
  then obtain l r where lr: "strSplit s ''->'' = [l, r]"
    by (auto simp: length_Suc_conv numeral_2_eq_2)
  have "Contains (bind_addr (TrimSpace l)) '':''"
    using Contains_prefix [of "TrimSpace l"] by (simp add: bind_addr_def)
  with assms lr strSplit_two [OF lr] show ?thesis
    unfolding SplitMap_def bind_addr_def [symmetric] by (auto simp: Let_def split: if_splits)
next
  case False
  with assms show ?thesis by (auto simp: SplitMap_def Let_def)
qed

theorem SplitMap_spec_witness:
  "SplitMap '' 53 ->10.0.0.1:53'' = (''0.0.0.0:53'', ''10.0.0.1:53'', True) \<and>
   Contains ''0.0.0.0:53'' '':''"
proof -
  have n: "no_arrow '' 53 ''" "no_arrow ''10.0.0.1:53''"
    by (simp_all add: no_arrow_def Contains_def HasPrefix_def)
  have "TrimSpace '' 53 '' = ''53''" "TrimSpace ''10.0.0.1:53'' = ''10.0.0.1:53''"
    by (simp_all add: TrimSpace_def is_space_def)
  with SplitMap_join [OF n] have "SplitMap ('' 53 '' @ ''->'' @ ''10.0.0.1:53'') =
      (''0.0.0.0:53'', ''10.0.0.1:53'', True)"
    by (simp add: bind_addr_def Contains_def HasPrefix_def)
  then have "SplitMap '' 53 ->10.0.0.1:53'' = (''0.0.0.0:53'', ''10.0.0.1:53'', True)" by simp
  with SplitMap_spec [OF this] show ?thesis by simp
qed

section \<open>RandString\<close>

definition b64url_alphabet :: string where
  "b64url_alphabet =
     ''ABCDEFGHIJKLMNOPQRSTUVWXYZabcdefghijklmnopqrstuvwxyz0123456789-_''"

definition b64_char :: "nat \<Rightarrow> char" where
  "b64_char i = b64url_alphabet ! (i mod 64)"

fun RawURLEncode :: "bytes \<Rightarrow> string" where
  "RawURLEncode [] = []"
| "RawURLEncode [a] =
     (let v = unat a * 16 in [b64_char (v div 64), b64_char v])"
| "RawURLEncode [a, b] =
     (let v = (unat a * 256 + unat b) * 4
      in [b64_char (v div 4096), b64_char (v div 64), b64_char v])"
| "RawURLEncode (a # b # c # bs) =
     (let v = (unat a * 256 + unat b) * 256 + unat c
      in [b64_char (v div 262144), b64_char (v div 4096), b64_char (v div 64), b64_char v]
           @ RawURLEncode bs)"

definition go_quot :: "int \<Rightarrow> int \<Rightarrow> int" where
  "go_quot a b = sgn a * sgn b * (\<bar>a\<bar> div \<bar>b\<bar>)"

definition RandString :: "int \<Rightarrow> world \<Rightarrow> (string \<times> world) outcome" where
  "RandString n w =
     (if n \<le> 0 then Return ([], w)
      else obind (go_make (go_quot (i64 (i64 (n * 3) + 3)) 4)) (\<lambda>b.
        case randRead (length b) w of ((b, _), w) \<Rightarrow>
          let s = RawURLEncode b
          in Return (if int (length s) > n then take (nat n) s else s, w)))"

lemma length_RawURLEncode: "length (RawURLEncode bs) = (8 * length bs + 5) div 6"
  by (induction bs rule: RawURLEncode.induct) (auto simp: Let_def)

lemma b64_char_in: "b64_char i \<in> set b64url_alphabet"
proof -
  have "i mod 64 < length b64url_alphabet" by (simp add: b64url_alphabet_def)
  then show ?thesis unfolding b64_char_def by (rule nth_mem)
qed

lemma set_RawURLEncode: "set (RawURLEncode bs) \<subseteq> set b64url_alphabet"
  by (induction bs rule: RawURLEncode.induct) (auto simp: Let_def b64_char_in)

text \<open>
  For every positive \<open>n\<close> whose triple fits an \<open>int\<close> the random string has exactly
  \<open>n\<close> characters, all of the URL-safe alphabet; the code's comment promises only about \<open>n\<close>.
\<close>

theorem RandString_exact:
  assumes "0 < n" and "n \<le> 3074457345618258601"
  shows "\<exists>s w'. RandString n w = Return (s, w') \<and> int (length s) = n \<and> set s \<subseteq> set b64url_alphabet"
proof -
  have i: "i64 (n * 3) = n * 3" "i64 (n * 3 + 3) = n * 3 + 3"
    using assms by (intro i64_small; simp)+
  define m where m: "m = nat ((n * 3 + 3) div 4)"
  have q: "go_quot (n * 3 + 3) 4 = int m" using assms by (simp add: go_quot_def m)
  obtain b ok w1 where r: "randRead m w = ((b, ok), w1)" by (metis prod.collapse)
  then have "length b = m" by (rule length_randRead)
  then have l: "n \<le> int (length (RawURLEncode b))"
    using assms unfolding length_RawURLEncode m by linarith
  let ?s = "if int (length (RawURLEncode b)) > n then take (nat n) (RawURLEncode b) else RawURLEncode b"
  have "RandString n w = Return (?s, w1)"
    using assms(1) i q r by (simp add: RandString_def go_make_def Let_def)
  moreover have "int (length ?s) = n" using l assms(1) by auto
  moreover have "set ?s \<subseteq> set b64url_alphabet"
    using set_RawURLEncode [of b] set_take_subset [of "nat n" "RawURLEncode b"] by auto
  ultimately show ?thesis by blast
qed

theorem RandString_exact_witness:
  "\<exists>s w'. RandString 5 \<lparr>w_entropy = replicate 4 (Some 255), w_sleeps = []\<rparr> = Return (s, w') \<and>
     length s = 5"
  using RandString_exact [of 5 "\<lparr>w_entropy = replicate 4 (Some 255), w_sleeps = []\<rparr>"] by auto

end
