(* ===== verification/PortMaps.thy ===== *)
theory PortMaps
  imports ConfigLoad Utils
begin

text \<open>
  The port maps of a configuration end to end: \<open>convertMapsToForward\<close> of config.go writes them as
  \<open>bind->target\<close> entries, which \<open>Server.Start\<close> of server.go parses again with \<open>SplitMap\<close>
  to decide what to listen on.
\<close>

text \<open>The listeners \<open>Server.Start\<close> starts: each entry \<open>SplitMap\<close> accepts, in order.\<close>

definition start_listeners :: "string list \<Rightarrow> (string \<times> string) list" where
  "start_listeners ms =
     concat (map (\<lambda>m. case SplitMap m of (bind, target, ok) \<Rightarrow> if ok then [(bind, target)] else []) ms)"

definition map_type :: "PortMap \<Rightarrow> string" where
  "map_type m = ToLower (TrimSpace (pm_Type m))"

definition map_plain :: "PortMap \<Rightarrow> bool" where
  "map_plain m \<longleftrightarrow> TrimSpace (pm_Bind m) \<noteq> [] \<and> TrimSpace (pm_Target m) \<noteq> [] \<and>
     no_arrow (TrimSpace (pm_Bind m)) \<and> no_arrow (TrimSpace (pm_Target m))"

definition listener :: "PortMap \<Rightarrow> string \<times> string" where
  "listener m = (bind_addr (TrimSpace (pm_Bind m)), TrimSpace (pm_Target m))"

lemma fold_add_map:
  "fw_TCP (fold add_map ms f) = fw_TCP f @ map map_entry (filter (\<lambda>m. map_type m \<noteq> ''udp'') ms)"
  "fw_UDP (fold add_map ms f) =
     fw_UDP f @ map map_entry (filter (\<lambda>m. map_type m = ''udp'' \<or> map_type m = ''both'') ms)"
  by (induction ms arbitrary: f) (auto simp: add_map_def map_type_def Let_def)

text \<open>An entry with another arrow in it splits into more than two parts.\<close>

lemma strIndex_append: "strIndex s p = Some i \<Longrightarrow> strIndex (s @ r) p = Some i"
proof (induction s arbitrary: i)
  case Nil
  then show ?case by (cases r) (auto simp: HasPrefix_def split: if_splits)
next
  case (Cons c s)
  show ?case
  proof (cases "HasPrefix (c # s) p")
    case True
    moreover from this have "HasPrefix (c # s @ r) p" unfolding HasPrefix_iff by (metis append_assoc append_Cons)
    ultimately show ?thesis using Cons.prems by simp
  next
    case False
    then obtain j where j: "strIndex s p = Some j" "i = Suc j" using Cons.prems by auto
    then have "length p \<le> length s" using strIndex_bound [OF j(1)] by simp
    then have "take (length p) ((c # s) @ r) = take (length p) (c # s)" by (subst take_append) simp
    then have "\<not> HasPrefix (c # s @ r) p" using False by (simp add: HasPrefix_def)
    with Cons.IH [OF j(1)] j(2) show ?thesis by simp
  qed
qed

lemma Contains_arrow: "Contains (b @ ''->'' @ t) ''->''"
  using strIndex_arrow [of b t] strIndex_append [of b "''->''" _ "''->'' @ t"]
  by (cases "no_arrow b") (auto simp: no_arrow_def Contains_def)

lemma strSplit_Contains: "Contains s ''->'' \<Longrightarrow> 2 \<le> length (strSplit s ''->'')"
  by (subst strSplit.simps) (auto simp: Contains_def Suc_le_eq)

lemma strSplit_more:
  assumes "\<not> (no_arrow b \<and> no_arrow t)"
  shows "length (strSplit (b @ ''->'' @ t) ''->'') \<noteq> 2"
proof (cases "no_arrow b")
  case True
  with assms have "Contains t ''->''" by (simp add: no_arrow_def)
  with strSplit_arrow [OF True, of t] strSplit_Contains [of t] show ?thesis by simp
next
  case False
  then obtain i where i: "strIndex b ''->'' = Some i" by (auto simp: no_arrow_def Contains_def)
  then have "strIndex (b @ ''->'' @ t) ''->'' = Some i" by (rule strIndex_append)
  then have "strSplit (b @ ''->'' @ t) ''->'' =
      take i (b @ ''->'' @ t) # strSplit (drop (i + 2) (b @ ''->'' @ t)) ''->''"
    by (subst strSplit.simps) simp
  moreover have "drop (i + 2) (b @ ''->'' @ t) = drop (i + 2) b @ ''->'' @ t"
    using strIndex_bound [OF i] by simp
  ultimately show ?thesis using strSplit_Contains [OF Contains_arrow [of "drop (i + 2) b" t]] by simp
qed

lemma SplitMap_entry:
  "SplitMap (map_entry m) = (if map_plain m then (fst (listener m), snd (listener m), True) else ([], [], False))"
proof (cases "no_arrow (TrimSpace (pm_Bind m)) \<and> no_arrow (TrimSpace (pm_Target m))")
  case False
  with strSplit_more show ?thesis by (auto simp: map_plain_def map_entry_def SplitMap_def Let_def)
next
  case True
  show ?thesis
  proof (cases "TrimSpace (pm_Bind m) \<noteq> [] \<and> TrimSpace (pm_Target m) \<noteq> []")
    case t: True
    then show ?thesis
      using True SplitMap_join [of "TrimSpace (pm_Bind m)" "TrimSpace (pm_Target m)"]
      by (simp add: map_plain_def map_entry_def listener_def)
  next
    case False
    have "strSplit (map_entry m) ''->'' = [TrimSpace (pm_Bind m), TrimSpace (pm_Target m)]"
      using strSplit_arrow [OF True [THEN conjunct1]] strSplit_none [OF True [THEN conjunct2]]
      by (simp add: map_entry_def)
    with False show ?thesis by (auto simp: SplitMap_def map_plain_def Let_def)
  qed
qed

lemma start_listeners_entries: "start_listeners (map map_entry ms) = map listener (filter map_plain ms)"
  by (induction ms) (auto simp: start_listeners_def SplitMap_entry)

text \<open>
  C32. When the file has no forward entries of its own, the server starts exactly one TCP listener for
  each usable port map that is not of type udp and one UDP listener for each of type udp or both, in
  the order of the file, with the trimmed bind (on all addresses when it has no colon) and target. A
  map is usable when neither is blank and neither contains an arrow; the others start nothing.
\<close>

theorem port_maps_reach_server:
  assumes "fw_TCP (forward c) = []" "fw_UDP (forward c) = []"
  shows "start_listeners (fw_TCP (forward (convertMapsToForward c))) =
      map listener (filter (\<lambda>m. map_plain m \<and> map_type m \<noteq> ''udp'') (Maps c)) \<and>
    start_listeners (fw_UDP (forward (convertMapsToForward c))) =
      map listener (filter (\<lambda>m. map_plain m \<and> (map_type m = ''udp'' \<or> map_type m = ''both'')) (Maps c))"
  using assms by (simp add: convertMapsToForward_def fold_add_map start_listeners_entries conj_commute)

definition demo_maps :: "PortMap list" where
  "demo_maps = [\<lparr>pm_Type = ''both'', pm_Bind = ''53'', pm_Target = ''h:5''\<rparr>,
     \<lparr>pm_Type = ''tcp'', pm_Bind = ''l:80'', pm_Target = '' h:8''\<rparr>,
     \<lparr>pm_Type = ''tcp'', pm_Bind = ''81'', pm_Target = '' ''\<rparr>]"

theorem port_maps_reach_server_witness:
  "\<exists>c. start_listeners (fw_TCP (forward (convertMapsToForward (c\<lparr>Maps := demo_maps\<rparr>)))) =
     [(''0.0.0.0:53'', ''h:5''), (''l:80'', ''h:8'')]"
proof -
  fix c0 :: Config
  let ?c = "c0\<lparr>forward := \<lparr>fw_TCP = [], fw_UDP = []\<rparr>, Maps := demo_maps\<rparr>"
  from port_maps_reach_server [of ?c]
  have "start_listeners (fw_TCP (forward (convertMapsToForward ?c))) =
      map listener (filter (\<lambda>m. map_plain m \<and> map_type m \<noteq> ''udp'') demo_maps)" by simp
  also have "\<dots> = [(''0.0.0.0:53'', ''h:5''), (''l:80'', ''h:8'')]"
    by (simp add: demo_maps_def map_type_def map_plain_def no_arrow_def listener_def bind_addr_def Contains_def HasPrefix_def
        TrimSpace_def is_space_def ToLower_def lower_def)
  finally show ?thesis
    by (intro exI [of _ "c0\<lparr>forward := \<lparr>fw_TCP = [], fw_UDP = []\<rparr>\<rparr>"]) simp
qed

end
