(* ===== verification/Streams.thy ===== *)
theory Streams
  imports Padding Conn GoStrings
begin

text \<open>
  The streams of a session: the tag and target header the server and the client write on a new
  stream (server.go: \<open>openReverseStream\<close>, \<open>sendTarget\<close>, \<open>splitTarget\<close>; client.go:
  \<open>OpenStream\<close>), and the handlers that read it (server.go: \<open>handleStream\<close>,
  \<open>handleForwardStream\<close>; client.go: \<open>handleReverseStream\<close>, \<open>proxyReverseStream\<close>,
  \<open>handleLegacyStream\<close>). A stream is a connection in the sense of Conn; a handler's effect is the
  list of its actions. Dialling is the network's: a parameter.
\<close>

section \<open>Writing the header\<close>

definition StreamTypeForward :: byte where "StreamTypeForward = 0x01"
definition StreamTypeReverse :: byte where "StreamTypeReverse = 0x02"

definition splitTarget :: "string \<Rightarrow> string \<times> string" where
  "splitTarget s =
     (if HasPrefix s ''udp://'' then (''udp'', TrimPrefix s ''udp://'')
      else (''tcp'', TrimPrefix s ''tcp://''))"

text \<open>\<open>sendTarget\<close>: the length and the target in two writes.\<close>

definition sendTarget :: "conn \<Rightarrow> string \<Rightarrow> gerror option \<times> conn" where
  "sendTarget w target =
     (let b = bytes_of target
      in case conn_write w (put16 (word_of_nat (length b))) of
           ((_, Some e), w) \<Rightarrow> (Some e, w)
         | ((_, None), w) \<Rightarrow> (case conn_write w b of ((_, e), w) \<Rightarrow> (e, w)))"

text \<open>The client's header (its errors are ignored) and the server's (its errors are returned).\<close>

definition forward_header :: "conn \<Rightarrow> string \<Rightarrow> conn" where
  "forward_header stream target =
     (case conn_write stream [StreamTypeForward] of (_, stream) \<Rightarrow> snd (sendTarget stream target))"

definition reverse_header :: "conn \<Rightarrow> string \<Rightarrow> gerror option \<times> conn" where
  "reverse_header stream target =
     (case conn_write stream [StreamTypeReverse] of
       ((_, Some e), stream) \<Rightarrow> (Some e, stream)
     | ((_, None), stream) \<Rightarrow>
         let b = bytes_of target;
             hdr = copy_at 2 b (copy_at 0 (put16 (word_of_nat (length b))) (replicate (2 + length b) 0))
         in case conn_write stream hdr of ((_, e), stream) \<Rightarrow> (e, stream))"

section \<open>Reading it\<close>

datatype action =
    SetReadDeadline "nat option"
  | DialTimeout string string
  | Relay conn conn
  | CloseRemote
  | Drain
  | CloseStream

type_synonym dialer = "string \<Rightarrow> string \<Rightarrow> gerror + conn"

text \<open>The target after its length, or nothing: a length of zero or above 4096 is dropped.\<close>

definition read_body :: "16 word \<Rightarrow> conn \<Rightarrow> bytes option \<times> conn" where
  "read_body tLen stream =
     (if tLen = 0 \<or> tLen > 4096 then (None, stream)
      else case readFull (unat tLen) stream of
          ((b, None), stream) \<Rightarrow> (Some b, stream)
        | ((_, Some _), stream) \<Rightarrow> (None, stream))"

definition read_target :: "conn \<Rightarrow> bytes option \<times> conn" where
  "read_target stream =
     (case readFull 2 stream of
       ((_, Some _), stream) \<Rightarrow> (None, stream)
     | ((hdr, None), stream) \<Rightarrow> read_body (be16 hdr) stream)"

text \<open>What all three handlers do with a target: clear the deadline, dial, relay.\<close>

definition serve_target :: "dialer \<Rightarrow> bytes option \<times> conn \<Rightarrow> action list" where
  "serve_target dial r =
     (case r of
       (None, _) \<Rightarrow> []
     | (Some tBuf, stream) \<Rightarrow>
         (case splitTarget (string_of tBuf) of (network, addr) \<Rightarrow>
            SetReadDeadline None # DialTimeout network addr #
              (case dial network addr of Inl _ \<Rightarrow> [] | Inr remote \<Rightarrow> [Relay stream remote, CloseRemote])))"

definition handleForwardStream :: "dialer \<Rightarrow> conn \<Rightarrow> action list" where
  "handleForwardStream dial stream = SetReadDeadline (Some 10) # serve_target dial (read_target stream)"

text \<open>\<open>Server.handleStream\<close>; \<open>defer\<close> closes the stream at the end of every path.\<close>

definition handleStream :: "dialer \<Rightarrow> conn \<Rightarrow> action list" where
  "handleStream dial stream =
     SetReadDeadline (Some 5) #
       (case readFull 1 stream of
         ((_, Some _), _) \<Rightarrow> []
       | ((typeBuf, None), stream) \<Rightarrow>
           SetReadDeadline None #
             (if typeBuf ! 0 = StreamTypeForward then handleForwardStream dial stream else []))
     @ [CloseStream]"

definition proxyReverseStream :: "dialer \<Rightarrow> conn \<Rightarrow> action list" where
  "proxyReverseStream dial stream = serve_target dial (read_target stream)"

definition handleLegacyStream :: "dialer \<Rightarrow> conn \<Rightarrow> byte \<Rightarrow> action list" where
  "handleLegacyStream dial stream firstByte =
     (case readFull 1 stream of
       ((_, Some _), _) \<Rightarrow> []
     | ((hdr2, None), stream) \<Rightarrow>
         serve_target dial (read_body (be16 [firstByte, hdr2 ! 0]) stream))"

definition handleReverseStream :: "dialer \<Rightarrow> conn \<Rightarrow> action list" where
  "handleReverseStream dial stream =
     SetReadDeadline (Some 10) #
       (case readFull 1 stream of
         ((_, Some _), _) \<Rightarrow> []
       | ((typeBuf, None), stream) \<Rightarrow>
           if typeBuf ! 0 = StreamTypeReverse then proxyReverseStream dial stream
           else if typeBuf ! 0 = 0xFF then [Drain]
           else handleLegacyStream dial stream (typeBuf ! 0))
     @ [CloseStream]"

section \<open>Laws\<close>

lemma unat_of_char: "unat (of_char c :: byte) = (of_char c :: nat)"
  by (simp add: of_char_def unsigned_of_nat char.case_eq_if)

lemma string_of_bytes_of [simp]: "string_of (bytes_of s) = s"
proof -
  have "char_of (unat (of_char c :: byte)) = c" for c :: char
    by (simp add: unat_of_char)
  then show ?thesis by (simp add: string_of_def bytes_of_def o_def)
qed

lemma bytes_of_string_of [simp]: "bytes_of (string_of b) = b"
proof -
  have "of_char (char_of (unat x)) = x" for x :: byte
  proof -
    have "unat x < 256" using unsigned_less [of x] by simp
    then have "unat (of_char (char_of (unat x)) :: byte) = unat x"
      by (simp only: unat_of_char of_char_of mod_less)
    then show ?thesis by (rule unsigned_word_eqI)
  qed
  then show ?thesis by (simp add: string_of_def bytes_of_def o_def)
qed

lemma length_string_of [simp]: "length (string_of b) = length b"
  by (simp add: string_of_def)

lemma length_bytes_of [simp]: "length (bytes_of s) = length s"
  by (simp add: bytes_of_def)

lemma sendTarget_None:
  assumes "write_ok w"
  shows "\<exists>w'. sendTarget w t = (None, w') \<and> tx w' = tx w @ put16 (word_of_nat (length t)) @ bytes_of t"
proof -
  obtain w1 where w1: "conn_write w (put16 (word_of_nat (length t))) = ((2, None), w1)" "write_ok w1"
      "tx w1 = tx w @ put16 (word_of_nat (length t))"
    using conn_write_ok [OF assms, of "put16 (word_of_nat (length t))"] by auto
  obtain w2 where "conn_write w1 (bytes_of t) = ((length t, None), w2)" "tx w2 = tx w1 @ bytes_of t"
    using conn_write_ok [OF w1(2), of "bytes_of t"] by auto
  with w1 show ?thesis by (simp add: sendTarget_def Let_def)
qed

lemma forward_header_tx:
  assumes "write_ok w"
  shows "tx (forward_header w t) = tx w @ StreamTypeForward # put16 (word_of_nat (length t)) @ bytes_of t"
proof -
  obtain w1 where w1: "conn_write w [StreamTypeForward] = ((1, None), w1)" "write_ok w1"
      "tx w1 = tx w @ [StreamTypeForward]"
    using conn_write_ok [OF assms, of "[StreamTypeForward]"] by auto
  with sendTarget_None [OF w1(2), of t] show ?thesis by (auto simp: forward_header_def)
qed

lemma header_buffer: "copy_at 2 b (copy_at 0 (put16 x) (replicate (2 + length b) 0)) = put16 x @ b"
  by (simp add: copy_at_def)

lemma reverse_header_tx:
  assumes "reverse_header w t = (None, w')"
  shows "tx w' = tx w @ StreamTypeReverse # put16 (word_of_nat (length t)) @ bytes_of t"
proof -
  obtain n1 w1 where w1: "conn_write w [StreamTypeReverse] = ((n1, None), w1)"
    using assms by (auto simp: reverse_header_def split: prod.splits option.splits)
  have b: "copy_at 2 (bytes_of t) (copy_at 0 (put16 (word_of_nat (length t))) (replicate (2 + length t) 0)) =
      put16 (word_of_nat (length t)) @ bytes_of t"
    using header_buffer [of "bytes_of t"] by simp
  obtain n2 where w2: "conn_write w1 (put16 (word_of_nat (length t)) @ bytes_of t) = ((n2, None), w')"
    using assms w1 b unfolding reverse_header_def
    by (auto simp: Let_def split: prod.splits)
  from conn_write_None [OF w1] conn_write_None [OF w2] show ?thesis by simp
qed

lemma read_body_ok:
  assumes "rx s = b @ rest" and "0 < length b" "length b \<le> 4096" and "x = word_of_nat (length b)"
  shows "\<exists>s'. read_body x s = (Some b, s') \<and> rx s' = rest"
proof -
  have n: "unat x = length b" using assms(3) by (simp add: assms(4) unat_length16)
  have "x \<noteq> 0" using n assms(2) by (metis less_irrefl unat_0)
  moreover have "\<not> x > 4096" using n assms(3) by (simp add: word_less_nat_alt)
  ultimately show ?thesis
    using readFull_enough [of "length b" s] assms(1) n by (auto simp: read_body_def)
qed

lemma readFull_front:
  assumes "rx s = a @ rest" and "length a = n"
  shows "\<exists>s'. readFull n s = ((a, None), s') \<and> rx s' = rest"
  using readFull_enough [of n s] assms by auto

lemma read_target_ok:
  assumes "rx s = put16 (word_of_nat (length b)) @ b @ rest" and "0 < length b" "length b \<le> 4096"
  shows "\<exists>s'. read_target s = (Some b, s') \<and> rx s' = rest"
proof -
  obtain s1 where s1: "readFull 2 s = ((put16 (word_of_nat (length b)), None), s1)" "rx s1 = b @ rest"
    using readFull_front [of s "put16 (word_of_nat (length b))" "b @ rest" 2] assms(1) by auto
  with read_body_ok [OF s1(2) assms(2,3) refl] show ?thesis
    using be16_put16 [of "word_of_nat (length b)" "[]"] by (simp add: read_target_def)
qed

text \<open>What serving the target \<open>t\<close> looks like when \<open>payload\<close> follows it on the stream.\<close>

definition served :: "dialer \<Rightarrow> string \<Rightarrow> bytes \<Rightarrow> action list \<Rightarrow> bool" where
  "served dial t payload acts \<longleftrightarrow>
     (case splitTarget t of (network, addr) \<Rightarrow>
       \<exists>stream. rx stream = payload \<and>
         acts = SetReadDeadline None # DialTimeout network addr #
           (case dial network addr of Inl _ \<Rightarrow> [] | Inr remote \<Rightarrow> [Relay stream remote, CloseRemote]))"

lemma serve_target_served: "rx s = payload \<Longrightarrow> served dial t payload (serve_target dial (Some (bytes_of t), s))"
  by (auto simp: served_def serve_target_def split: prod.split)

lemma unat_byte_ne: "unat (x :: byte) \<noteq> n \<Longrightarrow> x \<noteq> word_of_nat n \<or> 256 \<le> n"
proof (cases "n < 256")
  case True
  then have "unat (word_of_nat n :: byte) = n" by (simp add: unsigned_of_nat take_bit_nat_eq_self)
  then show "unat x \<noteq> n \<Longrightarrow> x \<noteq> word_of_nat n \<or> 256 \<le> n" by auto
qed simp

lemma high_byte: "n < 65536 \<Longrightarrow> unat (ucast (drop_bit 8 (word_of_nat n :: 16 word)) :: byte) = n div 256"
  by (simp add: unsigned_ucast_eq unsigned_drop_bit_eq unat_length16 drop_bit_eq_div)
    (simp add: unat_div_distrib unat_length16 take_bit_nat_eq_self)

lemma unat_be16: "unat (be16 [a, b]) = unat a * 256 + unat b"
proof -
  have l: "unat a < 256" "unat b < 256" using unsigned_less [of a] unsigned_less [of b] by simp_all
  have d: "and (push_bit 8 (ucast a)) (ucast b) = (0 :: 16 word)"
    by (auto intro!: bit_word_eqI simp: bit_and_iff bit_push_bit_iff bit_ucast_iff)
      (use bit_imp_le_length [of b] in fastforce)
  have "be16 [a, b] = push_bit 8 (ucast a) + ucast b"
    by (simp add: be16_def get16_def disjunctive_add_eq_or [OF d])
  also have "\<dots> = word_of_nat (unat a * 256 + unat b)"
    by (simp add: push_bit_eq_mult of_nat_unat mult.commute)
  finally have "unat (be16 [a, b]) = unat (word_of_nat (unat a * 256 + unat b) :: 16 word)"
    by (rule arg_cong)
  also have "\<dots> = unat a * 256 + unat b" by (rule unat_length16) (use l in linarith)
  finally show ?thesis .
qed

lemma low_byte: "n < 65536 \<Longrightarrow> unat (ucast (word_of_nat n :: 16 word) :: byte) = n mod 256"
  by (simp add: unsigned_ucast_eq unat_length16 take_bit_eq_mod)

lemma put16_be16: "put16 (be16 [a, b]) = [a, b]"
proof -
  have l: "unat a < 256" "unat b < 256" using unsigned_less [of a] unsigned_less [of b] by simp_all
  define n where n: "n = unat a * 256 + unat b"
  have "unat (be16 [a, b]) = unat (word_of_nat n :: 16 word)"
    using l unat_length16 [of n] unat_be16 [of a b] unfolding n by linarith
  then have x: "be16 [a, b] = word_of_nat n" by (rule unsigned_word_eqI)
  have "n < 65536" "n div 256 = unat a" "n mod 256 = unat b" using l by (simp_all add: n)
  then have "ucast (drop_bit 8 (word_of_nat n :: 16 word)) = a" "ucast (word_of_nat n :: 16 word) = b"
    using high_byte [of n] low_byte [of n] by (auto intro!: unsigned_word_eqI)
  then show ?thesis by (simp add: x put16_def)
qed

section \<open>Properties\<close>

lemma handleReverseStream_target:
  assumes "rx s = StreamTypeReverse # put16 (word_of_nat (length t)) @ bytes_of t @ payload"
    and "0 < length t" "length t \<le> 4096"
  shows "\<exists>st. rx st = payload \<and>
    handleReverseStream dial s = SetReadDeadline (Some 10) # serve_target dial (Some (bytes_of t), st) @ [CloseStream]"
proof -
  obtain s1 where s1: "readFull 1 s = (([StreamTypeReverse], None), s1)"
      "rx s1 = put16 (word_of_nat (length t)) @ bytes_of t @ payload"
    using readFull_front [of s "[StreamTypeReverse]" _ 1] assms(1) by auto
  obtain s2 where "read_target s1 = (Some (bytes_of t), s2)" "rx s2 = payload"
    using read_target_ok [of s1 "bytes_of t" payload] s1(2) assms(2,3) by auto
  with s1 show ?thesis by (auto simp: handleReverseStream_def proxyReverseStream_def)
qed

text \<open>
  C20. A target the server writes on a reverse stream without an error is the one the client dials:
  for a target of 1 to 4096 bytes, however its bytes arrive, the client reads exactly the header,
  clears the deadline before it relays, relays all that follows, and closes both ends.
\<close>

theorem reverse_target_roundtrip:
  assumes "reverse_header w t = (None, w')" and "0 < length t" "length t \<le> 4096"
    and "rx s = drop (length (tx w)) (tx w') @ payload"
  shows "\<exists>acts. served dial t payload acts \<and>
    handleReverseStream dial s = SetReadDeadline (Some 10) # acts @ [CloseStream]"
proof -
  have "rx s = StreamTypeReverse # put16 (word_of_nat (length t)) @ bytes_of t @ payload"
    using assms(4) reverse_header_tx [OF assms(1)] by simp
  from handleReverseStream_target [OF this assms(2,3), of dial] serve_target_served [of _ payload dial t]
  show ?thesis by blast
qed

theorem reverse_target_roundtrip_witness:
  "\<exists>w' acts. reverse_header (new_conn []) ''udp://h:1'' = (None, w') \<and> served (\<lambda>_ _. Inl EOF) ''udp://h:1'' [9] acts \<and>
     handleReverseStream (\<lambda>_ _. Inl EOF) (new_conn (tx w' @ [9])) = SetReadDeadline (Some 10) # acts @ [CloseStream]"
proof -
  obtain w' where w: "reverse_header (new_conn []) ''udp://h:1'' = (None, w')"
    by (simp add: reverse_header_def conn_write_def new_conn_def Let_def)
  have "rx (new_conn (tx w' @ [9])) = drop (length (tx (new_conn []))) (tx w') @ [9]"
    by (simp add: new_conn_def)
  from reverse_target_roundtrip [OF w _ _ this, of "\<lambda>_ _. Inl EOF"] w show ?thesis by simp
qed

text \<open>
  In the forward direction, what the client's \<open>OpenStream\<close> writes on a stream that takes it is the
  target the server dials: for 1 to 4096 bytes, however they arrive, the server reads exactly the tag
  and the header under its own deadlines, clears them before it relays, and relays all that follows.
\<close>

theorem forward_target_roundtrip:
  assumes "write_ok w" and "0 < length t" "length t \<le> 4096"
    and "rx s = drop (length (tx w)) (tx (forward_header w t)) @ payload"
  shows "\<exists>acts. served dial t payload acts \<and>
    handleStream dial s = [SetReadDeadline (Some 5), SetReadDeadline None, SetReadDeadline (Some 10)] @
      acts @ [CloseStream]"
proof -
  have rx: "rx s = [StreamTypeForward] @ put16 (word_of_nat (length t)) @ bytes_of t @ payload"
    using assms(4) forward_header_tx [OF assms(1)] by simp
  obtain s1 where s1: "readFull 1 s = (([StreamTypeForward], None), s1)"
      "rx s1 = put16 (word_of_nat (length t)) @ bytes_of t @ payload"
    using readFull_front [OF rx, of 1] by auto
  obtain s2 where "read_target s1 = (Some (bytes_of t), s2)" "rx s2 = payload"
    using read_target_ok [of s1 "bytes_of t" payload] s1(2) assms(2,3) by auto
  with s1 serve_target_served [of s2 payload dial t] show ?thesis
    by (auto simp: handleStream_def handleForwardStream_def)
qed

theorem forward_target_roundtrip_witness:
  "\<exists>acts. served (\<lambda>_ _. Inr (new_conn [])) ''h:1'' [] acts \<and>
     handleStream (\<lambda>_ _. Inr (new_conn [])) (new_conn (tx (forward_header (new_conn []) ''h:1''))) =
       [SetReadDeadline (Some 5), SetReadDeadline None, SetReadDeadline (Some 10)] @ acts @ [CloseStream]"
proof -
  let ?s = "new_conn (tx (forward_header (new_conn []) ''h:1''))"
  have "rx ?s = drop (length (tx (new_conn []))) (tx (forward_header (new_conn []) ''h:1'')) @ []"
    by (simp add: new_conn_def)
  from forward_target_roundtrip [OF _ _ _ this, of "\<lambda>_ _. Inr (new_conn [])"] show ?thesis
    by (simp add: write_ok_def new_conn_def)
qed

lemma be16_bytes: "be16 [ucast (drop_bit 8 x), ucast x] = x"
  using be16_put16 [of x "[]"] by (simp add: put16_def)

lemma legacy_read:
  assumes "rx s = put16 x @ rest"
  shows "\<exists>s1. readFull 1 s = (([ucast (drop_bit 8 x)], None), s1) \<and> rx s1 = ucast x # rest"
  using readFull_front [of s "[ucast (drop_bit 8 x)]" "ucast x # rest" 1] assms
  by (simp add: put16_def)

text \<open>
  Streams of servers older than the tags: their header, read as tag and target, is still served
  for every target of 1 to 4096 bytes whose length's high byte is not the reverse tag, that is
  outside 512 to 767.
\<close>

theorem legacy_target_served:
  assumes "rx s = put16 (word_of_nat (length t)) @ bytes_of t @ payload"
    and "0 < length t" "length t \<le> 4096" and "length t < 512 \<or> 768 \<le> length t"
  shows "\<exists>acts. served dial t payload acts \<and>
    handleReverseStream dial s = SetReadDeadline (Some 10) # acts @ [CloseStream]"
proof -
  let ?x = "word_of_nat (length t) :: 16 word"
  let ?h = "ucast (drop_bit 8 ?x) :: byte"
  obtain s1 where s1: "readFull 1 s = (([?h], None), s1)" "rx s1 = ucast ?x # bytes_of t @ payload"
    using legacy_read [OF assms(1)] by blast
  have h: "unat ?h = length t div 256" using assms(3) by (simp add: high_byte)
  have "unat ?h \<noteq> 2" using assms(4) unfolding h by auto
  then have n2: "?h \<noteq> StreamTypeReverse" unfolding StreamTypeReverse_def using unat_byte_ne [of ?h 2] by simp
  have "unat ?h \<noteq> 255" using assms(3) unfolding h by auto
  then have nf: "?h \<noteq> 0xFF" using unat_byte_ne [of ?h 255] by simp
  obtain s2 where s2: "readFull 1 s1 = (([ucast ?x], None), s2)" "rx s2 = bytes_of t @ payload"
    using readFull_front [of s1 "[ucast ?x]" "bytes_of t @ payload" 1] s1(2) by auto
  obtain s3 where "read_body ?x s2 = (Some (bytes_of t), s3)" "rx s3 = payload"
    using read_body_ok [OF s2(2) _ _ , of ?x] assms(2,3) by auto
  with s1 s2 n2 nf serve_target_served [of s3 payload dial t] show ?thesis
    by (auto simp: handleReverseStream_def handleLegacyStream_def be16_bytes)
qed

theorem legacy_target_served_witness:
  "\<exists>acts. served (\<lambda>_ _. Inl EOF) ''h:1'' [5] acts \<and>
     handleReverseStream (\<lambda>_ _. Inl EOF) (new_conn ([0, 3] @ bytes_of ''h:1'' @ [5])) =
       SetReadDeadline (Some 10) # acts @ [CloseStream]"
proof -
  have "rx (new_conn ([0, 3] @ bytes_of ''h:1'' @ [5])) = put16 (word_of_nat (length ''h:1'')) @ bytes_of ''h:1'' @ [5]"
    by (simp add: new_conn_def put16_def)
  from legacy_target_served [OF this, of "\<lambda>_ _. Inl EOF"] show ?thesis by simp
qed

text \<open>
  A legacy header for a target of 529 to 767 bytes is dropped without dialling: its length's
  high byte is read as the reverse tag, and what follows as a length above 4096.
\<close>

theorem legacy_target_dropped:
  assumes "rx s = put16 (word_of_nat (length t)) @ bytes_of t @ payload"
    and "529 \<le> length t" "length t \<le> 767"
  shows "handleReverseStream dial s = [SetReadDeadline (Some 10), CloseStream]"
proof -
  let ?x = "word_of_nat (length t) :: 16 word"
  let ?h = "ucast (drop_bit 8 ?x) :: byte" and ?l = "ucast ?x :: byte"
  obtain s1 where s1: "readFull 1 s = (([?h], None), s1)" "rx s1 = ?l # bytes_of t @ payload"
    using legacy_read [OF assms(1)] by blast
  have q: "length t div 256 = 2" using assms(2,3) by (simp add: div_nat_eqI)
  then have d: "length t div 256 = 2" "17 \<le> length t mod 256"
    using mod_mult_div_eq [of "length t" 256] assms(2) by simp_all
  then have "unat ?h = 2" "unat ?l = length t mod 256"
    using assms(3) high_byte [of "length t"] low_byte [of "length t"] by simp_all
  with d have h: "?h = StreamTypeReverse" and l: "17 \<le> unat ?l"
    by (auto intro!: unsigned_word_eqI simp: StreamTypeReverse_def)
  obtain a r where t: "bytes_of t = a # r" using assms(2) by (cases "bytes_of t") (auto simp: bytes_of_def)
  obtain s2 where s2: "readFull 2 s1 = (([?l, a], None), s2)"
    using readFull_front [of s1 "[?l, a]" "r @ payload" 2] s1(2) t by auto
  have "4096 < unat (be16 [?l, a])" using l unfolding unat_be16 by linarith
  then have "be16 [?l, a] > 4096" by (simp add: word_less_nat_alt)
  with s1 s2 h show ?thesis
    by (simp add: handleReverseStream_def proxyReverseStream_def read_target_def read_body_def serve_target_def)
qed

theorem legacy_target_dropped_witness:
  "handleReverseStream (\<lambda>_ _. Inl EOF)
     (new_conn (put16 (word_of_nat (length (replicate 600 CHR ''a''))) @ bytes_of (replicate 600 CHR ''a'') @ [])) =
   [SetReadDeadline (Some 10), CloseStream]"
  by (rule legacy_target_dropped [of _ "replicate 600 CHR ''a''" "[]"]) (simp_all add: new_conn_def)

section \<open>Fake traffic and strangers\<close>

text \<open>\<open>Server.sendFakeData\<close> on an opened stream: the tag 0xFF and 32 to 255 random bytes.\<close>

definition sendFakeData :: "conn \<Rightarrow> world \<Rightarrow> conn \<times> world" where
  "sendFakeData stream w =
     (case conn_write stream [0xFF] of (_, stream) \<Rightarrow>
        case secureRandInt 224 w of (r, w) \<Rightarrow>
          case randRead (nat (32 + r)) w of ((fake, _), w) \<Rightarrow>
            case conn_write stream fake of (_, stream) \<Rightarrow>
              case secureRandInt 200 w of (d, w) \<Rightarrow>
                (conn_close stream, sleep ((50 + d) * millisecond) w))"

lemma sendFakeData_tx:
  assumes "write_ok s"
  shows "\<exists>fake d. tx (fst (sendFakeData s w)) = tx s @ 0xFF # fake \<and>
    32 \<le> length fake \<and> length fake \<le> 255 \<and> closed (fst (sendFakeData s w)) \<and>
    w_sleeps (snd (sendFakeData s w)) = w_sleeps w @ [d] \<and> 50 * millisecond \<le> d \<and> d \<le> 249 * millisecond"
proof -
  obtain s1 where s1: "conn_write s [0xFF] = ((1, None), s1)" "write_ok s1" "tx s1 = tx s @ [0xFF]"
    using conn_write_ok [OF assms, of "[0xFF]"] by auto
  obtain r w1 where r: "secureRandInt 224 w = (r, w1)" by (metis prod.collapse)
  obtain fake ok w2 where f: "randRead (nat (32 + r)) w1 = ((fake, ok), w2)" by (metis prod.collapse)
  obtain s2 where s2: "conn_write s1 fake = ((length fake, None), s2)" "tx s2 = tx s1 @ fake"
    using conn_write_ok [OF s1(2), of fake] by auto
  obtain d w3 where d: "secureRandInt 200 w2 = (d, w3)" by (metis prod.collapse)
  have b: "0 \<le> r" "r < 224" "0 \<le> d" "d < 200" "length fake = nat (32 + r)"
    using secureRandInt_nonneg [OF r] secureRandInt_less [OF r] secureRandInt_nonneg [OF d]
      secureRandInt_less [OF d] length_randRead [OF f] by simp_all
  have "w_sleeps w2 = w_sleeps w1" using f by (auto simp: randRead_def split: prod.splits)
  then have "w_sleeps w3 = w_sleeps w" using secureRandInt_sleeps [OF r] secureRandInt_sleeps [OF d] by simp
  then have "sendFakeData s w = (conn_close s2, sleep ((50 + d) * millisecond) w3)"
      "w_sleeps (sleep ((50 + d) * millisecond) w3) = w_sleeps w @ [(50 + d) * millisecond]"
    using s1 r f s2 d by (simp_all add: sendFakeData_def sleep_def)
  moreover have "tx (conn_close s2) = tx s @ 0xFF # fake" using s1(3) s2(2) by (simp add: conn_close_def)
  moreover have "50 * millisecond \<le> (50 + d) * millisecond" "(50 + d) * millisecond \<le> 249 * millisecond"
    using b by (simp_all add: millisecond_def)
  ultimately show ?thesis
    using b by (intro exI [of _ fake] exI [of _ "(50 + d) * millisecond"]) (auto simp: conn_close_def)
qed

lemma handleReverseStream_fake:
  assumes "rx s = 0xFF # fake"
  shows "handleReverseStream dial s = [SetReadDeadline (Some 10), Drain, CloseStream]"
proof -
  obtain s1 where "readFull 1 s = (([0xFF], None), s1)"
    using readFull_front [of s "[0xFF]" fake 1] assms by auto
  then show ?thesis by (auto simp: handleReverseStream_def StreamTypeReverse_def)
qed

text \<open>
  Fake traffic on a stream that takes it reaches nobody: the client drains the stream and dials
  nothing, whatever the random bytes are; the server puts 33 to 256 bytes on the stream, closes it,
  and pauses 50 to 249 milliseconds.
\<close>

theorem fake_traffic_discarded:
  assumes "write_ok w" and "rx s = drop (length (tx w)) (tx (fst (sendFakeData w v)))"
  shows "handleReverseStream dial s = [SetReadDeadline (Some 10), Drain, CloseStream] \<and>
    33 \<le> length (rx s) \<and> length (rx s) \<le> 256 \<and> closed (fst (sendFakeData w v)) \<and>
    (\<exists>d. w_sleeps (snd (sendFakeData w v)) = w_sleeps v @ [d] \<and> 50 * millisecond \<le> d \<and> d \<le> 249 * millisecond)"
proof -
  obtain fake d where f: "tx (fst (sendFakeData w v)) = tx w @ 0xFF # fake" "32 \<le> length fake"
      "length fake \<le> 255" "closed (fst (sendFakeData w v))"
      "w_sleeps (snd (sendFakeData w v)) = w_sleeps v @ [d]" "50 * millisecond \<le> d" "d \<le> 249 * millisecond"
    using sendFakeData_tx [OF assms(1), of v] by blast
  then have "rx s = 0xFF # fake" using assms(2) by simp
  with f handleReverseStream_fake [OF this, of dial] show ?thesis by auto
qed

theorem fake_traffic_discarded_witness:
  "\<exists>s. rx s = drop (length (tx (new_conn []))) (tx (fst (sendFakeData (new_conn []) \<lparr>w_entropy = [], w_sleeps = []\<rparr>))) \<and>
     handleReverseStream (\<lambda>_ _. Inl EOF) s = [SetReadDeadline (Some 10), Drain, CloseStream]"
proof -
  let ?v = "\<lparr>w_entropy = [], w_sleeps = []\<rparr> :: world"
  let ?s = "new_conn (drop (length (tx (new_conn []))) (tx (fst (sendFakeData (new_conn []) ?v))))"
  have w: "write_ok (new_conn [])" and r: "rx ?s = drop (length (tx (new_conn []))) (tx (fst (sendFakeData (new_conn []) ?v)))"
    by (simp_all add: write_ok_def new_conn_def)
  from fake_traffic_discarded [OF w r, of "\<lambda>_ _. Inl EOF"] r show ?thesis by blast
qed

lemma readFull_None: "readFull n s = ((a, None), s') \<Longrightarrow> length a = n \<and> rx s = a @ rx s'"
  using readFull_enough [of n s] readFull_short [of s n] by (cases "n \<le> length (rx s)") auto

lemma read_target_Some:
  assumes "read_target s = (Some b, s')"
  shows "rx s = put16 (word_of_nat (length b)) @ b @ rx s' \<and> 0 < length b \<and> length b \<le> 4096"
proof -
  obtain hdr s1 where h: "readFull 2 s = ((hdr, None), s1)" "read_body (be16 hdr) s1 = (Some b, s')"
    using assms by (auto simp: read_target_def split: prod.splits option.splits)
  then have bd: "readFull (unat (be16 hdr)) s1 = ((b, None), s')" "be16 hdr \<noteq> 0" "\<not> be16 hdr > 4096"
    by (auto simp: read_body_def split: if_splits prod.splits option.splits)
  have l: "length hdr = 2" "rx s = hdr @ rx s1" "length b = unat (be16 hdr)" "rx s1 = b @ rx s'"
    using readFull_None [OF h(1)] readFull_None [OF bd(1)] by simp_all
  then obtain x y where xy: "hdr = [x, y]" by (auto simp: length_Suc_conv numeral_2_eq_2)
  have "0 < length b" "length b \<le> 4096"
    using bd(2,3) unfolding l(3) by (simp_all add: word_less_nat_alt unat_gt_0)
  moreover have "put16 (word_of_nat (length b)) = hdr"
    unfolding l(3) xy by (simp add: put16_be16)
  ultimately show ?thesis using l by simp
qed

text \<open>
  C39. The server dials for a client only when the stream starts with the forward tag and a complete
  header for a target of 1 to 4096 bytes, and then it dials that target.
\<close>

theorem server_dials_only_forward:
  assumes "DialTimeout n a \<in> set (handleStream dial s)"
  shows "\<exists>t rest. rx s = StreamTypeForward # put16 (word_of_nat (length t)) @ bytes_of t @ rest \<and>
    0 < length t \<and> length t \<le> 4096 \<and> splitTarget t = (n, a)"
proof -
  obtain tb x s1 where r: "readFull 1 s = ((tb, x), s1)" by (metis prod.collapse)
  with assms have 1: "readFull 1 s = ((tb, None), s1)" "tb ! 0 = StreamTypeForward"
      "DialTimeout n a \<in> set (serve_target dial (read_target s1))"
    by (auto simp: handleStream_def handleForwardStream_def split: prod.splits option.splits if_splits)
  have tb: "tb = [StreamTypeForward]" "rx s = tb @ rx s1"
    using readFull_None [OF 1(1)] 1(2) by (auto simp: length_Suc_conv)
  obtain ob s2 where ob: "read_target s1 = (ob, s2)" by (metis prod.collapse)
  with 1(3) obtain b where b: "read_target s1 = (Some b, s2)"
    by (cases ob) (auto simp: serve_target_def)
  with 1(3) have "splitTarget (string_of b) = (n, a)"
    by (auto simp: serve_target_def split: prod.splits sum.splits)
  then show ?thesis
    using read_target_Some [OF b] tb by (intro exI [of _ "string_of b"] exI [of _ "rx s2"]) auto
qed

theorem server_dials_only_forward_witness:
  "\<exists>t rest. rx (new_conn (tx (forward_header (new_conn []) ''h:1''))) =
     StreamTypeForward # put16 (word_of_nat (length t)) @ bytes_of t @ rest \<and>
     splitTarget t = (''tcp'', ''h:1'')"
proof -
  let ?s = "new_conn (tx (forward_header (new_conn []) ''h:1''))"
  have w: "write_ok (new_conn [])" by (simp add: write_ok_def new_conn_def)
  have t: "tx (forward_header (new_conn []) ''h:1'') = [1] @ [0, 3] @ bytes_of ''h:1''"
    using forward_header_tx [OF w, of "''h:1''"] by (simp add: StreamTypeForward_def put16_def)
  have sp: "splitTarget ''h:1'' = (''tcp'', ''h:1'')"
    by (simp add: splitTarget_def TrimPrefix_def HasPrefix_def)
  have "DialTimeout ''tcp'' ''h:1'' \<in> set (handleStream (\<lambda>_ _. Inl EOF) ?s)"
  proof -
    obtain s1 where s1: "readFull 1 ?s = (([1], None), s1)" "rx s1 = [0, 3] @ bytes_of ''h:1''"
      using readFull_front [of ?s "[1]" "[0, 3] @ bytes_of ''h:1''" 1] t by (auto simp: new_conn_def)
    have "rx s1 = put16 (word_of_nat (length (bytes_of ''h:1''))) @ bytes_of ''h:1'' @ []"
      using s1(2) by (simp add: put16_def)
    from read_target_ok [OF this] obtain s2 where "read_target s1 = (Some (bytes_of ''h:1''), s2)" by auto
    with s1 sp show ?thesis
      by (simp add: handleStream_def handleForwardStream_def serve_target_def StreamTypeForward_def)
  qed
  from server_dials_only_forward [OF this] show ?thesis by blast
qed

end
