(* ===== verification/Pool.thy ===== *)
theory Pool
  imports Streams ConfigTypes
begin

text \<open>
  The session pools of server.go and client.go. A pool is a slice of session pointers, here
  identifiers into a heap of sessions; the locale \<open>session_pool\<close> is what both programs rely on
  and both are interpretations of it. Then the server's choice of a session for a new reverse
  stream, with the stream counter it keeps per session.
\<close>

section \<open>The interface of a pool\<close>

locale session_pool =
  fixes items :: "'s \<Rightarrow> nat list"
    and dead :: "'s \<Rightarrow> nat \<Rightarrow> bool"
    and add :: "nat \<Rightarrow> 's \<Rightarrow> 's"
    and rem :: "nat \<Rightarrow> 's \<Rightarrow> 's"
    and evict :: "'s \<Rightarrow> 's"
  assumes items_add: "items (add x s) = items s @ [x]"
    and items_rem: "items (rem x s) = remove1 x (items s)"
    and items_evict: "items (evict s) = filter (\<lambda>x. \<not> dead s x) (items s)"
    and dead_evict: "dead (evict s) = dead s"

context session_pool begin

lemma distinct_add: "distinct (items s) \<Longrightarrow> x \<notin> set (items s) \<Longrightarrow> distinct (items (add x s))"
  by (simp add: items_add)

lemma distinct_rem: "distinct (items s) \<Longrightarrow> distinct (items (rem x s)) \<and> set (items (rem x s)) = set (items s) - {x}"
  by (simp add: items_rem)

lemma distinct_evict: "distinct (items s) \<Longrightarrow> distinct (items (evict s))"
  by (simp add: items_evict)

lemma evict_idem: "items (evict (evict s)) = items (evict s)"
  by (simp add: items_evict dead_evict)

lemma evict_keeps: "x \<in> set (items (evict s)) \<longleftrightarrow> x \<in> set (items s) \<and> \<not> dead s x"
  by (auto simp: items_evict)

lemma add_rem: "x \<notin> set (items s) \<Longrightarrow> items (rem x (add x s)) = items s"
  by (simp add: items_add items_rem remove1_append)

end

text \<open>The loops of \<open>removeSession\<close> and of the health checks, shared by both files.\<close>

fun remove_session :: "nat \<Rightarrow> nat list \<Rightarrow> nat list" where
  "remove_session x [] = []"
| "remove_session x (e # es) = (if e = x then es else e # remove_session x es)"

fun keep_alive :: "(nat \<Rightarrow> bool) \<Rightarrow> nat list \<Rightarrow> nat list \<Rightarrow> nat \<Rightarrow> nat list \<times> nat" where
  "keep_alive isClosed [] alive evicted = (alive, evicted)"
| "keep_alive isClosed (x # xs) alive evicted =
     (if isClosed x then keep_alive isClosed xs alive (evicted + 1)
      else keep_alive isClosed xs (alive @ [x]) evicted)"

lemma remove_session_eq: "remove_session x xs = remove1 x xs"
  by (induction xs) auto

lemma keep_alive_eq:
  "keep_alive P xs a n = (a @ filter (\<lambda>x. \<not> P x) xs, n + length (filter P xs))"
  by (induction xs arbitrary: a n) auto

section \<open>The server\<close>

text \<open>
  \<open>ss_closed\<close> is what \<open>sess.IsClosed()\<close> answers and \<open>ss_opens\<close> what the next calls of
  \<open>sess.OpenStream()\<close> give: smux's behaviour, scheduled. \<open>ss_dropped\<close> are the streams the server opened
  in the session and closed again without handing them out, as it left them. The counter \<open>streams\<close> is an
  \<open>int64\<close> under atomic additions: a word that wraps, read as a signed number.
\<close>

record serverSession =
  ss_remote :: string
  ss_created :: int
  ss_streams :: "64 word"
  ss_closed :: bool
  ss_opens :: "(gerror + conn) list"
  ss_dropped :: "conn list"

record server =
  sv_Config :: Config
  sv_sessions :: "nat list"
  sv_poolIdx :: "64 word"
  sv_heap :: "nat \<Rightarrow> serverSession"

definition upd_session :: "nat \<Rightarrow> (serverSession \<Rightarrow> serverSession) \<Rightarrow> server \<Rightarrow> server" where
  "upd_session x f s = s\<lparr>sv_heap := (sv_heap s)(x := f (sv_heap s x))\<rparr>"

definition addStreams :: "nat \<Rightarrow> int \<Rightarrow> server \<Rightarrow> server" where
  "addStreams x d = upd_session x (\<lambda>ss. ss\<lparr>ss_streams := ss_streams ss + word_of_int d\<rparr>)"

definition closeSess :: "nat \<Rightarrow> server \<Rightarrow> server" where
  "closeSess x = upd_session x (\<lambda>ss. ss\<lparr>ss_closed := True\<rparr>)"

definition dropStream :: "nat \<Rightarrow> conn \<Rightarrow> server \<Rightarrow> server" where
  "dropStream x stream = upd_session x (\<lambda>ss. ss\<lparr>ss_dropped := ss_dropped ss @ [conn_close stream]\<rparr>)"

definition addSession :: "nat \<Rightarrow> server \<Rightarrow> server" where
  "addSession x s = s\<lparr>sv_sessions := sv_sessions s @ [x]\<rparr>"

definition removeSession :: "nat \<Rightarrow> server \<Rightarrow> server" where
  "removeSession x s = s\<lparr>sv_sessions := remove_session x (sv_sessions s)\<rparr>"

definition poolSize :: "server \<Rightarrow> nat" where
  "poolSize s = length (sv_sessions s)"

text \<open>One tick of \<open>healthMonitor\<close>. \<open>Close\<close> on a closed session changes nothing.\<close>

definition healthMonitor_tick :: "server \<Rightarrow> server" where
  "healthMonitor_tick s =
     s\<lparr>sv_sessions := fst (keep_alive (\<lambda>x. ss_closed (sv_heap s x)) (sv_sessions s) [] 0)\<rparr>"

interpretation srv_pool: session_pool sv_sessions "\<lambda>s x. ss_closed (sv_heap s x)" addSession
    removeSession healthMonitor_tick
  by unfold_locales
    (auto simp: addSession_def removeSession_def healthMonitor_tick_def remove_session_eq keep_alive_eq)

section \<open>openReverseStream\<close>

text \<open>The round robin over \<open>idx := (startIdx + i) % n\<close>: the first open session below the limit.\<close>

fun pick_session :: "server \<Rightarrow> int \<Rightarrow> nat list \<Rightarrow> nat option outcome" where
  "pick_session s startIdx [] = Return None"
| "pick_session s startIdx (i # is) =
     (let idx = go_rem (startIdx + int i) (int (length (sv_sessions s)))
      in if idx < 0 then Panic IndexRange
         else
           let x = sv_sessions s ! nat idx; ss = sv_heap s x
           in if ss_closed ss \<or> sint (ss_streams ss) \<ge> adv_MaxStreamsPerSession (Advanced (sv_Config s))
              then pick_session s startIdx is
              else Return (Some x))"

fun least_loaded :: "(nat \<Rightarrow> serverSession) \<Rightarrow> nat list \<Rightarrow> nat option \<Rightarrow> int \<Rightarrow> nat option" where
  "least_loaded h [] best bestLoad = best"
| "least_loaded h (x # xs) best bestLoad =
     (if \<not> ss_closed (h x) \<and> sint (ss_streams (h x)) < bestLoad
      then least_loaded h xs (Some x) (sint (ss_streams (h x)))
      else least_loaded h xs best bestLoad)"

definition leastLoadedSession :: "server \<Rightarrow> nat option" where
  "leastLoadedSession s = least_loaded (sv_heap s) (sv_sessions s) None (2 ^ 63 - 1)"

definition smux_OpenStream :: "nat \<Rightarrow> server \<Rightarrow> (gerror + conn) \<times> server" where
  "smux_OpenStream x s =
     (case ss_opens (sv_heap s x) of
       [] \<Rightarrow> (Inl (Errorf ''io: read/write on closed pipe''), s)
     | r # rs \<Rightarrow> (r, upd_session x (\<lambda>ss. ss\<lparr>ss_opens := rs\<rparr>) s))"

definition choose_session :: "server \<Rightarrow> (nat option \<times> server) outcome" where
  "choose_session s =
     (let n = int (length (sv_sessions s));
          s = s\<lparr>sv_poolIdx := sv_poolIdx s + 1\<rparr>;
          startIdx = go_rem (sint (sv_poolIdx s)) n
      in obind (pick_session s startIdx [0..<length (sv_sessions s)]) (\<lambda>best.
           Return (case best of Some x \<Rightarrow> (Some x, s) | None \<Rightarrow> (leastLoadedSession s, s))))"

definition openReverseStream :: "server \<Rightarrow> string \<Rightarrow> ((gerror + conn \<times> nat) \<times> server) outcome" where
  "openReverseStream s target =
     (if sv_sessions s = [] then Return (Inl (Errorf ''no sessions''), s)
      else obind (choose_session s) (\<lambda>(best, s).
        case best of
          None \<Rightarrow> Return (Inl (Errorf ''all sessions full''), s)
        | Some x \<Rightarrow>
            (case smux_OpenStream x s of
              (Inl e, s) \<Rightarrow> Return (Inl (Wrap ''open stream'' e), closeSess x (removeSession x s))
            | (Inr stream, s) \<Rightarrow>
                let s = addStreams x 1 s
                in case reverse_header stream target of
                     (Some e, stream) \<Rightarrow> Return (Inl e, addStreams x (-1) (dropStream x stream s))
                   | (None, stream) \<Rightarrow> Return (Inr (stream, x), s))))"

section \<open>Laws of the choice\<close>

definition usable :: "server \<Rightarrow> nat \<Rightarrow> bool" where
  "usable s x \<longleftrightarrow> \<not> ss_closed (sv_heap s x) \<and>
     sint (ss_streams (sv_heap s x)) < adv_MaxStreamsPerSession (Advanced (sv_Config s))"

lemma pick_session_find:
  assumes "0 \<le> start" and "sv_sessions s \<noteq> []"
  shows "pick_session s start is =
    Return (find (usable s) (map (\<lambda>i. sv_sessions s ! ((nat start + i) mod length (sv_sessions s))) is))"
proof (induction "is")
  case Nil
  then show ?case by simp
next
  case (Cons i "is")
  have "nat (go_rem (start + int i) (int (length (sv_sessions s)))) = (nat start + i) mod length (sv_sessions s)"
    using assms by (simp add: go_rem_nonneg nat_mod_distrib nat_add_distrib)
  moreover have "0 \<le> go_rem (start + int i) (int (length (sv_sessions s)))"
    using assms by (simp add: go_rem_nonneg)
  ultimately show ?case using Cons.IH by (auto simp: usable_def Let_def)
qed

lemma map_rotate: "xs \<noteq> [] \<Longrightarrow> map (\<lambda>i. xs ! ((k + i) mod length xs)) [0..<length xs] = rotate k xs"
  by (rule nth_equalityI) (simp_all add: nth_rotate)

text \<open>Loads stay below the largest \<open>int64\<close>, where the search starts.\<close>

definition loads_small :: "server \<Rightarrow> bool" where
  "loads_small s \<longleftrightarrow> (\<forall>x \<in> set (sv_sessions s). sint (ss_streams (sv_heap s x)) < 2 ^ 63 - 1)"

lemma least_loaded_spec:
  assumes "\<forall>x \<in> set xs. sint (ss_streams (h x)) < 2 ^ 63 - 1"
    and "\<And>b. best = Some b \<Longrightarrow> l = sint (ss_streams (h b)) \<and> \<not> ss_closed (h b)" and "best = None \<Longrightarrow> l = 2 ^ 63 - 1"
  shows "(least_loaded h xs best l = None \<longleftrightarrow> best = None \<and> (\<forall>x \<in> set xs. ss_closed (h x))) \<and>
    (\<forall>x. least_loaded h xs best l = Some x \<longrightarrow> \<not> ss_closed (h x) \<and> (best = Some x \<or> x \<in> set xs) \<and>
       sint (ss_streams (h x)) \<le> l \<and> (\<forall>y \<in> set xs. \<not> ss_closed (h y) \<longrightarrow> sint (ss_streams (h x)) \<le> sint (ss_streams (h y))))"
  using assms
proof (induction xs arbitrary: best l)
  case Nil
  then show ?case by auto
next
  case (Cons x xs)
  show ?case
  proof (cases "\<not> ss_closed (h x) \<and> sint (ss_streams (h x)) < l")
    case True
    with Cons.IH [of "Some x" "sint (ss_streams (h x))"] Cons.prems(1) show ?thesis by (auto intro: order_trans)
  next
    case False
    with Cons.IH [of best l] Cons.prems show ?thesis by (auto intro: order_trans)
  qed
qed

lemma leastLoadedSession_spec:
  assumes "loads_small s"
  shows "(leastLoadedSession s = None \<longleftrightarrow> (\<forall>x \<in> set (sv_sessions s). ss_closed (sv_heap s x))) \<and>
    (\<forall>x. leastLoadedSession s = Some x \<longrightarrow> x \<in> set (sv_sessions s) \<and> \<not> ss_closed (sv_heap s x) \<and>
       (\<forall>y \<in> set (sv_sessions s). \<not> ss_closed (sv_heap s y) \<longrightarrow> sint (ss_streams (sv_heap s x)) \<le> sint (ss_streams (sv_heap s y))))"
  using least_loaded_spec [of "sv_sessions s" "sv_heap s" None "2 ^ 63 - 1"] assms
  by (auto simp: loads_small_def leastLoadedSession_def)

definition bump :: "server \<Rightarrow> server" where
  "bump s = s\<lparr>sv_poolIdx := sv_poolIdx s + 1\<rparr>"

lemma bump_sel [simp]:
  "sv_sessions (bump s) = sv_sessions s" "sv_heap (bump s) = sv_heap s" "sv_Config (bump s) = sv_Config s"
  "usable (bump s) = usable s" "loads_small (bump s) = loads_small s"
  "leastLoadedSession (bump s) = leastLoadedSession s"
  by (auto simp: bump_def usable_def loads_small_def leastLoadedSession_def)

definition idx_ok :: "server \<Rightarrow> bool" where
  "idx_ok s \<longleftrightarrow> unat (sv_poolIdx s) < 2 ^ 63 - 1"

text \<open>A 64-bit counter read as a signed number after its next increment.\<close>

lemma sint_next:
  assumes "unat (x :: 64 word) < 2 ^ 63 - 1"
  shows "sint (x + 1) = int (unat x + 1)"
proof -
  define k where k: "k = int (unat x + 1)"
  have "unat x < 9223372036854775807" using assms by simp
  then have b: "0 \<le> k" "k < 9223372036854775808" unfolding k by linarith+
  have "x + 1 = word_of_int k" by (simp add: k)
  then have "sint (x + 1) = i64 k" by (simp add: i64_def signed_of_int)
  also have "\<dots> = k" using b by (intro i64_small) simp_all
  finally show ?thesis by (simp add: k)
qed

lemma sint_bump: "idx_ok s \<Longrightarrow> sint (sv_poolIdx s + 1) = int (unat (sv_poolIdx s) + 1)"
  by (rule sint_next) (simp add: idx_ok_def)

text \<open>The order in which the next call tries the sessions.\<close>

definition try_order :: "server \<Rightarrow> nat list" where
  "try_order s = rotate (unat (sv_poolIdx s) + 1) (sv_sessions s)"

lemma choose_session_eq:
  assumes "idx_ok s" and "sv_sessions s \<noteq> []"
  shows "choose_session s = Return
    (case find (usable s) (try_order s) of Some x \<Rightarrow> Some x | None \<Rightarrow> leastLoadedSession s, bump s)"
proof -
  let ?n = "length (sv_sessions s)"
  have g: "go_rem (sint (sv_poolIdx s + 1)) (int ?n) = int ((unat (sv_poolIdx s) + 1) mod ?n)"
    using sint_bump [OF assms(1)] by (simp add: go_rem_nonneg zmod_int)
  have "pick_session (bump s) (int ((unat (sv_poolIdx s) + 1) mod ?n)) [0..<?n] =
      Return (find (usable s) (rotate ((unat (sv_poolIdx s) + 1) mod ?n) (sv_sessions s)))"
    using pick_session_find [of "int ((unat (sv_poolIdx s) + 1) mod ?n)" "bump s" "[0..<?n]"] assms(2)
      map_rotate [OF assms(2)] by simp
  then show ?thesis
    unfolding choose_session_def try_order_def Let_def bump_def [symmetric]
    using g by (simp add: bump_def leastLoadedSession_def rotate_conv_mod [symmetric] split: option.split)
qed

lemma set_try_order [simp]: "set (try_order s) = set (sv_sessions s)"
  by (simp add: try_order_def)

end
