(* ===== verification/ConfigProps.thy ===== *)
theory ConfigProps
  imports ConfigLoad Psk Utils
begin

text \<open>
  The properties of the configuration: every loaded configuration is in range (and gives a
  connection the settings its round trip needs).
\<close>

section \<open>Ranges\<close>

definition smux_pos :: "SmuxConfig \<Rightarrow> bool" where
  "smux_pos s \<longleftrightarrow> 0 < sm_KeepAlive s \<and> 0 < sm_MaxRecv s \<and> 0 < sm_MaxStream s \<and>
     0 < sm_FrameSize s \<and> 0 < sm_Version s"

definition adv_pos :: "AdvancedConfig \<Rightarrow> bool" where
  "adv_pos a \<longleftrightarrow> adv_TCPNoDelay a \<and> 0 < adv_TCPKeepAlive a \<and> 0 < adv_TCPReadBuffer a \<and>
     0 < adv_TCPWriteBuffer a \<and> 0 < adv_CleanupInterval a \<and> 0 < adv_ConnectionTimeout a \<and>
     0 < adv_StreamTimeout a \<and> 0 < adv_MaxConnections a \<and> 0 < adv_MaxUDPFlows a \<and>
     0 < adv_UDPFlowTimeout a \<and> 0 < adv_UDPBufferSize a \<and> 0 < adv_MaxStreamsPerSession a"

definition stealth_pos :: "StealthConfig \<Rightarrow> bool" where
  "stealth_pos s \<longleftrightarrow> 0 < st_MinPadding s \<and> 0 < st_MaxPadding s \<and> 0 < st_KeepaliveJitter s \<and>
     0 < st_ConnJitterMS s \<and> 0 < st_MaxBurstSize s \<and> 0 < st_FakeTrafficInterval s"

definition fragment_pos :: "FragmentConfig \<Rightarrow> bool" where
  "fragment_pos f \<longleftrightarrow> 0 < fr_MinSize f \<and> 0 < fr_MaxSize f \<and> 0 < fr_MinDelay f \<and> 0 < fr_MaxDelay f"

definition path_pos :: "PathConfig \<Rightarrow> bool" where
  "path_pos p \<longleftrightarrow> 0 < pa_ConnectionPool p \<and> 0 < pa_RetryInterval p \<and> 0 < pa_DialTimeout p"

definition based :: "Config \<Rightarrow> bool" where
  "based c \<longleftrightarrow> Profile c \<noteq> [] \<and> 0 < Heartbeat c \<and> 0 < SessionTimeout c \<and> 0 < NumConnections c \<and>
     0 < DecoyInterval c \<and> smux_pos (Smux c) \<and> adv_pos (Advanced c) \<and> stealth_pos (Stealth c) \<and>
     fragment_pos (Fragment c) \<and> 0 < oc_MinPadding (Obfuscation c) \<and> 0 < oc_MaxPadding (Obfuscation c) \<and>
     hm_FakeDomain (HTTPMimic c) \<noteq> [] \<and> hm_UserAgent (HTTPMimic c) \<noteq> [] \<and> hm_SessionCookie (HTTPMimic c) \<and>
     (Mode c = ''server'' \<longrightarrow> ListenPorts c \<noteq> [])"

definition synced :: "Config \<Rightarrow> bool" where
  "synced c \<longleftrightarrow> 0 < ob_MinPadding (Obfs c) \<and> 0 < ob_MaxPadding (Obfs c) \<and>
     mi_FakeDomain (Mimic c) \<noteq> [] \<and> mi_UserAgent (Mimic c) \<noteq> [] \<and> mi_SessionCookie (Mimic c)"

lemmas pos_defs = smux_pos_def adv_pos_def stealth_pos_def fragment_pos_def path_pos_def

lemma merge_listen_sel [simp]:
  "Profile (merge_listen c) = Profile c" "Heartbeat (merge_listen c) = Heartbeat c"
  "SessionTimeout (merge_listen c) = SessionTimeout c" "NumConnections (merge_listen c) = NumConnections c"
  "DecoyInterval (merge_listen c) = DecoyInterval c" "Smux (merge_listen c) = Smux c"
  "Advanced (merge_listen c) = Advanced c" "Stealth (merge_listen c) = Stealth c"
  "Fragment (merge_listen c) = Fragment c" "Obfuscation (merge_listen c) = Obfuscation c"
  "HTTPMimic (merge_listen c) = HTTPMimic c" "Mode (merge_listen c) = Mode c"
  "Paths (merge_listen c) = Paths c" "Maps (merge_listen c) = Maps c" "forward (merge_listen c) = forward c"
  "Mimic (merge_listen c) = Mimic c" "Obfs (merge_listen c) = Obfs c" "Transport (merge_listen c) = Transport c"
  "ConfigVersion (merge_listen c) = ConfigVersion c" "ServerURL (merge_listen c) = ServerURL c"
  "PSK (merge_listen c) = PSK c"
  by (simp_all add: merge_listen_def Let_def)

lemma merge_listen_ports: "Mode c = ''server'' \<Longrightarrow> ListenPorts (merge_listen c) \<noteq> []"
  by (simp add: merge_listen_def Let_def)

lemma applyBaseDefaults_based: "based (applyBaseDefaults c)"
  using merge_listen_ports
  by (simp add: based_def applyBaseDefaults_def pos_defs smux_defaults_def advanced_defaults_def
      stealth_defaults_def fragment_defaults_def httpmimic_defaults_def str_or_def mimic_UA_def)

lemma map_path_pos:
  "path_pos (speed_path p)" "path_pos (gaming_path p)" "path_pos (streaming_path p)"
  "path_pos (lowcpu_path p)" "path_pos (balanced_path p)"
  by (auto simp: path_pos_def speed_path_def gaming_path_def streaming_path_def lowcpu_path_def
      balanced_path_def)

lemma applyProfile_based: "based c \<Longrightarrow> based (applyProfile c) \<and> list_all path_pos (Paths (applyProfile c))"
  by (auto simp: based_def applyProfile_def Let_def smux_pos_def adv_pos_def
      stealth_pos_def no_chunks_def no_delay_def list_all_iff map_path_pos)

lemma syncAliases_based: "based c \<Longrightarrow> based (syncAliases bm c) \<and> synced (syncAliases bm c)"
  by (simp add: based_def syncAliases_def synced_def sync_mimic_def sync_obfs_def str_or_def pos_or_def)

lemma convertMapsToForward_based:
  "based c \<Longrightarrow> based (convertMapsToForward c)" "Paths (convertMapsToForward c) = Paths c"
  by (simp_all add: based_def convertMapsToForward_def)

lemma prepare_based: "based (prepare bm c) \<and> synced (prepare bm c) \<and> list_all path_pos (Paths (prepare bm c))"
  using syncAliases_based [OF convertMapsToForward_based(1) [OF applyProfile_based [THEN conjunct1,
      OF applyBaseDefaults_based [of "trim_config c"]]], of bm]
    applyProfile_based [OF applyBaseDefaults_based [of "trim_config c"]]
  by (simp add: prepare_def syncAliases_def convertMapsToForward_based(2))

lemma migrate_v1_based:
  "based c \<Longrightarrow> based (migrate_v1 c)" "synced c \<Longrightarrow> synced (migrate_v1 c)" "Paths (migrate_v1 c) = Paths c"
  by (simp_all add: based_def synced_def migrate_v1_def migrate_smux_def smux_pos_def adv_pos_def
      stealth_pos_def)

lemma version_based [simp]:
  "based (c\<lparr>ConfigVersion := v\<rparr>) = based c" "synced (c\<lparr>ConfigVersion := v\<rparr>) = synced c"
  by (simp_all add: based_def synced_def)

definition config_ok :: "Config \<Rightarrow> bool" where
  "config_ok c \<longleftrightarrow> based c \<and> synced c \<and> list_all path_pos (Paths c) \<and> 2 \<le> ConfigVersion c"

lemma migrateConfig_ok:
  assumes "based c \<and> synced c \<and> list_all path_pos (Paths c)"
  shows "config_ok (fst (migrateConfig y c path s))"
  using assms migrate_v1_based
  by (auto simp: migrateConfig_def config_ok_def CurrentConfigVersion_def Let_def)

lemma LoadConfig_Inr:
  assumes "LoadConfig y bm path s = (Inr c, s')"
  obtains b c0 where "fs_files s path = Inr b" "yaml_Unmarshal y b = Inr c0"
    "migrateConfig y (prepare bm c0) path s = (c, s')"
  using assms by (auto simp: LoadConfig_def split: sum.splits prod.splits)

lemma loaded_config_ok: "LoadConfig y bm path s = (Inr c, s') \<Longrightarrow> config_ok c"
  using LoadConfig_Inr migrateConfig_ok [OF prepare_based] by (metis fst_conv)

definition zero_smux :: SmuxConfig where
  "zero_smux = \<lparr>sm_KeepAlive = 0, sm_MaxRecv = 0, sm_MaxStream = 0, sm_FrameSize = 0, sm_Version = 0\<rparr>"

definition zero_config :: Config where
  "zero_config = \<lparr>ConfigVersion = 0, Mode = [], Listen = [], Transport = [], PSK = [], Profile = [],
     Verbose = False, CertFile = [], KeyFile = [], MaxSessions = 0, Heartbeat = 0, NumConnections = 0,
     EnableDecoy = False, DecoyInterval = 0, EmbedFakeHeaders = False, ListenPorts = [], Maps = [],
     Paths = [], Smux = zero_smux,
     KCP = \<lparr>kcp_NoDelay = 0, kcp_Interval = 0, kcp_Resend = 0, kcp_NC = 0, kcp_SndWnd = 0,
       kcp_RcvWnd = 0, kcp_MTU = 0\<rparr>,
     Advanced = \<lparr>adv_TCPNoDelay = False, adv_TCPKeepAlive = 0, adv_TCPReadBuffer = 0,
       adv_TCPWriteBuffer = 0, adv_WebSocketReadBuffer = 0, adv_WebSocketWriteBuffer = 0,
       adv_WebSocketCompression = False, adv_CleanupInterval = 0, adv_SessionTimeout = 0,
       adv_ConnectionTimeout = 0, adv_StreamTimeout = 0, adv_MaxConnections = 0, adv_MaxUDPFlows = 0,
       adv_UDPFlowTimeout = 0, adv_UDPBufferSize = 0, adv_MaxStreamsPerSession = 0\<rparr>,
     Obfuscation = \<lparr>oc_Enabled = False, oc_MinPadding = 0, oc_MaxPadding = 0, oc_MinDelayMS = 0,
       oc_MaxDelayMS = 0, oc_BurstChance = 0\<rparr>,
     HTTPMimic = \<lparr>hm_FakeDomain = [], hm_FakePath = [], hm_UserAgent = [], hm_ChunkedEncoding = False,
       hm_SessionCookie = False, hm_CustomHeaders = []\<rparr>,
     Fragment = \<lparr>fr_Enabled = False, fr_MinSize = 0, fr_MaxSize = 0, fr_MinDelay = 0, fr_MaxDelay = 0\<rparr>,
     Stealth = \<lparr>st_RandomPadding = False, st_MinPadding = 0, st_MaxPadding = 0, st_KeepaliveJitter = 0,
       st_ConnJitterMS = 0, st_BurstSplit = False, st_MaxBurstSize = 0, st_FakeTraffic = False,
       st_FakeTrafficInterval = 0\<rparr>,
     ServerURL = [], SessionID = [], forward = \<lparr>fw_TCP = [], fw_UDP = []\<rparr>,
     Mimic = \<lparr>mi_FakeDomain = [], mi_FakePath = [], mi_UserAgent = [], mi_CustomHeaders = [],
       mi_SessionCookie = False, mi_Chunked = False\<rparr>,
     Obfs = \<lparr>ob_Enabled = False, ob_MinPadding = 0, ob_MaxPadding = 0, ob_MinDelayMS = 0,
       ob_MaxDelayMS = 0, ob_BurstChance = 0\<rparr>,
     SessionTimeout = 0\<rparr>"

text \<open>A codec for the witnesses, on files of one byte: the configuration version is the byte and
  the rest is a given configuration.\<close>

definition demo_yaml :: "Config \<Rightarrow> yamlcodec" where
  "demo_yaml c = \<lparr>yaml_Marshal = (\<lambda>d. Inr [word_of_int (ConfigVersion d)]),
     yaml_Unmarshal = (\<lambda>b. case b of [v] \<Rightarrow> Inr (c\<lparr>ConfigVersion := uint v\<rparr>)
       | _ \<Rightarrow> Inl (Errorf ''yaml''))\<rparr>"

definition demo_fs :: "byte \<Rightarrow> fs" where
  "demo_fs v = \<lparr>fs_files = (\<lambda>_. Inr [v]), fs_wfail = (\<lambda>_. None)\<rparr>"

lemma demo_LoadConfig:
  "LoadConfig (demo_yaml c) bm path (demo_fs v) =
     (let r = migrateConfig (demo_yaml c) (prepare bm (c\<lparr>ConfigVersion := uint v\<rparr>)) path (demo_fs v)
      in (Inr (fst r), snd r))"
  by (simp add: LoadConfig_def demo_yaml_def demo_fs_def Let_def split: prod.split)

lemmas prepare_defs = prepare_def syncAliases_def sync_obfs_def sync_mimic_def convertMapsToForward_def
  applyProfile_def no_delay_def no_chunks_def applyBaseDefaults_def merge_listen_def trim_config_def
  smux_defaults_def advanced_defaults_def stealth_defaults_def fragment_defaults_def
  httpmimic_defaults_def normalizePath_def str_or_def pos_or_def mimic_UA_def Let_def

lemmas string_eval = ToLower_def lower_def TrimSpace_def is_space_def HasPrefix_def

text \<open>
  C13. Every configuration \<open>LoadConfig\<close> returns, whatever was in the file, is in range: the
  version is at least 2; profile, mimicry domain and user agent are set; every size, timeout,
  interval, buffer, padding and pool bound that has a default is positive; in server mode there is
  a port to listen on.
\<close>

theorem loaded_config_in_range:
  assumes "LoadConfig y bm path s = (Inr c, s')"
  shows "2 \<le> ConfigVersion c \<and> Profile c \<noteq> [] \<and> 0 < Heartbeat c \<and> 0 < SessionTimeout c \<and>
    0 < NumConnections c \<and> 0 < DecoyInterval c \<and> smux_pos (Smux c) \<and> adv_pos (Advanced c) \<and>
    stealth_pos (Stealth c) \<and> fragment_pos (Fragment c) \<and> list_all path_pos (Paths c) \<and>
    0 < ob_MinPadding (Obfs c) \<and> 0 < ob_MaxPadding (Obfs c) \<and>
    mi_FakeDomain (Mimic c) \<noteq> [] \<and> mi_UserAgent (Mimic c) \<noteq> [] \<and>
    (Mode c = ''server'' \<longrightarrow> ListenPorts c \<noteq> [])"
  using loaded_config_ok [OF assms] by (auto simp: config_ok_def based_def synced_def)

theorem loaded_config_in_range_witness:
  "\<exists>c s'. LoadConfig (demo_yaml zero_config) (\<lambda>_. 0) ''f'' (demo_fs 0) = (Inr c, s') \<and>
     2 \<le> ConfigVersion c \<and> smux_pos (Smux c)"
proof -
  obtain c s' where "LoadConfig (demo_yaml zero_config) (\<lambda>_. 0) ''f'' (demo_fs 0) = (Inr c, s')"
    unfolding demo_LoadConfig Let_def by blast
  with loaded_config_in_range [OF this] show ?thesis by blast
qed

text \<open>
  C31. With paddings of at most 8 MB, every connection made from a loaded configuration, as client
  and server make it, has settings the round trip of the tunnel holds for, whatever the key.
\<close>

theorem loaded_config_connection_good:
  assumes "LoadConfig y bm path s = (Inr c, s')" and "lib_ok lib"
    and "NewEncryptedConn lib cn (PSK c) (Some (Obfs c)) [Some (Stealth c)] = Inr ec"
    and "ob_MinPadding (Obfs c) \<le> 8388608" "ob_MaxPadding (Obfs c) \<le> 8388608"
    and "st_MinPadding (Stealth c) \<le> 8388608" "st_MaxPadding (Stealth c) \<le> 8388608"
  shows "enc_good ec \<and> obfs_on ec = (if ob_Enabled (Obfs c) then Some (Obfs c) else None) \<and>
    stealth_on ec = (if st_RandomPadding (Stealth c) then Some (Stealth c) else None)"
proof -
  have ec: "ec_obfs ec = Some (Obfs c)" "ec_stealth ec = Some (Stealth c)"
    using assms(3) by (auto simp: NewEncryptedConn_def Let_def split: if_splits sum.splits)
  have g: "case ec_gcm ec of None \<Rightarrow> True | Some g \<Rightarrow> aead_ok g"
    using assms(2,3) by (auto simp: NewEncryptedConn_def lib_ok_def Let_def split: if_splits sum.splits)
  have "0 < ob_MinPadding (Obfs c)" "0 < ob_MaxPadding (Obfs c)"
      "0 < st_MinPadding (Stealth c)" "0 < st_MaxPadding (Stealth c)"
    using loaded_config_ok [OF assms(1)] by (auto simp: config_ok_def based_def synced_def stealth_pos_def)
  with ec g assms(4-) show ?thesis
    by (simp add: enc_good_def obfs_on_def stealth_on_def obfs_good_def stealth_good_def pad_range_def)
qed

theorem loaded_config_connection_good_witness:
  "\<exists>c s' ec. LoadConfig (demo_yaml zero_config) (\<lambda>_. 0) ''f'' (demo_fs 2) = (Inr c, s') \<and>
     NewEncryptedConn demo_lib (new_conn []) (PSK c) (Some (Obfs c)) [Some (Stealth c)] = Inr ec \<and>
     enc_good ec"
proof -
  let ?c = "prepare (\<lambda>_. 0) (zero_config\<lparr>ConfigVersion := 2\<rparr>)"
  have "ConfigVersion ?c = 2" "PSK ?c = []" "ob_MinPadding (Obfs ?c) = 16" "ob_MaxPadding (Obfs ?c) = 64"
      "st_MinPadding (Stealth ?c) = 16" "st_MaxPadding (Stealth ?c) = 128"
    by (simp_all add: prepare_defs string_eval zero_config_def zero_smux_def)
  then have "LoadConfig (demo_yaml zero_config) (\<lambda>_. 0) ''f'' (demo_fs 2) = (Inr ?c, demo_fs 2)"
    by (simp add: demo_LoadConfig migrateConfig_def CurrentConfigVersion_def)
  moreover obtain ec where
      "NewEncryptedConn demo_lib (new_conn []) (PSK ?c) (Some (Obfs ?c)) [Some (Stealth ?c)] = Inr ec"
    using \<open>PSK ?c = []\<close> by (simp add: NewEncryptedConn_def)
  ultimately show ?thesis
    using loaded_config_connection_good [OF _ lib_ok_demo]
      \<open>ob_MinPadding (Obfs ?c) = 16\<close> \<open>ob_MaxPadding (Obfs ?c) = 64\<close>
      \<open>st_MinPadding (Stealth ?c) = 16\<close> \<open>st_MaxPadding (Stealth ?c) = 128\<close> by fastforce
qed

end
