(* ===== verification/PoolProps.thy ===== *)
theory PoolProps
  imports Pool ConfigProps
begin

text \<open>
  The properties of the server's pool: which session a reverse stream is opened on, what happens to
  the pool and its counters on every path, and when the choice goes wrong.
\<close>

section \<open>openReverseStream on every path\<close>

lemma heap_upd [simp]:
  "sv_heap (upd_session x f s) y = (if y = x then f (sv_heap s x) else sv_heap s y)"
  "sv_sessions (upd_session x f s) = sv_sessions s" "sv_Config (upd_session x f s) = sv_Config s"
  by (simp_all add: upd_session_def)

lemma removeSession_sel [simp]:
  "sv_heap (removeSession x s) = sv_heap s" "sv_Config (removeSession x s) = sv_Config s"
  by (simp_all add: removeSession_def)

definition counts :: "server \<Rightarrow> nat \<Rightarrow> int" where
  "counts s x = sint (ss_streams (sv_heap s x))"

lemma i64_sint: "sint ((w :: 64 word) + word_of_int d) = i64 (sint w + d)"
proof -
  have "w + word_of_int d = word_of_int (sint w + d)" by simp
  then show ?thesis by (simp only: i64_def signed_of_int) simp
qed

lemma counts_simps [simp]:
  "counts (addStreams x d s) = (counts s)(x := i64 (counts s x + d))"
  "counts (closeSess x s) = counts s" "counts (removeSession x s) = counts s" "counts (bump s) = counts s"
  "counts (dropStream x c s) = counts s"
  by (auto simp: counts_def addStreams_def closeSess_def dropStream_def i64_sint)

lemma i64_counts [simp]: "i64 (counts s x) = counts s x"
  using i64_sint [of "ss_streams (sv_heap s x)" 0] by (simp add: counts_def)

lemma i64_again [simp]: "i64 (i64 a + d) = i64 (a + d)" "i64 (i64 a - d) = i64 (a - d)" "i64 (d + i64 a) = i64 (d + a)"
proof -
  have "i64 (i64 a + d) = i64 (a + d)" for d
  proof -
    have "sint (word_of_int a :: 64 word) = i64 a" by (simp add: i64_def signed_of_int)
    then have "i64 (i64 a + d) = sint (word_of_int a + word_of_int d :: 64 word)"
      using i64_sint [of "word_of_int a" d] by simp
    also have "\<dots> = sint (word_of_int (a + d) :: 64 word)" by simp
    also have "\<dots> = i64 (a + d)" by (simp only: i64_def signed_of_int) simp
    finally show ?thesis .
  qed
  from this [of d] this [of "- d"] show "i64 (i64 a + d) = i64 (a + d)" "i64 (i64 a - d) = i64 (a - d)"
    "i64 (d + i64 a) = i64 (d + a)" by (simp_all add: add.commute)
qed

text \<open>Counting up and down again, and counting up below the largest \<open>int64\<close>.\<close>

lemma counts_back [simp]: "counts (addStreams x (-1) (dropStream x c (addStreams x 1 s))) = counts s"
  by (auto simp: counts_def addStreams_def dropStream_def)

lemma counts_up: "counts s x < 2 ^ 63 - 1 \<Longrightarrow> i64 (counts s x + 1) = counts s x + 1"
  using sint_ge [of "ss_streams (sv_heap s x)"] by (intro i64_small) (simp_all add: counts_def)

lemma smux_OpenStream_spec:
  assumes "smux_OpenStream x s = (r, s')"
  shows "sv_sessions s' = sv_sessions s \<and> counts s' = counts s \<and> sv_poolIdx s' = sv_poolIdx s \<and>
    (\<forall>y. ss_closed (sv_heap s' y) = ss_closed (sv_heap s y) \<and> ss_dropped (sv_heap s' y) = ss_dropped (sv_heap s y)) \<and>
    (case r of Inr c \<Rightarrow> \<exists>rs. ss_opens (sv_heap s x) = Inr c # rs | Inl _ \<Rightarrow> True)"
  using assms
  by (cases r) (auto simp: smux_OpenStream_def counts_def upd_session_def split: list.splits if_splits)

lemma addStreams_sel [simp]:
  "sv_sessions (addStreams x d s) = sv_sessions s" "sv_sessions (closeSess x s) = sv_sessions s"
  "sv_sessions (dropStream x c s) = sv_sessions s"
  "ss_closed (sv_heap (addStreams x d s) y) = ss_closed (sv_heap s y)"
  "ss_closed (sv_heap (dropStream x c s) y) = ss_closed (sv_heap s y)"
  "ss_dropped (sv_heap (addStreams x d s) y) = ss_dropped (sv_heap s y)"
  "ss_dropped (sv_heap (dropStream x c s) y) = ss_dropped (sv_heap s y) @ (if y = x then [conn_close c] else [])"
  by (simp_all add: addStreams_def closeSess_def dropStream_def)

text \<open>The session the code is after, as a specification: the next usable one, else the least loaded.\<close>

definition wanted :: "server \<Rightarrow> nat option" where
  "wanted s = (case find (usable s) (try_order s) of Some x \<Rightarrow> Some x | None \<Rightarrow> leastLoadedSession s)"

lemma openReverseStream_eq:
  assumes "idx_ok s" and "sv_sessions s \<noteq> []"
  shows "openReverseStream s t =
    (case wanted s of
      None \<Rightarrow> Return (Inl (Errorf ''all sessions full''), bump s)
    | Some x \<Rightarrow>
        (case smux_OpenStream x (bump s) of
          (Inl e, s') \<Rightarrow> Return (Inl (Wrap ''open stream'' e), closeSess x (removeSession x s'))
        | (Inr stream, s') \<Rightarrow>
            (case reverse_header stream t of
              (Some e, stream) \<Rightarrow> Return (Inl e, addStreams x (-1) (dropStream x stream (addStreams x 1 s')))
            | (None, stream) \<Rightarrow> Return (Inr (stream, x), addStreams x 1 s'))))"
  using assms(2) unfolding openReverseStream_def choose_session_eq [OF assms] wanted_def Let_def
  by simp

lemma wanted_spec:
  assumes "loads_small s"
  shows "(wanted s = None \<longleftrightarrow> (\<forall>x \<in> set (sv_sessions s). ss_closed (sv_heap s x))) \<and>
    (\<forall>x. wanted s = Some x \<longrightarrow> x \<in> set (sv_sessions s) \<and> \<not> ss_closed (sv_heap s x) \<and>
      (if \<exists>y \<in> set (sv_sessions s). usable s y then usable s x
       else \<forall>y \<in> set (sv_sessions s). \<not> ss_closed (sv_heap s y) \<longrightarrow> counts s x \<le> counts s y))"
proof (cases "find (usable s) (try_order s)")
  case None
  then have "\<not> (\<exists>y \<in> set (sv_sessions s). usable s y)" by (auto simp: find_None_iff)
  with None leastLoadedSession_spec [OF assms] show ?thesis by (auto simp: wanted_def counts_def)
next
  case (Some x)
  then have "usable s x" "x \<in> set (sv_sessions s)"
    by (auto simp: find_Some_iff) (metis nth_mem set_try_order)
  with Some show ?thesis by (auto simp: wanted_def usable_def)
qed

text \<open>
  C7. A reverse stream that is opened goes to an open session of the pool: one below the stream
  limit when there is such a session, otherwise one with the fewest streams. Its counter goes up by
  one, no other counter and no session changes, and the type tag and target are on the stream.
\<close>

theorem reverse_stream_choice:
  assumes "openReverseStream s t = Return (Inr (stream, x), s')" and "idx_ok s" and "loads_small s"
  shows "x \<in> set (sv_sessions s) \<and> \<not> ss_closed (sv_heap s x) \<and>
    (if \<exists>y \<in> set (sv_sessions s). usable s y then usable s x
     else \<forall>y \<in> set (sv_sessions s). \<not> ss_closed (sv_heap s y) \<longrightarrow> counts s x \<le> counts s y) \<and>
    sv_sessions s' = sv_sessions s \<and> counts s' = (counts s)(x := counts s x + 1) \<and>
    (\<exists>c rs. ss_opens (sv_heap s x) = Inr c # rs \<and>
       tx stream = tx c @ StreamTypeReverse # put16 (word_of_nat (length t)) @ bytes_of t)"
proof -
  have ne: "sv_sessions s \<noteq> []" using assms(1) by (auto simp: openReverseStream_def)
  note eq = openReverseStream_eq [OF assms(2) ne, of t]
  with assms(1) obtain y where y: "wanted s = Some y" by (cases "wanted s") auto
  obtain r s1 where o: "smux_OpenStream y (bump s) = (r, s1)" by (metis prod.collapse)
  from eq y o assms(1) obtain c where c: "r = Inr c" by (cases r) auto
  obtain h c' where h: "reverse_header c t = (h, c')" by (metis prod.collapse)
  from eq y o c h assms(1) have r: "h = None" "x = y" "stream = c'" "s' = addStreams y 1 s1"
    by (cases h; simp)+
  note w = wanted_spec [OF assms(3)]
  have "y \<in> set (sv_sessions s)" using w y by blast
  then have "i64 (counts s y + 1) = counts s y + 1"
    using assms(3) by (intro counts_up) (simp add: loads_small_def counts_def)
  with reverse_header_tx [OF h [unfolded r(1)]] w y smux_OpenStream_spec [OF o [unfolded c]] r
  show ?thesis by auto
qed

definition demo_session :: "bool \<Rightarrow> int \<Rightarrow> serverSession" where
  "demo_session cl n = \<lparr>ss_remote = [], ss_created = 0, ss_streams = word_of_int n, ss_closed = cl,
     ss_opens = [Inr (new_conn [])], ss_dropped = []\<rparr>"

definition demo_server :: "int \<Rightarrow> 64 word \<Rightarrow> server" where
  "demo_server mx i = \<lparr>sv_Config = zero_config\<lparr>Advanced := (Advanced zero_config)\<lparr>adv_MaxStreamsPerSession := mx\<rparr>\<rparr>,
     sv_sessions = [0, 1, 2], sv_poolIdx = i,
     sv_heap = (\<lambda>x. if x = 0 then demo_session True 0 else demo_session False (int x + 4))\<rparr>"

lemma demo_server_ok: "idx_ok (demo_server mx 0)" "loads_small (demo_server mx i)"
  by (simp_all add: idx_ok_def demo_server_def loads_small_def demo_session_def)

lemma demo_opens: "\<exists>stream x s'. openReverseStream (demo_server 3 0) ''tcp://h:1'' = Return (Inr (stream, x), s')"
proof -
  have w: "wanted (demo_server 3 0) = Some 1"
    by (simp add: wanted_def try_order_def demo_server_def usable_def demo_session_def leastLoadedSession_def
        rotate1_def)
  then show ?thesis
    using openReverseStream_eq [OF demo_server_ok(1), of 3 "''tcp://h:1''"]
    by (simp add: demo_server_def bump_def smux_OpenStream_def demo_session_def reverse_header_def
        conn_write_def new_conn_def Let_def)
qed

theorem reverse_stream_choice_witness:
  "\<exists>stream x s'. openReverseStream (demo_server 3 0) ''tcp://h:1'' = Return (Inr (stream, x), s') \<and>
     counts s' = (counts (demo_server 3 0))(x := counts (demo_server 3 0) x + 1)"
proof -
  obtain stream x s' where o: "openReverseStream (demo_server 3 0) ''tcp://h:1'' = Return (Inr (stream, x), s')"
    using demo_opens by blast
  from reverse_stream_choice [OF o demo_server_ok(1,2)] o show ?thesis by blast
qed

lemma smux_OpenStream_bump [simp]: "fst (smux_OpenStream x (bump s)) = fst (smux_OpenStream x s)"
  by (simp add: smux_OpenStream_def split: list.split)

text \<open>
  C34. A refused reverse stream leaves every counter as it was. It is refused without touching a
  session only when none in the pool is open. Otherwise the session it is after was open, and either
  smux's error is wrapped and exactly this session is evicted and closed, or the error of writing
  tag and target on the stream smux gave is returned, that stream is closed and the pool is kept. No
  other session is tried.
\<close>

theorem reverse_stream_refused:
  assumes "openReverseStream s t = Return (Inl e, s')" and "idx_ok s" and "loads_small s"
  shows "counts s' = counts s \<and>
    ((\<forall>x \<in> set (sv_sessions s). ss_closed (sv_heap s x)) \<and>
       e = Errorf (if sv_sessions s = [] then ''no sessions'' else ''all sessions full'') \<and>
       sv_sessions s' = sv_sessions s \<and> sv_heap s' = sv_heap s \<or>
     (\<exists>x \<in> set (sv_sessions s). wanted s = Some x \<and> \<not> ss_closed (sv_heap s x) \<and>
       ((\<exists>e'. fst (smux_OpenStream x s) = Inl e' \<and> e = Wrap ''open stream'' e' \<and>
           sv_sessions s' = remove1 x (sv_sessions s) \<and>
           (\<forall>y. ss_closed (sv_heap s' y) \<longleftrightarrow> y = x \<or> ss_closed (sv_heap s y))) \<or>
        (\<exists>stream left. fst (smux_OpenStream x s) = Inr stream \<and> reverse_header stream t = (Some e, left) \<and>
           ss_dropped (sv_heap s' x) = ss_dropped (sv_heap s x) @ [conn_close left] \<and>
           sv_sessions s' = sv_sessions s \<and> (\<forall>y. ss_closed (sv_heap s' y) = ss_closed (sv_heap s y))))))"
proof (cases "sv_sessions s = []")
  case True
  with assms(1) show ?thesis by (simp add: openReverseStream_def)
next
  case False
  note eq = openReverseStream_eq [OF assms(2) False, of t]
  show ?thesis
  proof (cases "wanted s")
    case None
    with eq assms(1) wanted_spec [OF assms(3)] False show ?thesis by auto
  next
    case (Some x)
    then have x: "x \<in> set (sv_sessions s)" "\<not> ss_closed (sv_heap s x)"
      using wanted_spec [OF assms(3)] by auto
    obtain r s1 where o: "smux_OpenStream x (bump s) = (r, s1)" by (metis prod.collapse)
    note sp = smux_OpenStream_spec [OF o]
    have f: "fst (smux_OpenStream x s) = r" using o smux_OpenStream_bump [of x s] by simp
    show ?thesis
    proof (cases r)
      case (Inl e1)
      with eq Some o assms(1) have r: "e = Wrap ''open stream'' e1" "s' = closeSess x (removeSession x s1)"
        by auto
      have "counts s' = counts s" using sp by (simp add: r)
      moreover have "\<forall>y. ss_closed (sv_heap s' y) \<longleftrightarrow> y = x \<or> ss_closed (sv_heap s y)"
        using sp by (simp add: r closeSess_def)
      moreover have "sv_sessions s' = remove1 x (sv_sessions s)"
        using sp by (simp add: r removeSession_def remove_session_eq)
      ultimately show ?thesis using x r(1) f Inl Some by blast
    next
      case (Inr c)
      obtain h c' where h: "reverse_header c t = (h, c')" by (metis prod.collapse)
      with eq Some o Inr assms(1) have r: "h = Some e" "s' = addStreams x (-1) (dropStream x c' (addStreams x 1 s1))"
        by (cases h; simp)+
      have "counts s' = counts s" "sv_sessions s' = sv_sessions s"
          "\<forall>y. ss_closed (sv_heap s' y) = ss_closed (sv_heap s y)"
          "ss_dropped (sv_heap s' x) = ss_dropped (sv_heap s x) @ [conn_close c']"
        using sp by (simp_all add: r)
      with h r(1) x f Inr Some show ?thesis by blast
    qed
  qed
qed

theorem reverse_stream_refused_witness:
  "\<exists>e s'. openReverseStream ((demo_server 3 0)\<lparr>sv_sessions := [0]\<rparr>) [] = Return (Inl e, s') \<and>
     counts s' = counts ((demo_server 3 0)\<lparr>sv_sessions := [0]\<rparr>)"
proof -
  let ?s = "(demo_server 3 0)\<lparr>sv_sessions := [0]\<rparr>"
  have ok: "idx_ok ?s" "loads_small ?s"
    by (simp_all add: idx_ok_def demo_server_def loads_small_def demo_session_def)
  have "wanted ?s = None" using wanted_spec [OF ok(2)] by (simp add: demo_server_def demo_session_def)
  then have "openReverseStream ?s [] = Return (Inl (Errorf ''all sessions full''), bump ?s)"
    using openReverseStream_eq [OF ok(1), of "[]"] by simp
  with reverse_stream_refused [OF this ok] show ?thesis by blast
qed

lemma reverse_header_ok: "write_ok c \<Longrightarrow> \<exists>c'. reverse_header c t = (None, c')"
proof -
  assume "write_ok c"
  then obtain c1 where "conn_write c [StreamTypeReverse] = ((1, None), c1)" "write_ok c1"
    using conn_write_ok [of c "[StreamTypeReverse]"] by auto
  moreover from this obtain c2 where "conn_write c1 (put16 (word_of_nat (length t)) @ bytes_of t) =
      ((2 + length t, None), c2)"
    using conn_write_ok [of c1 "put16 (word_of_nat (length t)) @ bytes_of t"] by auto
  ultimately show ?thesis
    using header_buffer [of "bytes_of t" "word_of_nat (length t)"]
    by (simp add: reverse_header_def Let_def)
qed

text \<open>
  C37. The stream limit of a session is only a preference: as long as one session of the pool is
  open, and open sessions take a new stream, a reverse stream is opened, whatever
  \<open>MaxStreamsPerSession\<close> is and however many streams the sessions carry.
\<close>

theorem reverse_stream_opened_above_limit:
  assumes "idx_ok s" and "loads_small s"
    and "x \<in> set (sv_sessions s)" and "\<not> ss_closed (sv_heap s x)"
    and "\<And>y. y \<in> set (sv_sessions s) \<Longrightarrow> \<not> ss_closed (sv_heap s y) \<Longrightarrow>
      \<exists>c rs. ss_opens (sv_heap s y) = Inr c # rs \<and> write_ok c"
  shows "\<exists>stream y s'. openReverseStream s t = Return (Inr (stream, y), s')"
proof -
  have ne: "sv_sessions s \<noteq> []" using assms(3) by auto
  have "wanted s \<noteq> None" using wanted_spec [OF assms(2)] assms(3,4) by blast
  then obtain y where y: "wanted s = Some y" by blast
  then have "y \<in> set (sv_sessions s)" "\<not> ss_closed (sv_heap s y)"
    using wanted_spec [OF assms(2)] by auto
  from assms(5) [OF this] obtain c rs where c: "ss_opens (sv_heap s y) = Inr c # rs" "write_ok c" by blast
  from reverse_header_ok [OF c(2)] obtain c' where "reverse_header c t = (None, c')" by blast
  with y c(1) show ?thesis
    unfolding openReverseStream_eq [OF assms(1) ne] by (simp add: smux_OpenStream_def)
qed

theorem reverse_stream_opened_above_limit_witness:
  "\<exists>stream y s'. openReverseStream (demo_server 1 0) ''tcp://h:1'' = Return (Inr (stream, y), s') \<and>
     (\<forall>x \<in> {1, 2}. adv_MaxStreamsPerSession (Advanced (sv_Config (demo_server 1 0))) < counts (demo_server 1 0) x)"
proof -
  have "\<exists>stream y s'. openReverseStream (demo_server 1 0) ''tcp://h:1'' = Return (Inr (stream, y), s')"
    by (rule reverse_stream_opened_above_limit [of _ 1])
      (simp_all add: demo_server_ok, auto simp: demo_server_def demo_session_def write_ok_def new_conn_def
        split: if_splits)
  then show ?thesis by (simp add: counts_def demo_server_def demo_session_def)
qed

text \<open>
  The round robin index is an unsigned counter read as a signed number: on the call that brings
  it to \<open>2^63\<close> the remainder is negative and the pool is indexed out of range, unless the number of
  sessions is a power of two.
\<close>

theorem reverse_stream_index_panic:
  assumes "sv_poolIdx s = 0x7FFFFFFFFFFFFFFF" and "sv_sessions s \<noteq> []"
    and "(2 :: int) ^ 63 mod int (length (sv_sessions s)) \<noteq> 0"
  shows "openReverseStream s t = Panic IndexRange"
proof -
  let ?n = "int (length (sv_sessions s))"
  have "sint (sv_poolIdx s + 1) = - (2 ^ 63)" by (simp add: assms(1))
  then have g: "go_rem (sint (sv_poolIdx s + 1)) ?n = - (2 ^ 63 mod ?n)"
    by (simp add: go_rem_def)
  have n: "0 < ?n" "[0..<length (sv_sessions s)] = 0 # [1..<length (sv_sessions s)]"
    using assms(2) by (simp_all add: upt_conv_Cons)
  have "0 \<le> 2 ^ 63 mod ?n" "2 ^ 63 mod ?n < ?n" using n(1) by simp_all
  then have "go_rem (- (2 ^ 63 mod ?n)) ?n < 0"
    using assms(3) unfolding go_rem_def by (simp add: mod_pos_pos_trivial)
  then have "pick_session (bump s) (- (2 ^ 63 mod ?n)) [0..<length (sv_sessions s)] = Panic IndexRange"
    unfolding n(2) by (simp add: Let_def)
  then have "choose_session s = Panic IndexRange"
    unfolding choose_session_def Let_def using g by (simp add: bump_def)
  with assms(2) show ?thesis by (simp add: openReverseStream_def)
qed

theorem reverse_stream_index_panic_witness:
  "openReverseStream (demo_server 9 0x7FFFFFFFFFFFFFFF) ''tcp://h:1'' = Panic IndexRange"
  by (rule reverse_stream_index_panic) (simp_all add: demo_server_def)

end
