(* ===== verification/FakeTraffic.thy ===== *)
theory FakeTraffic
  imports PoolProps
begin

text \<open>
  The fake traffic of server.go: \<open>fakeTrafficLoop\<close>, which keeps an idle session from looking idle,
  and \<open>sendFakeData\<close> with the stream it opens. Between two ticks other goroutines run; a tick
  here is a function on the server they share.
\<close>

section \<open>The loop\<close>

text \<open>
  The interval the loop settles on at its start. \<open>int(interval.Seconds() / 2)\<close> is the whole part of
  half the interval in seconds.
\<close>

definition fake_interval :: "Config \<Rightarrow> world \<Rightarrow> int \<times> world" where
  "fake_interval cfg w =
     (let interval = i64 (st_FakeTrafficInterval (Stealth cfg) * second);
          interval = (if interval < 5 * second then 30 * second else interval)
      in case secureRandInt (interval div (2 * second)) w of
           (r, w) \<Rightarrow> (i64 (interval + i64 ((r + 1) * second)), w))"

text \<open>\<open>sendFakeData\<close> from its \<open>OpenStream\<close> on, with the stream as it was left. The stream is not counted.\<close>

definition fake_send :: "nat \<Rightarrow> server \<Rightarrow> world \<Rightarrow> conn option \<times> server \<times> world" where
  "fake_send x s w =
     (case smux_OpenStream x s of
       (Inl _, s) \<Rightarrow> (None, s, w)
     | (Inr stream, s) \<Rightarrow> (case sendFakeData stream w of (stream, w) \<Rightarrow> (Some stream, s, w)))"

text \<open>
  One tick for the session \<open>x\<close>: return when it is closed, else send when it carries fewer than three
  streams, and then draw the time to the next tick around the same interval.
\<close>

definition fakeTraffic_step ::
    "nat \<Rightarrow> int \<Rightarrow> server \<Rightarrow> world \<Rightarrow> int option \<times> conn option \<times> server \<times> world" where
  "fakeTraffic_step x interval s w =
     (if ss_closed (sv_heap s x) then (None, None, s, w)
      else case (if sint (ss_streams (sv_heap s x)) < 3 then fake_send x s w else (None, s, w)) of
        (sent, s, w) \<Rightarrow>
          (case secureRandInt (interval div (3 * second)) w of
            (r, w) \<Rightarrow> (Some (i64 (interval + i64 ((r + 1) * second))), sent, s, w)))"

section \<open>Laws\<close>

text \<open>An interval with its jitter: more than the interval, by at most the \<open>k\<close>th part of it.\<close>

lemma jitter_bounds:
  assumes "secureRandInt (i div (k * second)) w = (r, w')" and "k * second \<le> i" "0 < k" "i < 2 ^ 62"
  shows "i < i64 (i + i64 ((r + 1) * second)) \<and> i64 (i + i64 ((r + 1) * second)) \<le> i + i div k"
proof -
  have ks: "0 < k * second" using assms(3) by (simp add: second_def)
  then have "0 < i div (k * second)" using assms(2) by (simp add: pos_imp_zdiv_pos_iff)
  then have r: "0 \<le> r" "r + 1 \<le> i div (k * second)"
    using secureRandInt_nonneg [OF assms(1)] secureRandInt_less [OF assms(1)] by simp_all
  have s: "0 < second" by (simp add: second_def)
  have "(r + 1) * second \<le> i div (k * second) * second" using r s by (intro mult_right_mono) simp_all
  also have "\<dots> = i div k div second * second" using assms(3) s by (simp add: zdiv_zmult2_eq)
  also have "\<dots> \<le> i div k" using s by (simp add: div_mult_self_is_m mult.commute minus_mod_eq_mult_div [symmetric])
  finally have j: "(r + 1) * second \<le> i div k" .
  have i0: "0 \<le> i" using ks assms(2) by linarith
  then have "i div k \<le> i div 1" using assms(3) by (intro zdiv_mono2) simp_all
  with j have ji: "(r + 1) * second \<le> i" by simp
  have p: "0 < (r + 1) * second" using r s by simp
  have m: "i < 4611686018427387904" using assms(4) by simp
  have "i64 ((r + 1) * second) = (r + 1) * second" using ji p m by (intro i64_small) linarith+
  moreover have "i64 (i + (r + 1) * second) = i + (r + 1) * second"
    using ji p i0 m by (intro i64_small) linarith+
  ultimately show ?thesis using j p by simp
qed

lemma fake_interval_bounds:
  assumes "fake_interval cfg w = (i, w')" and "0 \<le> st_FakeTrafficInterval (Stealth cfg)"
    and "st_FakeTrafficInterval (Stealth cfg) \<le> 1000000000"
  shows "5 * second < i \<and> i \<le> max (30 * second) (st_FakeTrafficInterval (Stealth cfg) * second) * 3 div 2"
proof -
  let ?n = "st_FakeTrafficInterval (Stealth cfg)"
  have n: "i64 (?n * second) = ?n * second" using assms(2,3) by (intro i64_small) (simp_all add: second_def)
  define b where b: "b = (if ?n * second < 5 * second then 30 * second else ?n * second)"
  obtain r w1 where r: "secureRandInt (b div (2 * second)) w = (r, w1)" by (metis prod.collapse)
  have i: "i = i64 (b + i64 ((r + 1) * second))" using assms(1) r n by (simp add: fake_interval_def b Let_def)
  have "2 * second \<le> b" "b < 2 ^ 62" using assms(3) by (simp_all add: b second_def)
  from jitter_bounds [OF r this(1) _ this(2)] have "b < i" "i \<le> b + b div 2" by (simp_all add: i)
  moreover have "5 * second \<le> b" "b \<le> max (30 * second) (?n * second)" by (auto simp: b second_def)
  ultimately show ?thesis by linarith
qed

lemma fakeTraffic_step_pool:
  assumes "fakeTraffic_step x i s w = (n, sent, s', w')"
  shows "sv_sessions s' = sv_sessions s \<and> counts s' = counts s \<and> sv_poolIdx s' = sv_poolIdx s \<and>
    (\<forall>y. ss_closed (sv_heap s' y) = ss_closed (sv_heap s y))"
  using assms smux_OpenStream_spec [of x s]
  by (fastforce simp: fakeTraffic_step_def fake_send_def split: if_splits prod.splits sum.splits)

lemma fake_send_Some:
  assumes "fake_send x s w = (Some st, s', w')"
  obtains st0 rs where "ss_opens (sv_heap s x) = Inr st0 # rs" "sendFakeData st0 w = (st, w')"
  using assms by (auto simp: fake_send_def smux_OpenStream_def split: list.splits sum.splits prod.splits)

lemma fake_send_None: "fst (fake_send x s w) = None \<longleftrightarrow> (\<forall>st rs. ss_opens (sv_heap s x) \<noteq> Inr st # rs)"
  by (auto simp: fake_send_def smux_OpenStream_def split: list.splits sum.splits prod.splits)

section \<open>Property\<close>

text \<open>
  C40. A tick of the fake traffic disturbs nothing: it ends the loop exactly when the session is
  closed; it leaves the pool, its index and every stream counter as they were; it sends only on an
  open session of fewer than three streams, when smux opens a stream; what it sends is 33 to 256
  bytes on a stream it closes, and a client that reads them drains the stream and dials nobody; and
  the next tick comes after more than the interval, by at most a third.
\<close>

theorem fake_traffic_harmless:
  assumes "fakeTraffic_step x i s w = (n, sent, s', w')" and "5 * second \<le> i" "i < 2 ^ 62"
    and "\<forall>st. Inr st \<in> set (ss_opens (sv_heap s x)) \<longrightarrow> write_ok st \<and> tx st = []"
  shows "(n = None \<longleftrightarrow> ss_closed (sv_heap s x)) \<and>
    sv_sessions s' = sv_sessions s \<and> counts s' = counts s \<and> sv_poolIdx s' = sv_poolIdx s \<and>
    (sent \<noteq> None \<longleftrightarrow> \<not> ss_closed (sv_heap s x) \<and> counts s x < 3 \<and>
       (\<exists>st rs. ss_opens (sv_heap s x) = Inr st # rs)) \<and>
    (\<forall>st. sent = Some st \<longrightarrow> closed st \<and> 33 \<le> length (tx st) \<and> length (tx st) \<le> 256 \<and>
       (\<forall>r dial. rx r = tx st \<longrightarrow> handleReverseStream dial r = [SetReadDeadline (Some 10), Drain, CloseStream])) \<and>
    (\<forall>d. n = Some d \<longrightarrow> i < d \<and> d \<le> i + i div 3)"
proof (cases "ss_closed (sv_heap s x)")
  case True
  with assms(1) show ?thesis by (simp add: fakeTraffic_step_def)
next
  case False
  obtain p s1 w1 where p: "(if sint (ss_streams (sv_heap s x)) < 3 then fake_send x s w else (None, s, w)) = (p, s1, w1)"
    by (metis prod.collapse)
  obtain r w2 where r: "secureRandInt (i div (3 * second)) w1 = (r, w2)" by (metis prod.collapse)
  have n: "n = Some (i64 (i + i64 ((r + 1) * second)))" "sent = p"
    using assms(1) False p r by (simp_all add: fakeTraffic_step_def)
  have d: "i < d \<and> d \<le> i + i div 3" if "n = Some d" for d
    using jitter_bounds [OF r _ _ assms(3)] assms(2) n(1) that by (simp add: second_def)
  have s: "sent \<noteq> None \<longleftrightarrow> counts s x < 3 \<and> (\<exists>st rs. ss_opens (sv_heap s x) = Inr st # rs)"
    using p fake_send_None [of x s w] unfolding n(2) counts_def by (auto split: if_splits)
  have "closed st \<and> 33 \<le> length (tx st) \<and> length (tx st) \<le> 256 \<and>
      (\<forall>r dial. rx r = tx st \<longrightarrow> handleReverseStream dial r = [SetReadDeadline (Some 10), Drain, CloseStream])"
    if "sent = Some st" for st
  proof -
    have "fake_send x s w = (Some st, s1, w1)" using p that unfolding n(2) by (auto split: if_splits)
    then obtain st0 rs where o: "ss_opens (sv_heap s x) = Inr st0 # rs" "sendFakeData st0 w = (st, w1)"
      by (rule fake_send_Some)
    with assms(4) have "write_ok st0" "tx st0 = []" by simp_all
    with sendFakeData_tx [of st0 w] o(2) obtain fake where
      "tx st = 0xFF # fake" "32 \<le> length fake" "length fake \<le> 255" "closed st" by auto
    then show ?thesis using handleReverseStream_fake by auto
  qed
  with d s n(1) False fakeTraffic_step_pool [OF assms(1)] show ?thesis by blast
qed

theorem fake_traffic_harmless_witness:
  "\<exists>d st s' w'. fakeTraffic_step 1 (9 * second) ((demo_server 3 0)\<lparr>sv_heap := \<lambda>_. demo_session False 2\<rparr>)
       \<lparr>w_entropy = [], w_sleeps = []\<rparr> = (Some d, Some st, s', w') \<and>
     9 * second < d \<and> d \<le> 12 * second \<and> closed st \<and> counts s' 1 = 2 \<and> sv_sessions s' = [0, 1, 2]"
proof -
  let ?s = "(demo_server 3 0)\<lparr>sv_heap := \<lambda>_. demo_session False 2\<rparr>" and ?w = "\<lparr>w_entropy = [], w_sleeps = []\<rparr> :: world"
  obtain n sent s' w' where e: "fakeTraffic_step 1 (9 * second) ?s ?w = (n, sent, s', w')" by (metis prod.collapse)
  have h: "ss_closed (sv_heap ?s 1) = False" "ss_opens (sv_heap ?s 1) = [Inr (new_conn [])]" "counts ?s 1 = 2"
      "sv_sessions ?s = [0, 1, 2]"
    by (simp_all add: demo_session_def counts_def demo_server_def)
  have "\<forall>st. Inr st \<in> set (ss_opens (sv_heap ?s 1)) \<longrightarrow> write_ok st \<and> tx st = []"
    unfolding h(2) by (simp add: write_ok_def new_conn_def)
  note x = fake_traffic_harmless [OF e _ _ this]
  have "5 * second \<le> 9 * second" "9 * second < 2 ^ 62" "9 * second + 9 * second div 3 = 12 * second"
    by (simp_all add: second_def)
  note x = x [OF this(1,2), unfolded this(3) h]
  then obtain d st where "n = Some d" "sent = Some st" by auto
  with x e h(3) show ?thesis by auto
qed

end
