(* ===== verification/Goroutines.thy ===== *)
theory Goroutines
  imports FakeTraffic
begin

text \<open>
  The goroutines of server.go that share the session pool, as program counters with one step for each
  access to what they share: a lock of \<open>poolMu\<close> taken, an atomic load or addition, a call into smux.
  Between two steps of one goroutine any other may run. \<open>openReverseStream\<close> and a tick of
  \<open>fakeTrafficLoop\<close>, the functions of theories Pool and FakeTraffic, are what their steps do when
  nothing comes in between.
\<close>

section \<open>The steps of openReverseStream\<close>

text \<open>
  Where a call of \<open>openReverseStream\<close> for the target stands. \<open>ScanAt\<close> and \<open>ScanLoad\<close> are the round
  robin, before \<open>IsClosed\<close> and before the load of the counter of the session at hand; \<open>LeastAt\<close> and
  \<open>LeastLoad\<close> the same of \<open>leastLoadedSession\<close>. Between \<open>Counted\<close> and its end the call counts as a stream.
\<close>

datatype call =
    Entered string
  | ScanAt string int nat
  | ScanLoad string int nat nat
  | LeastWait string
  | LeastAt string "nat list" "nat option" int
  | LeastLoad string nat "nat list" "nat option" int
  | Chosen string nat
  | OpenFailed nat gerror
  | Evicted nat gerror
  | Opened string nat conn
  | Counted string nat conn
  | Tagged string nat conn
  | HeaderFailed nat conn gerror
  | StreamClosed nat gerror
  | Answered "gerror + conn \<times> nat"

fun reverse_next :: "call \<Rightarrow> server \<Rightarrow> (call \<times> server) option" where
  "reverse_next (Entered t) s =
     (if sv_sessions s = [] then Some (Answered (Inl (Errorf ''no sessions'')), s)
      else let n = int (length (sv_sessions s)); s = s\<lparr>sv_poolIdx := sv_poolIdx s + 1\<rparr>
           in Some (ScanAt t (go_rem (sint (sv_poolIdx s)) n) 0, s))"
| "reverse_next (ScanAt t start i) s =
     (if i < length (sv_sessions s) then
        let idx = go_rem (start + int i) (int (length (sv_sessions s)))
        in if idx < 0 then None
           else let x = sv_sessions s ! nat idx
                in Some (if ss_closed (sv_heap s x) then ScanAt t start (Suc i) else ScanLoad t start i x, s)
      else Some (LeastWait t, s))"
| "reverse_next (ScanLoad t start i x) s =
     Some (if sint (ss_streams (sv_heap s x)) \<ge> adv_MaxStreamsPerSession (Advanced (sv_Config s))
           then ScanAt t start (Suc i) else Chosen t x, s)"
| "reverse_next (LeastWait t) s = Some (LeastAt t (sv_sessions s) None (2 ^ 63 - 1), s)"
| "reverse_next (LeastAt t [] best bestLoad) s =
     Some (case best of None \<Rightarrow> Answered (Inl (Errorf ''all sessions full'')) | Some x \<Rightarrow> Chosen t x, s)"
| "reverse_next (LeastAt t (x # xs) best bestLoad) s =
     Some (if ss_closed (sv_heap s x) then LeastAt t xs best bestLoad else LeastLoad t x xs best bestLoad, s)"
| "reverse_next (LeastLoad t x xs best bestLoad) s =
     (let load = sint (ss_streams (sv_heap s x))
      in Some (if load < bestLoad then LeastAt t xs (Some x) load else LeastAt t xs best bestLoad, s))"
| "reverse_next (Chosen t x) s =
     (case smux_OpenStream x s of
       (Inl e, s) \<Rightarrow> Some (OpenFailed x (Wrap ''open stream'' e), s)
     | (Inr stream, s) \<Rightarrow> Some (Opened t x stream, s))"
| "reverse_next (OpenFailed x e) s = Some (Evicted x e, removeSession x s)"
| "reverse_next (Evicted x e) s = Some (Answered (Inl e), closeSess x s)"
| "reverse_next (Opened t x stream) s = Some (Counted t x stream, addStreams x 1 s)"
| "reverse_next (Counted t x stream) s =
     (case conn_write stream [StreamTypeReverse] of
       ((_, Some e), stream) \<Rightarrow> Some (HeaderFailed x stream e, s)
     | ((_, None), stream) \<Rightarrow> Some (Tagged t x stream, s))"
| "reverse_next (Tagged t x stream) s =
     (let b = bytes_of t;
          hdr = copy_at 2 b (copy_at 0 (put16 (word_of_nat (length b))) (replicate (2 + length b) 0))
      in case conn_write stream hdr of
           ((_, Some e), stream) \<Rightarrow> Some (HeaderFailed x stream e, s)
         | ((_, None), stream) \<Rightarrow> Some (Answered (Inr (stream, x)), s))"
| "reverse_next (HeaderFailed x stream e) s = Some (StreamClosed x e, dropStream x stream s)"
| "reverse_next (StreamClosed x e) s = Some (Answered (Inl e), addStreams x (-1) s)"
| "reverse_next (Answered r) s = None"

section \<open>The other goroutines\<close>

text \<open>
  \<open>Reverse\<close> is the caller of \<open>openReverseStream\<close>, a mapped connection or a UDP peer; with an answer it
  relays until the stream ends. \<open>Forward\<close> is \<open>handleStream\<close> before it counts, \<open>Serving\<close> after. The fake
  traffic waits for its ticker, is past \<open>IsClosed\<close>, is past the load of the counter, or has a stream to
  write on. The tunnel handler accepts streams, or has removed its session and is about to close it.
\<close>

datatype proc =
    Reverse call
  | Forward nat
  | Serving nat
  | FakeTick nat
  | FakeLook nat
  | FakeOpen nat
  | FakeSend nat conn
  | TunnelUp nat
  | TunnelRemoved nat
  | Ended

fun fake_next :: "proc \<Rightarrow> server \<Rightarrow> (proc \<times> server) option" where
  "fake_next (FakeTick x) s = Some (if ss_closed (sv_heap s x) then Ended else FakeLook x, s)"
| "fake_next (FakeLook x) s = Some (if sint (ss_streams (sv_heap s x)) < 3 then FakeOpen x else FakeTick x, s)"
| "fake_next (FakeOpen x) s =
     (case smux_OpenStream x s of
       (Inl _, s) \<Rightarrow> Some (FakeTick x, s)
     | (Inr stream, s) \<Rightarrow> Some (FakeSend x stream, s))"
| "fake_next (FakeSend x stream) s = Some (FakeTick x, s)"
| "fake_next p s = None"

text \<open>
  The deferred function of \<open>handleReverseTCPConn\<close> counts an answered stream down, as does that of
  \<open>handleStream\<close>; the end of \<open>handleTunnel\<close> removes the session and closes it.
\<close>

fun proc_next :: "proc \<Rightarrow> server \<Rightarrow> (proc \<times> server) option" where
  "proc_next (Reverse (Answered (Inr (stream, x)))) s = Some (Ended, addStreams x (-1) s)"
| "proc_next (Reverse (Answered (Inl e))) s = Some (Ended, s)"
| "proc_next (Reverse c) s = map_option (\<lambda>(c, s). (Reverse c, s)) (reverse_next c s)"
| "proc_next (Forward x) s = Some (Serving x, addStreams x 1 s)"
| "proc_next (Serving x) s = Some (Ended, addStreams x (-1) s)"
| "proc_next (FakeTick x) s = fake_next (FakeTick x) s"
| "proc_next (FakeLook x) s = fake_next (FakeLook x) s"
| "proc_next (FakeOpen x) s = fake_next (FakeOpen x) s"
| "proc_next (FakeSend x stream) s = fake_next (FakeSend x stream) s"
| "proc_next (TunnelUp x) s = Some (TunnelRemoved x, removeSession x s)"
| "proc_next (TunnelRemoved x) s = Some (Ended, closeSess x s)"
| "proc_next Ended s = None"

text \<open>The loops over the pool hold the read lock; a change of the pool needs the write lock.\<close>

fun holds_rlock :: "proc \<Rightarrow> bool" where
  "holds_rlock (Reverse (ScanAt t start i)) = True"
| "holds_rlock (Reverse (ScanLoad t start i x)) = True"
| "holds_rlock (Reverse (LeastAt t xs best l)) = True"
| "holds_rlock (Reverse (LeastLoad t x xs best l)) = True"
| "holds_rlock _ = False"

fun writes_pool :: "proc \<Rightarrow> bool" where
  "writes_pool (Reverse (OpenFailed x e)) = True"
| "writes_pool (TunnelUp x) = True"
| "writes_pool _ = False"

text \<open>The session in which the next step calls smux's \<open>OpenStream\<close>.\<close>

fun opens_on :: "proc \<Rightarrow> nat option" where
  "opens_on (Reverse (Chosen t x)) = Some x"
| "opens_on (FakeOpen x) = Some x"
| "opens_on _ = None"

text \<open>The session a goroutine counts as a stream of, between its addition and its subtraction.\<close>

fun counts_on :: "proc \<Rightarrow> nat option" where
  "counts_on (Reverse (Counted t x stream)) = Some x"
| "counts_on (Reverse (Tagged t x stream)) = Some x"
| "counts_on (Reverse (HeaderFailed x stream e)) = Some x"
| "counts_on (Reverse (StreamClosed x e)) = Some x"
| "counts_on (Reverse (Answered (Inr (stream, x)))) = Some x"
| "counts_on (Serving x) = Some x"
| "counts_on _ = None"

text \<open>The session in which a goroutine has opened the stream it holds.\<close>

fun holds_stream :: "proc \<Rightarrow> nat option" where
  "holds_stream (Reverse (Opened t x stream)) = Some x"
| "holds_stream (Reverse (Counted t x stream)) = Some x"
| "holds_stream (Reverse (Tagged t x stream)) = Some x"
| "holds_stream (Reverse (HeaderFailed x stream e)) = Some x"
| "holds_stream (Reverse (Answered (Inr (stream, x)))) = Some x"
| "holds_stream (FakeSend x stream) = Some x"
| "holds_stream _ = None"

section \<open>Without interference\<close>

inductive call_run :: "call \<Rightarrow> server \<Rightarrow> call \<Rightarrow> server \<Rightarrow> bool" where
  call_here: "call_run c s c s"
| call_on: "reverse_next c s = Some (c1, s1) \<Longrightarrow> call_run c1 s1 c2 s2 \<Longrightarrow> call_run c s c2 s2"

lemma scan_run:
  assumes "pick_session s start [i..<length (sv_sessions s)] = Return best"
    and "call_run (case best of Some x \<Rightarrow> Chosen t x | None \<Rightarrow> LeastWait t) s c s'"
  shows "call_run (ScanAt t start i) s c s'"
  using assms
proof (induction "length (sv_sessions s) - i" arbitrary: i)
  case 0
  then show ?case by - (rule call_on [of _ _ "LeastWait t" s], simp_all)
next
  case (Suc k)
  then have i: "i < length (sv_sessions s)" "[i..<length (sv_sessions s)] = i # [Suc i..<length (sv_sessions s)]"
    by (simp_all add: upt_conv_Cons)
  let ?idx = "go_rem (start + int i) (int (length (sv_sessions s)))"
  let ?x = "sv_sessions s ! nat ?idx"
  have idx: "\<not> ?idx < 0" using Suc.prems(1) unfolding i(2) by (auto simp: Let_def split: if_splits)
  have k: "k = length (sv_sessions s) - Suc i" using Suc.hyps(2) by simp
  show ?case
  proof (cases "ss_closed (sv_heap s ?x)")
    case True
    with Suc.prems(1) idx have "pick_session s start [Suc i..<length (sv_sessions s)] = Return best"
      unfolding i(2) by (simp add: Let_def)
    from Suc.hyps(1) [OF k this Suc.prems(2)] show ?thesis
      using i(1) idx True by - (rule call_on [of _ _ "ScanAt t start (Suc i)" s], simp_all add: Let_def)
  next
    case False
    have "call_run (ScanLoad t start i ?x) s c s'"
    proof (cases "sint (ss_streams (sv_heap s ?x)) \<ge> adv_MaxStreamsPerSession (Advanced (sv_Config s))")
      case True
      with Suc.prems(1) idx False have "pick_session s start [Suc i..<length (sv_sessions s)] = Return best"
        unfolding i(2) by (simp add: Let_def)
      from Suc.hyps(1) [OF k this Suc.prems(2)] show ?thesis
        using True by - (rule call_on [of _ _ "ScanAt t start (Suc i)" s], simp_all)
    next
      case small: False
      with Suc.prems(1) idx False have "best = Some ?x" unfolding i(2) by (simp add: Let_def)
      with Suc.prems(2) have "call_run (Chosen t ?x) s c s'" by simp
      with small show ?thesis by - (rule call_on [of _ _ "Chosen t ?x" s], simp_all)
    qed
    then show ?thesis
      using i(1) idx False by - (rule call_on [of _ _ "ScanLoad t start i ?x" s], simp_all add: Let_def)
  qed
qed

lemma least_run:
  "call_run (case least_loaded (sv_heap s) xs best l of
      None \<Rightarrow> Answered (Inl (Errorf ''all sessions full'')) | Some x \<Rightarrow> Chosen t x) s c s' \<Longrightarrow>
   call_run (LeastAt t xs best l) s c s'"
proof (induction xs arbitrary: best l)
  case Nil
  then show ?case by - (rule call_on [OF _ Nil], simp)
next
  case (Cons x xs)
  let ?load = "sint (ss_streams (sv_heap s x))"
  show ?case
  proof (cases "ss_closed (sv_heap s x)")
    case True
    with Cons show ?thesis by - (rule call_on [of _ _ "LeastAt t xs best l" s], simp_all)
  next
    case False
    have "call_run (LeastLoad t x xs best l) s c s'"
    proof (cases "?load < l")
      case True
      with Cons False show ?thesis by - (rule call_on [of _ _ "LeastAt t xs (Some x) ?load" s], simp_all)
    next
      case less: False
      with Cons False show ?thesis by - (rule call_on [of _ _ "LeastAt t xs best l" s], simp_all)
    qed
    with False show ?thesis by - (rule call_on [of _ _ "LeastLoad t x xs best l" s], simp_all)
  qed
qed

lemma header_run:
  assumes "reverse_header stream t = (h, stream')"
  shows "call_run (Counted t x stream) s
    (Answered (case h of Some e \<Rightarrow> Inl e | None \<Rightarrow> Inr (stream', x)))
    (case h of Some e \<Rightarrow> addStreams x (-1) (dropStream x stream' s) | None \<Rightarrow> s)"
proof -
  have fails: "call_run (HeaderFailed x left e) s (Answered (Inl e)) (addStreams x (-1) (dropStream x left s))" for left e
    by (rule call_on, simp, rule call_on, simp) (rule call_here)
  obtain n f c1 where w: "conn_write stream [StreamTypeReverse] = ((n, f), c1)" by (metis prod.collapse)
  show ?thesis
  proof (cases f)
    case (Some e)
    with assms w have "h = Some e" "stream' = c1" by (simp_all add: reverse_header_def)
    with Some w fails [of c1 e] show ?thesis by (simp add: call_on [of "Counted t x stream" s "HeaderFailed x c1 e" s])
  next
    case None
    let ?b = "bytes_of t"
    let ?hdr = "copy_at 2 ?b (copy_at 0 (put16 (word_of_nat (length ?b))) (replicate (2 + length ?b) 0))"
    obtain m g c2 where v: "conn_write c1 ?hdr = ((m, g), c2)" by (metis prod.collapse)
    with assms w None have h: "h = g" "stream' = c2" by (simp_all add: reverse_header_def Let_def)
    have "call_run (Tagged t x c1) s
      (Answered (case h of Some e \<Rightarrow> Inl e | None \<Rightarrow> Inr (stream', x)))
      (case h of Some e \<Rightarrow> addStreams x (-1) (dropStream x stream' s) | None \<Rightarrow> s)"
    proof (cases g)
      case None
      with v h show ?thesis by - (rule call_on [of _ _ "Answered (Inr (c2, x))" s], simp_all add: Let_def call_here)
    next
      case (Some e)
      with v h fails [of c2 e] show ?thesis
        by - (rule call_on [of _ _ "HeaderFailed x c2 e" s], simp_all add: Let_def)
    qed
    with None w show ?thesis by - (rule call_on [of _ _ "Tagged t x c1" s], simp_all)
  qed
qed

lemma chosen_run:
  "call_run (Chosen t x) s
     (Answered (case smux_OpenStream x s of
       (Inl e, _) \<Rightarrow> Inl (Wrap ''open stream'' e)
     | (Inr stream, _) \<Rightarrow> (case reverse_header stream t of (Some e, _) \<Rightarrow> Inl e | (None, stream) \<Rightarrow> Inr (stream, x))))
     (case smux_OpenStream x s of
       (Inl e, s) \<Rightarrow> closeSess x (removeSession x s)
     | (Inr stream, s) \<Rightarrow>
         (case reverse_header stream t of
           (Some e, left) \<Rightarrow> addStreams x (-1) (dropStream x left (addStreams x 1 s))
         | (None, _) \<Rightarrow> addStreams x 1 s))"
proof -
  obtain r s1 where o: "smux_OpenStream x s = (r, s1)" by (metis prod.collapse)
  show ?thesis
  proof (cases r)
    case (Inl e)
    let ?e = "Wrap ''open stream'' e"
    have "call_run (Evicted x ?e) (removeSession x s1) (Answered (Inl ?e)) (closeSess x (removeSession x s1))"
      by (rule call_on [OF _ call_here]) simp
    then have "call_run (OpenFailed x ?e) s1 (Answered (Inl ?e)) (closeSess x (removeSession x s1))"
      by (rule call_on [rotated]) simp
    with o Inl show ?thesis by (simp add: call_on [of "Chosen t x" s "OpenFailed x ?e" s1])
  next
    case (Inr stream)
    obtain h left where h: "reverse_header stream t = (h, left)" by (metis prod.collapse)
    let ?r = "Answered (case h of Some e \<Rightarrow> Inl e | None \<Rightarrow> Inr (left, x))"
    let ?s = "case h of Some e \<Rightarrow> addStreams x (-1) (dropStream x left (addStreams x 1 s1)) | None \<Rightarrow> addStreams x 1 s1"
    have "call_run (Opened t x stream) s1 ?r ?s"
      by (rule call_on [OF _ header_run [OF h, of x "addStreams x 1 s1"]]) simp
    then have "call_run (Chosen t x) s ?r ?s"
      by (rule call_on [rotated]) (simp add: o Inr)
    with o Inr h show ?thesis by (cases h) simp_all
  qed
qed

text \<open>The sequential \<open>openReverseStream\<close> is a run of the steps by one goroutine alone.\<close>

theorem openReverseStream_run:
  assumes "openReverseStream s t = Return (r, s')"
  shows "call_run (Entered t) s (Answered r) s'"
proof (cases "sv_sessions s = []")
  case True
  with assms show ?thesis by - (rule call_on [of _ _ "Answered r" s'], auto simp: openReverseStream_def call_here)
next
  case False
  let ?n = "length (sv_sessions s)" and ?start = "go_rem (sint (sv_poolIdx s + 1)) (int (length (sv_sessions s)))"
  obtain best where p: "pick_session (bump s) ?start [0..<?n] = Return best"
    using assms False by (auto simp: openReverseStream_def choose_session_def bump_def outcome_simps Let_def)
  let ?best = "case best of Some x \<Rightarrow> Some x | None \<Rightarrow> leastLoadedSession (bump s)"
  have "openReverseStream s t = (case ?best of
      None \<Rightarrow> Return (Inl (Errorf ''all sessions full''), bump s)
    | Some x \<Rightarrow>
        (case smux_OpenStream x (bump s) of
          (Inl e, s) \<Rightarrow> Return (Inl (Wrap ''open stream'' e), closeSess x (removeSession x s))
        | (Inr stream, s) \<Rightarrow>
            (case reverse_header stream t of
              (Some e, stream) \<Rightarrow> Return (Inl e, addStreams x (-1) (dropStream x stream (addStreams x 1 s)))
            | (None, stream) \<Rightarrow> Return (Inr (stream, x), addStreams x 1 s))))"
    using p False unfolding openReverseStream_def choose_session_def Let_def bump_def
    by (cases best) simp_all
  note eq = this [unfolded assms(1)]
  have ends: "call_run (Chosen t x) (bump s) (Answered r) s'" if "?best = Some x" for x
    using chosen_run [of t x "bump s"] eq unfolding that
    by (auto split: prod.splits sum.splits option.splits)
  have "call_run (case best of Some x \<Rightarrow> Chosen t x | None \<Rightarrow> LeastWait t) (bump s) (Answered r) s'"
  proof (cases best)
    case (Some x)
    with ends [of x] show ?thesis by simp
  next
    case None
    have "call_run (LeastAt t (sv_sessions (bump s)) None (2 ^ 63 - 1)) (bump s) (Answered r) s'"
    proof (rule least_run, cases "leastLoadedSession (bump s)")
      case l: None
      with None eq show "call_run (case least_loaded (sv_heap (bump s)) (sv_sessions (bump s)) None (2 ^ 63 - 1) of
          None \<Rightarrow> Answered (Inl (Errorf ''all sessions full'')) | Some x \<Rightarrow> Chosen t x) (bump s) (Answered r) s'"
        unfolding leastLoadedSession_def by (simp add: call_here)
    next
      case l: (Some x)
      with None ends [of x] show "call_run (case least_loaded (sv_heap (bump s)) (sv_sessions (bump s)) None (2 ^ 63 - 1) of
          None \<Rightarrow> Answered (Inl (Errorf ''all sessions full'')) | Some x \<Rightarrow> Chosen t x) (bump s) (Answered r) s'"
        unfolding leastLoadedSession_def by simp
    qed
    then have "call_run (LeastWait t) (bump s) (Answered r) s'" by (rule call_on [rotated]) simp
    with None show ?thesis by simp
  qed
  from scan_run [OF _ this, of ?start 0] p have "call_run (ScanAt t ?start 0) (bump s) (Answered r) s'" by simp
  with False show ?thesis
    by - (rule call_on [of "Entered t" s "ScanAt t ?start 0" "bump s"], simp_all add: bump_def Let_def)
qed

text \<open>So is a tick of the fake traffic: what it sends goes out on the stream of \<open>FakeSend\<close>.\<close>

inductive proc_run :: "proc \<Rightarrow> server \<Rightarrow> proc \<Rightarrow> server \<Rightarrow> bool" where
  proc_here: "proc_run p s p s"
| proc_on: "proc_next p s = Some (p1, s1) \<Longrightarrow> proc_run p1 s1 p2 s2 \<Longrightarrow> proc_run p s p2 s2"

theorem fakeTraffic_run:
  assumes "fakeTraffic_step x i s w = (n, sent, s', w')"
  shows "case sent of
      Some out \<Rightarrow> \<exists>stream. out = fst (sendFakeData stream w) \<and> proc_run (FakeTick x) s (FakeSend x stream) s' \<and>
        proc_next (FakeSend x stream) s' = Some (FakeTick x, s')
    | None \<Rightarrow> \<exists>p s1. proc_next (FakeTick x) s = Some (p, s1) \<and> proc_run p s1 (if n = None then Ended else FakeTick x) s'"
proof (cases "ss_closed (sv_heap s x)")
  case True
  with assms show ?thesis by (auto simp: fakeTraffic_step_def proc_here)
next
  case tick: False
  show ?thesis
  proof (cases "sint (ss_streams (sv_heap s x)) < 3")
    case False
    have "proc_run (FakeLook x) s (FakeTick x) s"
      using False by - (rule proc_on [of _ _ "FakeTick x" s], simp_all add: proc_here)
    with assms tick False show ?thesis by (auto simp: fakeTraffic_step_def split: prod.splits)
  next
    case True
    obtain r s1 where o: "smux_OpenStream x s = (r, s1)" by (metis prod.collapse)
    have look: "proc_run (FakeLook x) s p u" if "proc_run (FakeOpen x) s p u" for p u
      using True that by - (rule proc_on [of _ _ "FakeOpen x" s], simp_all)
    show ?thesis
    proof (cases r)
      case (Inl e)
      then have "proc_run (FakeOpen x) s (FakeTick x) s1"
        using o by - (rule proc_on [of _ _ "FakeTick x" s1], simp_all add: proc_here)
      with assms tick True o Inl look show ?thesis
        by (auto simp: fakeTraffic_step_def fake_send_def split: prod.splits)
    next
      case (Inr stream)
      then have "proc_run (FakeOpen x) s (FakeSend x stream) s1"
        using o by - (rule proc_on [of _ _ "FakeSend x stream" s1], simp_all add: proc_here)
      then have "proc_run (FakeTick x) s (FakeSend x stream) s1"
        using tick look by - (rule proc_on [of _ _ "FakeLook x" s], simp_all)
      moreover have "sent = Some (fst (sendFakeData stream w))" "s' = s1"
        using assms tick True o Inr by (auto simp: fakeTraffic_step_def fake_send_def split: prod.splits)
      ultimately show ?thesis by auto
    qed
  qed
qed

end
