(* ===== verification/ServerSteps.thy ===== *)
theory ServerSteps
  imports Goroutines
begin

text \<open>
  The server's goroutines interleaved. The state is the server, the goroutines' program counters and
  the next session's name; a step is one step of one goroutine (theory Goroutines), a new connection or
  goroutine, a tick of \<open>healthMonitor\<close>, or smux: it closes sessions and prepares the answers of
  \<open>OpenStream\<close> as it likes, as far as \<open>may\<close>, a parameter, lets it answer in the state of a session.
\<close>

record system =
  sy_srv :: server
  sy_procs :: "proc list"
  sy_next :: nat

definition fresh_session :: "string \<Rightarrow> int \<Rightarrow> (gerror + conn) list \<Rightarrow> serverSession" where
  "fresh_session remote now opens = \<lparr>ss_remote = remote, ss_created = now, ss_streams = 0,
     ss_closed = False, ss_opens = opens, ss_dropped = []\<rparr>"

text \<open>\<open>handleTunnel\<close> from \<open>ss := &serverSession{...}\<close> to \<open>s.addSession(ss)\<close>; from then on it accepts streams.\<close>

definition tunnel_open :: "string \<Rightarrow> int \<Rightarrow> (gerror + conn) list \<Rightarrow> system \<Rightarrow> system" where
  "tunnel_open remote now opens y =
     y\<lparr>sy_srv := addSession (sy_next y) (upd_session (sy_next y) (\<lambda>_. fresh_session remote now opens) (sy_srv y)),
       sy_procs := sy_procs y @ [TunnelUp (sy_next y)], sy_next := Suc (sy_next y)\<rparr>"

text \<open>No goroutine is inside a loop over the pool, so that the write lock can be taken.\<close>

definition unlocked :: "system \<Rightarrow> bool" where
  "unlocked y \<longleftrightarrow> (\<forall>p \<in> set (sy_procs y). \<not> holds_rlock p)"

text \<open>The \<open>go\<close> statements: a mapped port starts a reverse stream, a tunnel handler the rest.\<close>

definition starts :: "system \<Rightarrow> proc \<Rightarrow> bool" where
  "starts y p \<longleftrightarrow> (\<exists>t. p = Reverse (Entered t)) \<or>
     (\<exists>x. TunnelUp x \<in> set (sy_procs y) \<and> (p = Forward x \<or> p = FakeTick x))"

text \<open>
  A tick holds the write lock, but sessions close meanwhile: what it keeps is any part of the pool
  outside of which every session is closed. When none closes during the loop, that is
  \<open>healthMonitor_tick\<close>.
\<close>

definition evict_some :: "(nat \<Rightarrow> bool) \<Rightarrow> server \<Rightarrow> server" where
  "evict_some keep s = s\<lparr>sv_sessions := filter keep (sv_sessions s)\<rparr>"

lemma tick_evicts: "healthMonitor_tick s = evict_some (\<lambda>x. \<not> ss_closed (sv_heap s x)) s"
  by (simp add: healthMonitor_tick_def evict_some_def keep_alive_eq)

inductive srv_step :: "(serverSession \<Rightarrow> gerror + conn \<Rightarrow> bool) \<Rightarrow> system \<Rightarrow> system \<Rightarrow> bool" for may where
  connect: "unlocked y \<Longrightarrow> srv_step may y (tunnel_open remote now opens y)"
| spawn: "starts y p \<Longrightarrow> srv_step may y (y\<lparr>sy_procs := sy_procs y @ [p]\<rparr>)"
| run: "k < length (sy_procs y) \<Longrightarrow> proc_next (sy_procs y ! k) (sy_srv y) = Some (p, s) \<Longrightarrow>
    (writes_pool (sy_procs y ! k) \<Longrightarrow> unlocked y) \<Longrightarrow>
    (\<And>x. opens_on (sy_procs y ! k) = Some x \<Longrightarrow> may (sv_heap (sy_srv y) x) (fst (smux_OpenStream x (sy_srv y)))) \<Longrightarrow>
    srv_step may y (y\<lparr>sy_srv := s, sy_procs := (sy_procs y)[k := p]\<rparr>)"
| tick: "unlocked y \<Longrightarrow> (\<And>x. x \<in> set (sv_sessions (sy_srv y)) \<Longrightarrow> \<not> keep x \<Longrightarrow> ss_closed (sv_heap (sy_srv y) x)) \<Longrightarrow>
    srv_step may y (y\<lparr>sy_srv := evict_some keep (sy_srv y)\<rparr>)"
| smux_dies: "x < sy_next y \<Longrightarrow> srv_step may y (y\<lparr>sy_srv := closeSess x (sy_srv y)\<rparr>)"
| smux_answers: "srv_step may y (y\<lparr>sy_srv := upd_session x (\<lambda>ss. ss\<lparr>ss_opens := opens\<rparr>) (sy_srv y)\<rparr>)"

inductive srv_reach :: "(serverSession \<Rightarrow> gerror + conn \<Rightarrow> bool) \<Rightarrow> system \<Rightarrow> system \<Rightarrow> bool" for may where
  srv_start: "srv_reach may y y"
| srv_more: "srv_reach may y z \<Longrightarrow> srv_step may z u \<Longrightarrow> srv_reach may y u"

text \<open>A server as \<open>NewServer\<close> makes it: no session, no goroutine, nothing counted.\<close>

definition started :: "system \<Rightarrow> bool" where
  "started y \<longleftrightarrow> sv_sessions (sy_srv y) = [] \<and> sy_procs y = [] \<and> (\<forall>x. counts (sy_srv y) x = 0)"

text \<open>The goroutines that count as a stream of a session.\<close>

definition in_service :: "nat \<Rightarrow> system \<Rightarrow> nat" where
  "in_service x y = length (filter (\<lambda>p. counts_on p = Some x) (sy_procs y))"

section \<open>What one call of openReverseStream does to the pool, limits aside\<close>

lemma pick_session_in:
  "pick_session s start is = Return (Some x) \<Longrightarrow> sv_sessions s \<noteq> [] \<Longrightarrow> x \<in> set (sv_sessions s)"
proof (induction "is")
  case (Cons i "is")
  let ?n = "int (length (sv_sessions s))" and ?k = "start + int i"
  have "\<bar>go_rem ?k ?n\<bar> < ?n"
    using Cons.prems(2) by (cases "?k = 0") (simp_all add: go_rem_def abs_mult abs_sgn_eq)
  then have "\<not> go_rem ?k ?n < 0 \<Longrightarrow> sv_sessions s ! nat (go_rem ?k ?n) \<in> set (sv_sessions s)"
    by (intro nth_mem) (simp add: nat_less_iff)
  with Cons show ?case by (auto simp: Let_def split: if_splits)
qed simp

lemma least_loaded_in: "least_loaded h xs best l = Some x \<Longrightarrow> best = Some x \<or> x \<in> set xs"
  by (induction xs arbitrary: best l) (fastforce split: if_splits)+

lemma choose_session_in:
  assumes "choose_session s = Return (best, s')" and "sv_sessions s \<noteq> []"
  shows "s' = bump s \<and> (\<forall>x. best = Some x \<longrightarrow> x \<in> set (sv_sessions s))"
proof -
  obtain p where p: "pick_session (bump s) (go_rem (sint (sv_poolIdx (bump s))) (int (length (sv_sessions s))))
      [0..<length (sv_sessions s)] = Return p"
    using assms(1) unfolding choose_session_def Let_def bump_def by (auto simp: outcome_simps)
  have "best = (case p of Some x \<Rightarrow> Some x | None \<Rightarrow> leastLoadedSession s) \<and> s' = bump s"
    using assms(1) p unfolding choose_session_def Let_def bump_def
    by (auto simp: outcome_simps leastLoadedSession_def split: option.splits)
  then show ?thesis
    using pick_session_in [of "bump s"] p assms(2) least_loaded_in [of "sv_heap s" "sv_sessions s" None]
    by (cases p) (auto simp: leastLoadedSession_def)
qed

lemma openReverseStream_pool:
  assumes "openReverseStream s t = Return (r, s')"
  shows "(\<forall>stream x. r = Inr (stream, x) \<longrightarrow> x \<in> set (sv_sessions s) \<and> sv_sessions s' = sv_sessions s \<and>
      counts s' = (counts s)(x := i64 (counts s x + 1))) \<and>
    (\<forall>e. r = Inl e \<longrightarrow> counts s' = counts s \<and>
      (sv_sessions s' = sv_sessions s \<or> (\<exists>x. sv_sessions s' = remove1 x (sv_sessions s))))"
proof (cases "sv_sessions s = []")
  case True
  with assms show ?thesis by (auto simp: openReverseStream_def)
next
  case False
  obtain best s0 where c: "choose_session s = Return (best, s0)"
    using assms False by (auto simp: openReverseStream_def outcome_simps)
  note ci = choose_session_in [OF c False]
  show ?thesis
  proof (cases best)
    case None
    with assms False c ci show ?thesis by (auto simp: openReverseStream_def)
  next
    case (Some x)
    obtain q s1 where o: "smux_OpenStream x (bump s) = (q, s1)" by (metis prod.collapse)
    note sp = smux_OpenStream_spec [OF o]
    show ?thesis
    proof (cases q)
      case (Inl e)
      with assms False c ci Some o have r: "r = Inl (Wrap ''open stream'' e)" "s' = closeSess x (removeSession x s1)"
        by (auto simp: openReverseStream_def)
      have "counts s' = counts s" "sv_sessions s' = remove1 x (sv_sessions s)"
        using sp srv_pool.items_rem [of x s1] by (simp_all add: r)
      with r(1) show ?thesis by blast
    next
      case (Inr st)
      obtain h st' where h: "reverse_header st t = (h, st')" by (metis prod.collapse)
      with assms False c ci Some o Inr have
        "(h = None \<and> r = Inr (st', x) \<and> s' = addStreams x 1 s1) \<or>
         (\<exists>e. h = Some e \<and> r = Inl e \<and> s' = addStreams x (-1) (dropStream x st' (addStreams x 1 s1)))"
        by (cases h) (auto simp: openReverseStream_def Let_def)
      with sp ci Some show ?thesis by auto
    qed
  qed
qed

section \<open>What one step of a goroutine does\<close>

text \<open>The sessions a program counter speaks of.\<close>

fun call_mentions :: "call \<Rightarrow> nat set" where
  "call_mentions (ScanLoad t start i x) = {x}"
| "call_mentions (LeastAt t xs best l) = set xs \<union> set_option best"
| "call_mentions (LeastLoad t x xs best l) = insert x (set xs \<union> set_option best)"
| "call_mentions (Chosen t x) = {x}"
| "call_mentions (OpenFailed x e) = {x}"
| "call_mentions (Evicted x e) = {x}"
| "call_mentions (Opened t x stream) = {x}"
| "call_mentions (Counted t x stream) = {x}"
| "call_mentions (Tagged t x stream) = {x}"
| "call_mentions (HeaderFailed x stream e) = {x}"
| "call_mentions (StreamClosed x e) = {x}"
| "call_mentions (Answered (Inr (stream, x))) = {x}"
| "call_mentions _ = {}"

fun mentions :: "proc \<Rightarrow> nat set" where
  "mentions (Reverse c) = call_mentions c"
| "mentions (Forward x) = {x}"
| "mentions (Serving x) = {x}"
| "mentions (FakeTick x) = {x}"
| "mentions (FakeLook x) = {x}"
| "mentions (FakeOpen x) = {x}"
| "mentions (FakeSend x stream) = {x}"
| "mentions (TunnelUp x) = {x}"
| "mentions (TunnelRemoved x) = {x}"
| "mentions Ended = {}"

lemma counts_mentions: "counts_on p = Some x \<Longrightarrow> x \<in> mentions p"
  by (induction p rule: counts_on.induct) auto

lemma streams_simps [simp]:
  "ss_streams (sv_heap (addStreams x d s) y) = ss_streams (sv_heap s y) + (if y = x then word_of_int d else 0)"
  "ss_streams (sv_heap (closeSess x s) y) = ss_streams (sv_heap s y)"
  "ss_streams (sv_heap (dropStream x c s) y) = ss_streams (sv_heap s y)"
  by (simp_all add: addStreams_def closeSess_def dropStream_def)

lemma smux_OpenStream_streams:
  "smux_OpenStream x s = (r, s') \<Longrightarrow> ss_streams (sv_heap s' y) = ss_streams (sv_heap s y)"
  by (auto simp: smux_OpenStream_def split: list.splits)

text \<open>The counters move with the program counter: up when a goroutine starts to count, down when it ends.\<close>

lemma reverse_next_counts:
  assumes "reverse_next c s = Some (c', s')"
  shows "ss_streams (sv_heap s' x) + of_bool (counts_on (Reverse c) = Some x) =
    ss_streams (sv_heap s x) + of_bool (counts_on (Reverse c') = Some x)"
  using assms smux_OpenStream_streams [of _ s]
  by (cases "(c, s)" rule: reverse_next.cases)
    (auto simp: Let_def split: if_splits option.splits prod.splits sum.splits)

lemma proc_next_Reverse:
  assumes "proc_next (Reverse c) s = Some (p, s')"
  shows "(\<exists>stream x. c = Answered (Inr (stream, x)) \<and> p = Ended \<and> s' = addStreams x (-1) s) \<or>
    (\<exists>e. c = Answered (Inl e) \<and> p = Ended \<and> s' = s) \<or>
    (\<exists>c'. reverse_next c s = Some (c', s') \<and> p = Reverse c')"
  using assms by (cases "(Reverse c, s)" rule: proc_next.cases) auto

lemma proc_next_counts:
  assumes "proc_next p s = Some (p', s')"
  shows "ss_streams (sv_heap s' x) + of_bool (counts_on p = Some x) =
    ss_streams (sv_heap s x) + of_bool (counts_on p' = Some x)"
proof (cases "\<exists>c. p = Reverse c")
  case True
  then obtain c where p: "p = Reverse c" by blast
  from proc_next_Reverse [OF assms [unfolded p]] show ?thesis
    by (auto simp: p dest: reverse_next_counts [of _ _ _ _ x])
next
  case False
  with assms smux_OpenStream_streams [of _ s] show ?thesis
    by (cases p) (auto split: if_splits prod.splits sum.splits)
qed

text \<open>The pool only loses a session, a closed one stays closed, and no new name appears.\<close>

definition tame :: "server \<Rightarrow> server \<Rightarrow> bool" where
  "tame s s' \<longleftrightarrow> (sv_sessions s' = sv_sessions s \<or> (\<exists>x. sv_sessions s' = remove1 x (sv_sessions s))) \<and>
     (\<forall>x. ss_closed (sv_heap s x) \<longrightarrow> ss_closed (sv_heap s' x))"

lemma tame_simps [simp]:
  "tame s s" "tame s (addStreams x d s)" "tame s (dropStream x c s)" "tame s (closeSess x s)"
  "tame s (removeSession x s)" "tame s (s\<lparr>sv_poolIdx := i\<rparr>)"
  by (auto simp: tame_def removeSession_def remove_session_eq closeSess_def)

lemma smux_OpenStream_tame: "smux_OpenStream x s = (r, s') \<Longrightarrow> tame s s'"
  using smux_OpenStream_spec [of x s r s'] by (simp add: tame_def)

lemma reverse_next_tame: "reverse_next c s = Some (c', s') \<Longrightarrow> tame s s'"
  using smux_OpenStream_tame [of _ s]
  by (cases "(c, s)" rule: reverse_next.cases)
    (auto simp: Let_def split: if_splits option.splits prod.splits sum.splits)

lemma proc_next_tame:
  assumes "proc_next p s = Some (p', s')"
  shows "tame s s'"
proof (cases "\<exists>c. p = Reverse c")
  case True
  then obtain c where p: "p = Reverse c" by blast
  from proc_next_Reverse [OF assms [unfolded p]] show ?thesis by (auto dest: reverse_next_tame)
next
  case False
  with assms smux_OpenStream_tame [of _ s] show ?thesis
    by (cases p) (auto split: prod.splits sum.splits)
qed

lemma index_in_pool:
  assumes "sv_sessions s \<noteq> []" and "\<not> go_rem k (int (length (sv_sessions s))) < 0"
  shows "sv_sessions s ! nat (go_rem k (int (length (sv_sessions s)))) \<in> set (sv_sessions s)"
proof (rule nth_mem)
  have "\<bar>go_rem k (int (length (sv_sessions s)))\<bar> < int (length (sv_sessions s))"
    using assms(1) by (cases "k = 0") (simp_all add: go_rem_def abs_mult abs_sgn_eq)
  with assms(2) show "nat (go_rem k (int (length (sv_sessions s)))) < length (sv_sessions s)"
    by (simp add: nat_less_iff)
qed

lemma reverse_next_mentions:
  assumes "reverse_next c s = Some (c', s')"
  shows "call_mentions c' \<subseteq> call_mentions c \<union> set (sv_sessions s)"
proof (cases "\<exists>t start i. c = ScanAt t start i")
  case True
  then obtain t start i where c: "c = ScanAt t start i" by blast
  show ?thesis
  proof (cases "i < length (sv_sessions s)")
    case True
    then have "sv_sessions s \<noteq> []" by auto
    note index_in_pool [OF this, of "start + int i"]
    with assms c True show ?thesis by (auto simp: Let_def split: if_splits)
  next
    case False
    with assms c show ?thesis by auto
  qed
next
  case False
  with assms show ?thesis
    by (cases "(c, s)" rule: reverse_next.cases)
      (auto simp: Let_def split: if_splits option.splits prod.splits sum.splits)
qed

lemma proc_next_mentions:
  assumes "proc_next p s = Some (p', s')"
  shows "mentions p' \<subseteq> mentions p \<union> set (sv_sessions s)"
proof (cases "\<exists>c. p = Reverse c")
  case True
  then obtain c where p: "p = Reverse c" by blast
  from proc_next_Reverse [OF assms [unfolded p]] show ?thesis using reverse_next_mentions [of c s] by (auto simp: p)
next
  case False
  with assms show ?thesis by (cases p) (auto split: if_splits prod.splits sum.splits)
qed

section \<open>The invariant\<close>

definition system_ok :: "system \<Rightarrow> bool" where
  "system_ok y \<longleftrightarrow>
     (\<forall>x. ss_streams (sv_heap (sy_srv y) x) = word_of_nat (in_service x y)) \<and>
     distinct (sv_sessions (sy_srv y)) \<and> (\<forall>x \<in> set (sv_sessions (sy_srv y)). x < sy_next y) \<and>
     (\<forall>p \<in> set (sy_procs y). mentions p \<subseteq> {..<sy_next y})"

lemma filter_update:
  "k < length ps \<Longrightarrow> length (filter P (ps[k := q])) + of_bool (P (ps ! k)) = length (filter P ps) + of_bool (P q)"
proof (induction ps arbitrary: k)
  case (Cons p ps)
  then show ?case by (cases k) auto
qed simp

lemma in_service_update:
  assumes "k < length (sy_procs y)"
  shows "in_service x (y\<lparr>sy_srv := s, sy_procs := (sy_procs y)[k := p]\<rparr>) + of_bool (counts_on (sy_procs y ! k) = Some x) =
    in_service x y + of_bool (counts_on p = Some x)"
  using filter_update [OF assms, of "\<lambda>p. counts_on p = Some x" p] by (simp add: in_service_def)

lemma in_service_fresh:
  assumes "system_ok y"
  shows "in_service (sy_next y) y = 0"
  using assms counts_mentions by (fastforce simp: system_ok_def in_service_def filter_empty_conv)

lemma run_counts:
  assumes "system_ok y" and "k < length (sy_procs y)" and "proc_next (sy_procs y ! k) (sy_srv y) = Some (p, s)"
  shows "ss_streams (sv_heap s x) = word_of_nat (in_service x (y\<lparr>sy_srv := s, sy_procs := (sy_procs y)[k := p]\<rparr>))"
proof -
  let ?z = "y\<lparr>sy_srv := s, sy_procs := (sy_procs y)[k := p]\<rparr>"
  let ?a = "of_bool (counts_on (sy_procs y ! k) = Some x) :: 64 word" and ?b = "of_bool (counts_on p = Some x) :: 64 word"
  have "word_of_nat (in_service x ?z) + ?a =
      (word_of_nat (in_service x ?z + of_bool (counts_on (sy_procs y ! k) = Some x)) :: 64 word)" by simp
  also have "\<dots> = word_of_nat (in_service x y + of_bool (counts_on p = Some x))"
    by (simp only: in_service_update [OF assms(2)])
  also have "\<dots> = ss_streams (sv_heap (sy_srv y) x) + ?b" using assms(1) by (simp add: system_ok_def)
  also have "\<dots> = ss_streams (sv_heap s x) + ?a" by (rule proc_next_counts [OF assms(3), symmetric])
  finally show ?thesis by simp
qed

lemma run_ok:
  assumes "system_ok y" and "k < length (sy_procs y)" and "proc_next (sy_procs y ! k) (sy_srv y) = Some (p, s)"
  shows "system_ok (y\<lparr>sy_srv := s, sy_procs := (sy_procs y)[k := p]\<rparr>)"
proof -
  note t = proc_next_tame [OF assms(3)]
  have "set (sv_sessions s) \<subseteq> set (sv_sessions (sy_srv y))" "distinct (sv_sessions s)"
    using t assms(1) set_remove1_subset by (fastforce simp: tame_def system_ok_def)+
  moreover have "mentions p \<subseteq> {..<sy_next y}"
  proof -
    have "mentions (sy_procs y ! k) \<subseteq> {..<sy_next y}" using assms(1,2) by (simp add: system_ok_def)
    moreover have "set (sv_sessions (sy_srv y)) \<subseteq> {..<sy_next y}" using assms(1) by (auto simp: system_ok_def)
    ultimately show ?thesis using proc_next_mentions [OF assms(3)] by blast
  qed
  moreover have "set ((sy_procs y)[k := p]) \<subseteq> insert p (set (sy_procs y))" by (rule set_update_subset_insert)
  ultimately have "\<forall>q \<in> set ((sy_procs y)[k := p]). mentions q \<subseteq> {..<sy_next y}"
    using assms(1) unfolding system_ok_def by blast
  with \<open>set (sv_sessions s) \<subseteq> set (sv_sessions (sy_srv y))\<close> \<open>distinct (sv_sessions s)\<close> show ?thesis
    using assms(1) run_counts [OF assms] unfolding system_ok_def by auto
qed

lemma srv_step_ok: "srv_step may y z \<Longrightarrow> system_ok y \<Longrightarrow> system_ok z"
proof (induction rule: srv_step.induct)
  case (connect y remote now opens)
  have "in_service x (tunnel_open remote now opens y) = in_service x y" for x
    by (simp add: in_service_def tunnel_open_def)
  moreover have "mentions p \<subseteq> {..<Suc (sy_next y)}" if "p \<in> set (sy_procs y)" for p
    using connect(2) that by (force simp: system_ok_def)
  ultimately show ?case
    using connect in_service_fresh [OF connect(2)]
    by (auto simp: system_ok_def tunnel_open_def addSession_def fresh_session_def less_Suc_eq)
next
  case (spawn y p)
  then have "counts_on p = None" "mentions p \<subseteq> {..<sy_next y}"
    by (force simp: starts_def system_ok_def)+
  with spawn show ?case by (auto simp: system_ok_def in_service_def)
next
  case (run k y p s)
  from run_ok [OF run(5,1,2)] show ?case .
next
  case (tick y keep)
  then show ?case by (auto simp: system_ok_def in_service_def evict_some_def)
qed (auto simp: system_ok_def in_service_def)

lemma srv_reach_ok: "srv_reach may y z \<Longrightarrow> system_ok y \<Longrightarrow> system_ok z"
  by (induction rule: srv_reach.induct) (auto intro: srv_step_ok)

lemma sint_zero: "sint (w :: 64 word) = 0 \<Longrightarrow> w = 0"
  by (metis signed_word_eqI sint_0)

lemma started_ok: "started y \<Longrightarrow> system_ok y"
  by (auto simp: started_def system_ok_def in_service_def counts_def dest: sint_zero)

text \<open>
  C8. However the server's goroutines interleave, at the grain of their atomic accesses and whatever
  smux answers, a session's counter is the number of goroutines between their addition to it and
  their subtraction, as a 64-bit number, hence exactly that number as long as there are fewer than
  2^63; when there is none it is zero again. No session is in the pool twice.
\<close>

theorem stream_counters_exact:
  assumes "srv_reach may y z" and "started y"
  shows "(\<forall>x. counts (sy_srv z) x = i64 (int (in_service x z))) \<and>
    (\<forall>x. in_service x z < 2 ^ 63 \<longrightarrow> counts (sy_srv z) x = int (in_service x z)) \<and>
    ((\<forall>p \<in> set (sy_procs z). counts_on p = None) \<longrightarrow> (\<forall>x. counts (sy_srv z) x = 0)) \<and>
    distinct (sv_sessions (sy_srv z))"
proof -
  have ok: "system_ok z" using srv_reach_ok [OF assms(1) started_ok [OF assms(2)]] .
  have c: "counts (sy_srv z) x = i64 (int (in_service x z))" for x
    using ok i64_sint [of 0 "int (in_service x z)"] by (simp add: counts_def system_ok_def)
  have small: "i64 (int (in_service x z)) = int (in_service x z)" if "in_service x z < 2 ^ 63" for x
    using that by (intro i64_small) simp_all
  have "in_service x z = 0" if "\<forall>p \<in> set (sy_procs z). counts_on p = None" for x
    using that by (simp add: in_service_def filter_empty_conv)
  with small have "counts (sy_srv z) x = 0" if "\<forall>p \<in> set (sy_procs z). counts_on p = None" for x
    using that c [of x] by simp
  with c small ok show ?thesis by (simp add: system_ok_def)
qed

definition demo_system :: system where
  "demo_system = \<lparr>sy_srv = \<lparr>sv_Config = zero_config, sv_sessions = [], sv_poolIdx = 0,
     sv_heap = (\<lambda>_. demo_session True 0)\<rparr>, sy_procs = [], sy_next = 0\<rparr>"

text \<open>One tunnel with two streams of the client in service.\<close>

lemma demo_two_streams:
  "\<exists>z. srv_reach may demo_system z \<and> sy_procs z = [TunnelUp 0, Serving 0, Serving 0]"
proof -
  let ?a = "tunnel_open [] 0 [] demo_system"
  let ?b = "?a\<lparr>sy_procs := [TunnelUp 0, Forward 0]\<rparr>"
  let ?c = "?b\<lparr>sy_procs := [TunnelUp 0, Forward 0, Forward 0]\<rparr>"
  let ?d = "?c\<lparr>sy_srv := addStreams 0 1 (sy_srv ?c), sy_procs := [TunnelUp 0, Serving 0, Forward 0]\<rparr>"
  let ?e = "?d\<lparr>sy_srv := addStreams 0 1 (sy_srv ?d), sy_procs := [TunnelUp 0, Serving 0, Serving 0]\<rparr>"
  have n: "sy_procs ?a = [TunnelUp 0]" "sy_procs demo_system = []"
    by (simp_all add: tunnel_open_def demo_system_def)
  have "srv_step may demo_system ?a" by (rule srv_step.connect) (simp add: unlocked_def n)
  moreover have "srv_step may ?a ?b" using srv_step.spawn [of ?a "Forward 0" may] n by (simp add: starts_def)
  moreover have "srv_step may ?b ?c" using srv_step.spawn [of ?b "Forward 0" may] by (simp add: starts_def)
  moreover have "srv_step may ?c ?d"
    using srv_step.run [of 1 ?c "Serving 0" "addStreams 0 1 (sy_srv ?c)" may] by simp
  moreover have "srv_step may ?d ?e"
    using srv_step.run [of 2 ?d "Serving 0" "addStreams 0 1 (sy_srv ?d)" may] by simp
  ultimately have "srv_reach may demo_system ?e" by (meson srv_start srv_more)
  then show ?thesis by fastforce
qed

theorem stream_counters_exact_witness:
  "\<exists>z. srv_reach (\<lambda>_ _. True) demo_system z \<and> in_service 0 z = 2 \<and> counts (sy_srv z) 0 = 2"
proof -
  obtain z where z: "srv_reach (\<lambda>_ _. True) demo_system z" "sy_procs z = [TunnelUp 0, Serving 0, Serving 0]"
    using demo_two_streams by blast
  then have n: "in_service 0 z = 2" by (simp add: in_service_def)
  have "started demo_system" by (simp add: started_def demo_system_def counts_def demo_session_def)
  from stream_counters_exact [OF z(1) this] n have "counts (sy_srv z) 0 = 2" by (simp add: i64_small)
  with z n show ?thesis by blast
qed

end
