(* ===== verification/SmuxCfg.thy ===== *)
theory SmuxCfg
  imports ConfigProps Streams
begin

text \<open>
  server.go: \<open>buildSmuxConfig\<close>, which both ends call for every session. What
  \<open>smux.DefaultConfig()\<close> returns is smux's: an argument.
\<close>

section \<open>buildSmuxConfig\<close>

record smuxcfg =
  sc_Version :: int
  sc_KeepAliveInterval :: int
  sc_KeepAliveTimeout :: int
  sc_MaxFrameSize :: int
  sc_MaxReceiveBuffer :: int
  sc_MaxStreamBuffer :: int

definition jittered :: "int \<Rightarrow> int \<Rightarrow> world \<Rightarrow> int \<times> world" where
  "jittered keepalive j w =
     (if j > 0 then
        (case secureRandInt (i64 (j * 1000)) w of (r, w) \<Rightarrow>
           let jitter = i64 (r - i64 (j * 500));
               keepalive = i64 (keepalive + i64 (jitter * millisecond))
           in (if keepalive < 500 * millisecond then 500 * millisecond else keepalive, w))
      else (keepalive, w))"

definition buildSmuxConfig :: "smuxcfg \<Rightarrow> Config \<Rightarrow> world \<Rightarrow> smuxcfg \<times> world" where
  "buildSmuxConfig dflt cfg w =
     (let version = sm_Version (Smux cfg);
          version = (if version < 1 then 2 else version);
          keepalive = i64 (sm_KeepAlive (Smux cfg) * second);
          keepalive = (if keepalive \<le> 0 then 2 * second else keepalive)
      in case jittered keepalive (st_KeepaliveJitter (Stealth cfg)) w of (keepalive, w) \<Rightarrow>
           let timeout = i64 (keepalive * 15);
               timeout = (if timeout < 30 * second then 30 * second else timeout)
           in (dflt\<lparr>sc_Version := version, sc_KeepAliveInterval := keepalive,
                 sc_KeepAliveTimeout := timeout,
                 sc_MaxReceiveBuffer :=
                   (if sm_MaxRecv (Smux cfg) > 0 then sm_MaxRecv (Smux cfg) else sc_MaxReceiveBuffer dflt),
                 sc_MaxStreamBuffer :=
                   (if sm_MaxStream (Smux cfg) > 0 then sm_MaxStream (Smux cfg) else sc_MaxStreamBuffer dflt),
                 sc_MaxFrameSize :=
                   (if sm_FrameSize (Smux cfg) > 0 then sm_FrameSize (Smux cfg) else sc_MaxFrameSize dflt)\<rparr>, w))"

lemma jittered_bounds:
  assumes "0 < ka" "ka \<le> 1000000 * second" "0 < j" "j \<le> 1000000" and "jittered ka j w = (r, w')"
  shows "500 * millisecond \<le> r" "r < max (ka + j * 500 * millisecond) (501 * millisecond)"
    and "500 * millisecond \<le> ka - j * 500 * millisecond \<Longrightarrow> ka - j * 500 * millisecond \<le> r"
proof -
  obtain d w1 where d: "secureRandInt (i64 (j * 1000)) w = (d, w1)" by (metis prod.collapse)
  have i1: "i64 (j * 1000) = j * 1000" "i64 (j * 500) = j * 500"
    using assms(3,4) by (intro i64_small; simp)+
  have db: "0 \<le> d" "d < j * 1000"
    using secureRandInt_nonneg [OF d] secureRandInt_less [OF d] assms(3) unfolding i1 by simp_all
  have i2: "i64 (d - j * 500) = d - j * 500" using db assms(4) by (intro i64_small) linarith+
  have i3: "i64 ((d - j * 500) * millisecond) = (d - j * 500) * millisecond"
    using db assms(4) by (intro i64_small) (simp_all add: millisecond_def)
  have i4: "i64 (ka + (d - j * 500) * millisecond) = ka + (d - j * 500) * millisecond"
    using db assms(1-4) by (intro i64_small) (simp_all add: millisecond_def second_def)
  have r: "r = (if ka + (d - j * 500) * millisecond < 500 * millisecond then 500 * millisecond
      else ka + (d - j * 500) * millisecond)"
    using assms(3,5) d unfolding jittered_def i1 by (simp add: Let_def i2 [unfolded i1] i3 i4 split: if_splits)
  have m: "(d - j * 500) * millisecond < j * 500 * millisecond" "- (j * 500) * millisecond \<le> (d - j * 500) * millisecond"
    using db by (simp_all add: millisecond_def)
  show "500 * millisecond \<le> r" using r by simp
  show "r < max (ka + j * 500 * millisecond) (501 * millisecond)"
    using r m unfolding millisecond_def by (simp split: if_splits)
  show "ka - j * 500 * millisecond \<le> r" if "500 * millisecond \<le> ka - j * 500 * millisecond"
    using r m by (simp split: if_splits)
qed

text \<open>
  C33. With a loaded configuration whose keepalive and jitter are at most a million seconds, the
  keepalive interval is at least half a second and within half the jitter of the configured one on
  both sides (not the whole of it), the timeout is at least thirty seconds and fifteen times the
  interval or more, and the buffer and frame sizes are the configured ones.
\<close>

theorem smux_config_bounds:
  assumes "LoadConfig y bm path s = (Inr c, s')" and "buildSmuxConfig dflt c w = (sc, w')"
    and "sm_KeepAlive (Smux c) \<le> 1000000" and "st_KeepaliveJitter (Stealth c) \<le> 1000000"
  shows "500 * millisecond \<le> sc_KeepAliveInterval sc \<and>
    sc_KeepAliveInterval sc <
      sm_KeepAlive (Smux c) * second + st_KeepaliveJitter (Stealth c) * 500 * millisecond \<and>
    sm_KeepAlive (Smux c) * second - st_KeepaliveJitter (Stealth c) * 500 * millisecond \<le>
      sc_KeepAliveInterval sc \<and>
    30 * second \<le> sc_KeepAliveTimeout sc \<and> 15 * sc_KeepAliveInterval sc \<le> sc_KeepAliveTimeout sc \<and>
    sc_MaxReceiveBuffer sc = sm_MaxRecv (Smux c) \<and> sc_MaxStreamBuffer sc = sm_MaxStream (Smux c) \<and>
    sc_MaxFrameSize sc = sm_FrameSize (Smux c) \<and> sc_Version sc = sm_Version (Smux c)"
proof -
  let ?k = "sm_KeepAlive (Smux c)" and ?j = "st_KeepaliveJitter (Stealth c)"
  have p: "0 < ?k" "0 < ?j" "0 < sm_MaxRecv (Smux c)" "0 < sm_MaxStream (Smux c)" "0 < sm_FrameSize (Smux c)"
      "0 < sm_Version (Smux c)"
    using loaded_config_ok [OF assms(1)] by (simp_all add: config_ok_def based_def smux_pos_def stealth_pos_def)
  have "i64 (?k * second) = ?k * second"
    using p(1) assms(3) by (intro i64_small) (simp_all add: second_def)
  moreover have "0 < ?k * second" "?k * second \<le> 1000000 * second"
    using p(1) assms(3) by (simp_all add: second_def)
  ultimately have k: "i64 (?k * second) = ?k * second" "0 < ?k * second" "?k * second \<le> 1000000 * second"
    by blast+
  obtain r w1 where r: "jittered (?k * second) ?j w = (r, w1)" by (metis prod.collapse)
  note b = jittered_bounds [OF k(2,3) p(2) assms(4) r]
  have u: "r < ?k * second + ?j * 500 * millisecond"
    using b(2) p(1,2) by (simp add: second_def millisecond_def)
  then have "i64 (r * 15) = r * 15"
    using b(1) assms(3,4) by (intro i64_small) (simp_all add: second_def millisecond_def)
  then have sc: "sc = dflt\<lparr>sc_Version := sm_Version (Smux c), sc_KeepAliveInterval := r,
      sc_KeepAliveTimeout := (if r * 15 < 30 * second then 30 * second else r * 15),
      sc_MaxReceiveBuffer := sm_MaxRecv (Smux c), sc_MaxStreamBuffer := sm_MaxStream (Smux c),
      sc_MaxFrameSize := sm_FrameSize (Smux c)\<rparr>"
    using assms(2) p k r by (simp add: buildSmuxConfig_def Let_def cong: if_cong)
  have "?k * second - ?j * 500 * millisecond \<le> r"
    using b(1,3) by linarith
  with b(1) u show ?thesis by (simp add: sc)
qed

theorem smux_config_bounds_witness:
  "\<exists>c s' sc w'. LoadConfig (demo_yaml zero_config) (\<lambda>_. 0) ''f'' (demo_fs 2) = (Inr c, s') \<and>
     buildSmuxConfig \<lparr>sc_Version = 1, sc_KeepAliveInterval = 0, sc_KeepAliveTimeout = 0,
       sc_MaxFrameSize = 0, sc_MaxReceiveBuffer = 0, sc_MaxStreamBuffer = 0\<rparr> c
       \<lparr>w_entropy = [Some 7], w_sleeps = []\<rparr> = (sc, w') \<and>
     1 * second \<le> sc_KeepAliveInterval sc \<and> sc_KeepAliveInterval sc < 3 * second"
proof -
  let ?c = "prepare (\<lambda>_. 0) (zero_config\<lparr>ConfigVersion := 2\<rparr>)"
  let ?d = "\<lparr>sc_Version = 1, sc_KeepAliveInterval = 0, sc_KeepAliveTimeout = 0,
       sc_MaxFrameSize = 0, sc_MaxReceiveBuffer = 0, sc_MaxStreamBuffer = 0\<rparr>"
  have v: "ConfigVersion ?c = 2" "sm_KeepAlive (Smux ?c) = 2" "st_KeepaliveJitter (Stealth ?c) = 2"
    by (simp_all add: prepare_defs string_eval zero_config_def zero_smux_def)
  then have l: "LoadConfig (demo_yaml zero_config) (\<lambda>_. 0) ''f'' (demo_fs 2) = (Inr ?c, demo_fs 2)"
    by (simp add: demo_LoadConfig migrateConfig_def CurrentConfigVersion_def)
  obtain sc w' where b: "buildSmuxConfig ?d ?c \<lparr>w_entropy = [Some 7], w_sleeps = []\<rparr> = (sc, w')"
    by (metis prod.collapse)
  have "1 * second \<le> sc_KeepAliveInterval sc \<and> sc_KeepAliveInterval sc < 3 * second"
    using smux_config_bounds [OF l b] unfolding v by (simp add: second_def millisecond_def)
  with l b show ?thesis by blast
qed

end
