(* ===== verification/NetConn.thy ===== *)
theory NetConn
  imports Fragment
begin

text \<open>
  \<open>net.Conn\<close> as the handshake sees it: \<open>Read\<close>, \<open>Write\<close> and \<open>Close\<close> on whatever was
  dialled, package bufio's reader over it, and mimic.go's \<open>bufferedConn\<close>, which keeps that reader
  so that bytes read ahead of the HTTP response are not lost. It is a sink and a source.
\<close>

section \<open>Read, Write and Close of what was dialled\<close>

fun nc_conn :: "netconn \<Rightarrow> conn" where
  "nc_conn (TCPConn s) = so_conn s"
| "nc_conn (Fragmented f) = so_conn (fc_Conn f)"
| "nc_conn (UConn sni c) = c"

fun nc_upd :: "conn \<Rightarrow> netconn \<Rightarrow> netconn" where
  "nc_upd c (TCPConn s) = TCPConn (s\<lparr>so_conn := c\<rparr>)"
| "nc_upd c (Fragmented f) = Fragmented (f\<lparr>fc_Conn := (fc_Conn f)\<lparr>so_conn := c\<rparr>\<rparr>)"
| "nc_upd c (UConn sni _) = UConn sni c"

definition nc_Read :: "nat \<Rightarrow> netconn \<Rightarrow> (bytes \<times> gerror option) \<times> netconn" where
  "nc_Read n nc = (case conn_read n (nc_conn nc) of (r, c) \<Rightarrow> (r, nc_upd c nc))"

text \<open>\<open>FragmentedConn\<close> has a \<open>Write\<close> of its own; its \<open>Read\<close> and \<open>Close\<close> are the socket's.\<close>

fun nc_Write :: "netconn writer" where
  "nc_Write (Fragmented f) b w = obind (fc_Write f b w) (\<lambda>(r, f, w). Return (r, Fragmented f, w))"
| "nc_Write nc b w = (case conn_write (nc_conn nc) b of (r, c) \<Rightarrow> Return (r, nc_upd c nc, w))"

definition nc_Close :: "netconn \<Rightarrow> netconn" where
  "nc_Close nc = nc_upd (conn_close (nc_conn nc)) nc"

definition nc_SetReadDeadline :: "nat option \<Rightarrow> netconn \<Rightarrow> netconn" where
  "nc_SetReadDeadline d nc = nc_upd ((nc_conn nc)\<lparr>deadline := d\<rparr>) nc"

lemma nc_conn_upd [simp]: "nc_conn (nc_upd c nc) = c"
  by (cases nc) simp_all

definition nc_ok :: "netconn \<Rightarrow> bool" where
  "nc_ok nc = (case nc of Fragmented f \<Rightarrow> 0 \<le> fc_fragmentSize f | _ \<Rightarrow> True)"

definition nc_sent :: "netconn \<Rightarrow> bytes" where
  "nc_sent nc = tx (nc_conn nc)"

lemma nc_ok_upd [simp]: "nc_ok (nc_upd c nc) = nc_ok nc"
  by (cases nc) (simp_all add: nc_ok_def)

lemma nc_SetReadDeadline_sel [simp]:
  "nc_conn (nc_SetReadDeadline d nc) = (nc_conn nc)\<lparr>deadline := d\<rparr>"
  "nc_ok (nc_SetReadDeadline d nc) = nc_ok nc" "nc_sent (nc_SetReadDeadline d nc) = nc_sent nc"
  by (simp_all add: nc_SetReadDeadline_def nc_sent_def tx_def)

interpretation net_sink: byte_sink nc_Write nc_sent nc_ok "\<lambda>_ _. True"
proof
  fix s :: netconn and d :: bytes and w :: world
  assume ok: "nc_ok s"
  show "\<exists>n e s' w'. nc_Write s d w = Return ((n, e), s', w') \<and>
      (e = None \<longrightarrow> n = length d \<and> nc_ok s' \<and> nc_sent s' = nc_sent s @ d \<and> (\<lambda>_. True) = (\<lambda>_. True))"
  proof (cases "\<exists>f. s = Fragmented f")
    case True
    with ok obtain f where f: "s = Fragmented f" "0 \<le> fc_fragmentSize f" by (auto simp: nc_ok_def)
    from frag_sink.wr_ok [OF f(2) TrueI, of d w] show ?thesis
      by (auto simp: f(1) nc_ok_def nc_sent_def fc_sent_def)
  next
    case False
    then have "nc_Write s d w = (case conn_write (nc_conn s) d of (r, c) \<Rightarrow> Return (r, nc_upd c s, w))"
      by (cases s) simp_all
    with ok conn_write_None [of "nc_conn s" d] show ?thesis
      by (cases "conn_write (nc_conn s) d") (auto simp: nc_sent_def)
  qed
qed

section \<open>bufio.Reader\<close>

text \<open>
  \<open>bc_r\<close> is what the reader holds and has not given out, at most 4096 bytes. A read error of the
  connection comes without bytes, so the reader's own error field is never set.
\<close>

record bufferedConn =
  bc_Conn :: netconn
  bc_r :: bytes

definition bufsize :: nat where
  "bufsize = 4096"

definition NewReader :: "netconn \<Rightarrow> bufferedConn" where
  "NewReader nc = \<lparr>bc_Conn = nc, bc_r = []\<rparr>"

definition bc_conn :: "bufferedConn \<Rightarrow> conn" where
  "bc_conn b = nc_conn (bc_Conn b)"

text \<open>
  \<open>Reader.Read\<close>: the buffer first; an empty buffer is filled by one read, which large requests
  bypass.
\<close>

definition bc_Read :: "bufferedConn reader" where
  "bc_Read b k =
     Return
      (if bc_r b \<noteq> [] then ((take k (bc_r b), None), b\<lparr>bc_r := drop k (bc_r b)\<rparr>)
       else if k = 0 then (([], None), b)
       else if k \<ge> bufsize then
         (case nc_Read k (bc_Conn b) of (r, nc) \<Rightarrow> (r, b\<lparr>bc_Conn := nc\<rparr>))
       else
         (case nc_Read bufsize (bc_Conn b) of
           ((bs, Some e), nc) \<Rightarrow> ((bs, Some e), b\<lparr>bc_Conn := nc\<rparr>)
         | ((bs, None), nc) \<Rightarrow> ((take k bs, None), b\<lparr>bc_Conn := nc, bc_r := drop k bs\<rparr>)))"

definition bc_Write :: "bufferedConn writer" where
  "bc_Write b d w = obind (nc_Write (bc_Conn b) d w) (\<lambda>(r, nc, w). Return (r, b\<lparr>bc_Conn := nc\<rparr>, w))"

text \<open>What is still to be read, and the plain connection that would give out the same.\<close>

definition bc_left :: "bufferedConn \<Rightarrow> bytes" where
  "bc_left b = bc_r b @ rx (bc_conn b)"

definition bc_flat :: "bufferedConn \<Rightarrow> conn" where
  "bc_flat b = (bc_conn b)\<lparr>rx := bc_left b\<rparr>"

lemma nc_Read_None:
  assumes "nc_Read n nc = ((bs, None), nc')" and "0 < n"
  shows "rx (nc_conn nc) = bs @ rx (nc_conn nc') \<and> bs \<noteq> [] \<and> length bs \<le> n \<and>
    tx (nc_conn nc') = tx (nc_conn nc) \<and> rerr (nc_conn nc') = rerr (nc_conn nc) \<and> nc_ok nc' = nc_ok nc \<and>
    werrs (nc_conn nc') = werrs (nc_conn nc)"
  using assms conn_read_None [of n "nc_conn nc" bs] by (auto simp: nc_Read_def split: prod.splits)

lemma nc_upd_same [simp]: "nc_upd (nc_conn nc) nc = nc"
  by (cases nc) simp_all

lemma nc_Read_Some:
  "nc_Read n nc = ((bs, Some e), nc') \<longleftrightarrow> bs = [] \<and> rx (nc_conn nc) = [] \<and> e = rerr (nc_conn nc) \<and> nc' = nc"
  by (auto simp: nc_Read_def conn_read_def Let_def split: if_splits)

definition bc_pending :: "bufferedConn \<Rightarrow> bytes option" where
  "bc_pending b = (if rerr (bc_conn b) = EOF then Some (bc_left b) else None)"

text \<open>One read: a front of what is left, or the connection's error when nothing is.\<close>

lemma bc_Read_spec:
  assumes "0 < k"
  shows "\<exists>bs e b'. bc_Read b k = Return ((bs, e), b') \<and> bc_left b = bs @ bc_left b' \<and> length bs \<le> k \<and>
    rerr (bc_conn b') = rerr (bc_conn b) \<and> tx (bc_conn b') = tx (bc_conn b) \<and>
    (if bc_left b = [] then bs = [] \<and> e = Some (rerr (bc_conn b)) \<and> b' = b else bs \<noteq> [] \<and> e = None)"
proof (cases "bc_r b = []")
  case False
  with assms show ?thesis by (auto simp: bc_Read_def bc_left_def bc_conn_def)
next
  case True
  define m where m: "m = (if k \<ge> bufsize then k else bufsize)"
  have m0: "0 < m" using assms by (simp add: m bufsize_def)
  obtain bs e nc where r: "nc_Read m (bc_Conn b) = ((bs, e), nc)" by (metis prod.collapse)
  show ?thesis
  proof (cases e)
    case None
    note n = nc_Read_None [OF r [unfolded None] m0]
    show ?thesis
    proof (cases "k \<ge> bufsize")
      case True
      with r None n m assms \<open>bc_r b = []\<close> show ?thesis
        by (auto simp: bc_Read_def bc_left_def bc_conn_def)
    next
      case False
      with r None n m assms \<open>bc_r b = []\<close> show ?thesis
        by (auto simp: bc_Read_def bc_left_def bc_conn_def)
    qed
  next
    case (Some x)
    with r have "bs = []" "rx (nc_conn (bc_Conn b)) = []" "x = rerr (nc_conn (bc_Conn b))" "nc = bc_Conn b"
      by (simp_all add: nc_Read_Some)
    with r Some m assms True show ?thesis
      by (cases "k \<ge> bufsize") (auto simp: bc_Read_def bc_left_def bc_conn_def)
  qed
qed

interpretation buf_source: byte_source bc_Read bc_pending "\<lambda>b. bc_left b \<noteq> []" "\<lambda>b. length (bc_left b)"
proof
  fix b :: bufferedConn and q :: bytes and k :: nat
  assume p: "bc_pending b = Some q"
  then have eof: "rerr (bc_conn b) = EOF" and q: "q = bc_left b"
    by (auto simp: bc_pending_def split: if_splits)
  have zero: "bc_Read b 0 = Return (([], None), b)" by (simp add: bc_Read_def)
  show "bc_left b \<noteq> [] \<Longrightarrow>
      \<exists>bs r' q'. bc_Read b k = Return ((bs, None), r') \<and> bc_pending r' = Some q' \<and> q = bs @ q' \<and>
        length bs \<le> k \<and> (0 < k \<longrightarrow> length (bc_left r') < length (bc_left b))"
  proof (cases "k = 0")
    case True
    with zero p q show ?thesis by simp
  next
    case False
    assume ne: "bc_left b \<noteq> []"
    from False ne bc_Read_spec [of k b] obtain bs b' where "bc_Read b k = Return ((bs, None), b')"
        "bc_left b = bs @ bc_left b'" "length bs \<le> k" "rerr (bc_conn b') = rerr (bc_conn b)" "bs \<noteq> []"
      by auto
    with q eof show ?thesis by (simp add: bc_pending_def)
  qed
  show "\<not> bc_left b \<noteq> [] \<Longrightarrow>
      q = [] \<and> (\<exists>e. bc_Read b k = Return (([], e), b) \<and> (e = Some EOF \<or> e = None \<and> k = 0))"
    using zero q eof bc_Read_spec [of k b] by (cases "k = 0") auto
qed

interpretation buf_sink: byte_sink bc_Write "\<lambda>b. nc_sent (bc_Conn b)" "\<lambda>b. nc_ok (bc_Conn b)" "\<lambda>_ _. True"
proof
  fix s :: bufferedConn and d :: bytes and w :: world
  assume "nc_ok (bc_Conn s)"
  from net_sink.wr_ok [OF this TrueI, of d w]
  show "\<exists>n e s' w'. bc_Write s d w = Return ((n, e), s', w') \<and>
      (e = None \<longrightarrow> n = length d \<and> nc_ok (bc_Conn s') \<and> nc_sent (bc_Conn s') = nc_sent (bc_Conn s) @ d \<and>
        (\<lambda>_. True) = (\<lambda>_. True))"
    by (auto simp: bc_Write_def)
qed

end
