(* ===== verification/Http.thy ===== *)
theory Http
  imports NetConn Padding "HOL-Library.List_Lexorder" "HOL-Library.Char_ord" "HOL-Library.AList"
begin

text \<open>
  What mimic.go and server.go use of net/http: reading the head of a message line by line through a
  \<open>bufio.Reader\<close>, and not a byte further. What the lines mean is in HttpMsg.
\<close>

section \<open>Reading a head\<close>

definition LF :: byte where "LF = 0x0A"
definition CR :: byte where "CR = 0x0D"

lemma CR_ne_LF: "CR \<noteq> LF"
  by (simp add: CR_def LF_def)

fun drop_cr :: "bytes \<Rightarrow> bytes" where
  "drop_cr [] = []"
| "drop_cr [b] = (if b = CR then [] else [b])"
| "drop_cr (b # c # bs) = b # drop_cr (c # bs)"

text \<open>
  \<open>ReadLine\<close> of a textproto reader. A full buffer without a line end is moved to \<open>acc\<close>; a last
  line without a line end is returned as it is.
\<close>

function readLine :: "bytes \<Rightarrow> bufferedConn \<Rightarrow> (gerror + bytes) \<times> bufferedConn" where
  "readLine acc b =
     (if LF \<in> set (bc_r b) then
        (Inr (drop_cr (acc @ takeWhile (\<lambda>x. x \<noteq> LF) (bc_r b))),
         b\<lparr>bc_r := tl (dropWhile (\<lambda>x. x \<noteq> LF) (bc_r b))\<rparr>)
      else if length (bc_r b) \<ge> bufsize then readLine (acc @ bc_r b) (b\<lparr>bc_r := []\<rparr>)
      else case nc_Read (bufsize - length (bc_r b)) (bc_Conn b) of
          ((bs, None), nc) \<Rightarrow> readLine acc (b\<lparr>bc_Conn := nc, bc_r := bc_r b @ bs\<rparr>)
        | ((_, Some e), nc) \<Rightarrow>
            (if acc @ bc_r b = [] then Inl e else Inr (acc @ bc_r b), b\<lparr>bc_Conn := nc, bc_r := []\<rparr>))"
  by pat_completeness auto
termination
proof (relation "measure (\<lambda>(acc, b). length (bc_r b) + 2 * length (rx (bc_conn b)))", goal_cases)
  case 1
  show ?case by simp
next
  case (2 acc b)
  then show ?case by (auto simp: bc_conn_def bufsize_def)
next
  case (3 acc b p nc bs e)
  then have "nc_Read (bufsize - length (bc_r b)) (bc_Conn b) = ((bs, None), nc)" by simp
  from nc_Read_None [OF this] 3 show ?case by (cases bs) (simp_all add: bc_conn_def)
qed

declare readLine.simps [simp del]

lemma drop_cr_line [simp]: "drop_cr (l @ [CR]) = l"
  by (induction l rule: drop_cr.induct) simp_all

lemma drop_cr_id: "l = [] \<or> last l \<noteq> CR \<Longrightarrow> drop_cr l = l"
  by (induction l rule: drop_cr.induct) simp_all

text \<open>What reading through the buffer does not touch.\<close>

definition bc_same :: "bufferedConn \<Rightarrow> bufferedConn \<Rightarrow> bool" where
  "bc_same b b' \<longleftrightarrow> tx (bc_conn b') = tx (bc_conn b) \<and> rerr (bc_conn b') = rerr (bc_conn b) \<and>
     nc_ok (bc_Conn b') = nc_ok (bc_Conn b) \<and> werrs (bc_conn b') = werrs (bc_conn b)"

lemma bc_same_refl [simp]: "bc_same b b"
  by (simp add: bc_same_def)

lemma bc_same_r [simp]: "bc_same b (b\<lparr>bc_r := x\<rparr>)" "bc_same (b\<lparr>bc_r := x\<rparr>) c = bc_same b c"
  by (simp_all add: bc_same_def bc_conn_def)

lemma bc_same_trans: "bc_same a b \<Longrightarrow> bc_same b c \<Longrightarrow> bc_same a c"
  by (simp add: bc_same_def)

lemma bc_same_nc:
  "nc_Read n (bc_Conn b) = ((bs, None), nc) \<Longrightarrow> 0 < n \<Longrightarrow> bc_same b (b\<lparr>bc_Conn := nc, bc_r := x\<rparr>)"
  using nc_Read_None [of n "bc_Conn b" bs nc] by (simp add: bc_same_def bc_conn_def)

text \<open>Filling a buffer that is not full.\<close>

lemma bc_fill:
  assumes "nc_Read (bufsize - length (bc_r b)) (bc_Conn b) = ((bs, e), nc)" and "length (bc_r b) < bufsize"
  shows "case e of
    None \<Rightarrow> bc_left (b\<lparr>bc_Conn := nc, bc_r := bc_r b @ bs\<rparr>) = bc_left b \<and>
      bc_same b (b\<lparr>bc_Conn := nc, bc_r := bc_r b @ bs\<rparr>)
  | Some x \<Rightarrow> bc_left b = bc_r b \<and> x = rerr (bc_conn b) \<and> nc = bc_Conn b"
proof (cases e)
  case None
  then show ?thesis
    using assms nc_Read_None [of "bufsize - length (bc_r b)" "bc_Conn b" bs nc]
      bc_same_nc [of "bufsize - length (bc_r b)" b bs nc]
    by (simp add: bc_left_def bc_conn_def)
next
  case (Some x)
  with assms(1) show ?thesis by (simp add: nc_Read_Some bc_left_def bc_conn_def)
qed

lemma skip_line:
  "LF \<notin> set r \<Longrightarrow> takeWhile (\<lambda>x. x \<noteq> LF) (r @ t) = r @ takeWhile (\<lambda>x. x \<noteq> LF) t \<and>
     dropWhile (\<lambda>x. x \<noteq> LF) (r @ t) = dropWhile (\<lambda>x. x \<noteq> LF) t"
  by (induction r) auto

lemma split_line:
  assumes "l @ LF # rest = r @ t" and "LF \<notin> set l"
  shows "if LF \<in> set r then takeWhile (\<lambda>x. x \<noteq> LF) r = l \<and> tl (dropWhile (\<lambda>x. x \<noteq> LF) r) @ t = rest
    else \<exists>l'. l = r @ l' \<and> t = l' @ LF # rest"
proof -
  have w: "takeWhile (\<lambda>x. x \<noteq> LF) (r @ t) = l" "dropWhile (\<lambda>x. x \<noteq> LF) (r @ t) = LF # rest"
    unfolding assms(1) [symmetric] using assms(2) by (induction l) auto
  show ?thesis
  proof (cases "LF \<in> set r")
    case True
    with w show ?thesis
      by (metis (mono_tags, lifting) dropWhile_append1 list.sel(3) takeWhile_append1 dropWhile_eq_Nil_conv
          tl_append2)
  next
    case False
    with w skip_line [OF False] show ?thesis by (metis takeWhile_dropWhile_id)
  qed
qed

lemma readLine_line:
  assumes "bc_left b = l @ LF # rest" and "LF \<notin> set l"
  shows "\<exists>b'. readLine acc b = (Inr (drop_cr (acc @ l)), b') \<and> bc_left b' = rest \<and> bc_same b b'"
  using assms
proof (induction acc b arbitrary: l rule: readLine.induct)
  case (1 acc b)
  have eq: "l @ LF # rest = bc_r b @ rx (bc_conn b)" using "1.prems"(1) by (simp add: bc_left_def)
  note sp = split_line [OF eq "1.prems"(2)]
  consider "LF \<in> set (bc_r b)" | "LF \<notin> set (bc_r b)" "bufsize \<le> length (bc_r b)"
    | "LF \<notin> set (bc_r b)" "length (bc_r b) < bufsize" by linarith
  then show ?case
  proof cases
    case 1
    with sp show ?thesis
      by (simp add: readLine.simps [of acc b] bc_left_def bc_conn_def)
  next
    case 2
    with sp obtain l' where l': "l = bc_r b @ l'" "rx (bc_conn b) = l' @ LF # rest" by auto
    have "bc_left (b\<lparr>bc_r := []\<rparr>) = l' @ LF # rest" using l'(2) by (simp add: bc_left_def bc_conn_def)
    from "1.IH"(1) [OF 2 this] "1.prems"(2) 2 l'(1) show ?thesis
      by (simp add: readLine.simps [of acc b])
  next
    case 3
    obtain bs e nc where r: "nc_Read (bufsize - length (bc_r b)) (bc_Conn b) = ((bs, e), nc)"
      by (metis prod.collapse)
    note f = bc_fill [OF r 3(2)]
    have "e = None"
    proof (cases e)
      case (Some x)
      with f "1.prems"(1) have "l @ LF # rest = bc_r b" by simp
      then have "LF \<in> set (bc_r b)" by (metis in_set_conv_decomp)
      with 3 show ?thesis by simp
    qed simp
    note e = r [unfolded this] and g = f [unfolded this, simplified]
    have n: "\<not> bufsize \<le> length (bc_r b)" using 3(2) by simp
    from "1.IH"(2) [OF 3(1) n e [symmetric] refl refl] g "1.prems" obtain b' where
      "readLine acc (b\<lparr>bc_Conn := nc, bc_r := bc_r b @ bs\<rparr>) = (Inr (drop_cr (acc @ l)), b')"
      "bc_left b' = rest" "bc_same (b\<lparr>bc_Conn := nc, bc_r := bc_r b @ bs\<rparr>) b'" by metis
    with 3(1) n e g show ?thesis
      by (auto simp: readLine.simps [of acc b] intro: bc_same_trans)
  qed
qed

lemma readLine_less:
  "readLine acc b = (Inr l, b') \<Longrightarrow> length (bc_left b') < length acc + length (bc_left b)"
proof (induction acc b rule: readLine.induct)
  case (1 acc b)
  consider "LF \<in> set (bc_r b)" | "LF \<notin> set (bc_r b)" "bufsize \<le> length (bc_r b)"
    | "LF \<notin> set (bc_r b)" "length (bc_r b) < bufsize" by linarith
  then show ?case
  proof cases
    case 1
    then have "dropWhile (\<lambda>x. x \<noteq> LF) (bc_r b) \<noteq> []" by (simp add: dropWhile_eq_Nil_conv)
    moreover have "length (dropWhile (\<lambda>x. x \<noteq> LF) (bc_r b)) \<le> length (bc_r b)" by (rule length_dropWhile_le)
    ultimately have "length (tl (dropWhile (\<lambda>x. x \<noteq> LF) (bc_r b))) < length (bc_r b)"
      by (cases "dropWhile (\<lambda>x. x \<noteq> LF) (bc_r b)") auto
    with 1 "1.prems" show ?thesis
      by (auto simp: readLine.simps [of acc b] bc_left_def bc_conn_def)
  next
    case 2
    with "1.IH"(1) [OF 2] "1.prems" show ?thesis
      by (simp add: readLine.simps [of acc b] bc_left_def bc_conn_def)
  next
    case 3
    obtain bs e nc where r: "nc_Read (bufsize - length (bc_r b)) (bc_Conn b) = ((bs, e), nc)"
      by (metis prod.collapse)
    note f = bc_fill [OF r 3(2)]
    have n: "\<not> bufsize \<le> length (bc_r b)" using 3(2) by simp
    show ?thesis
    proof (cases e)
      case None
      from "1.IH"(2) [OF 3(1) n r [unfolded None, symmetric] refl refl] "1.prems" 3(1) n r None f
      show ?thesis by (simp add: readLine.simps [of acc b])
    next
      case (Some x)
      with f r n 3(1) "1.prems" show ?thesis
        by (auto simp: readLine.simps [of acc b] bc_left_def bc_conn_def split: if_splits)
    qed
  qed
qed

text \<open>The header lines, up to and without the empty line that ends them.\<close>

function readHead :: "bufferedConn \<Rightarrow> (gerror + bytes list) \<times> bufferedConn" where
  "readHead b =
     (case readLine [] b of
       (Inl e, b) \<Rightarrow> (Inl (if e = EOF then UnexpectedEOF else e), b)
     | (Inr l, b) \<Rightarrow>
         if l = [] then (Inr [], b)
         else case readHead b of (Inl e, b) \<Rightarrow> (Inl e, b) | (Inr ls, b) \<Rightarrow> (Inr (l # ls), b))"
  by pat_completeness auto
termination
proof (relation "measure (\<lambda>b. length (bc_left b))", goal_cases)
  case 1
  show ?case by simp
next
  case (2 b x b' l)
  then show ?case using readLine_less [of "[]" b l b'] by simp
qed

declare readHead.simps [simp del]

text \<open>A head on the wire: its lines, each ended by CR LF, and an empty line.\<close>

definition crlf :: "bytes list \<Rightarrow> bytes" where
  "crlf ls = concat (map (\<lambda>l. l @ [CR, LF]) ls) @ [CR, LF]"

lemma readHead_crlf:
  assumes "bc_left b = crlf ls @ rest" and "\<forall>l \<in> set ls. l \<noteq> [] \<and> LF \<notin> set l"
  shows "\<exists>b'. readHead b = (Inr ls, b') \<and> bc_left b' = rest \<and> bc_same b b'"
  using assms
proof (induction ls arbitrary: b)
  case Nil
  then have "bc_left b = [CR] @ LF # rest" by (simp add: crlf_def)
  from readLine_line [OF this, of "[]"] show ?case
    by (auto simp: readHead.simps [of b] CR_def LF_def)
next
  case (Cons l ls)
  then have "bc_left b = (l @ [CR]) @ LF # (crlf ls @ rest)" by (simp add: crlf_def)
  from readLine_line [OF this, of "[]"] Cons.prems(2) obtain b1 where b1:
      "readLine [] b = (Inr l, b1)" "bc_left b1 = crlf ls @ rest" "bc_same b b1"
    using CR_ne_LF by auto
  from Cons.IH [OF b1(2)] Cons.prems(2) b1 show ?case
    by (auto simp: readHead.simps [of b] intro: bc_same_trans)
qed

end
