(* ===== verification/HttpMsg.thy ===== *)
theory HttpMsg
  imports Http GoStrings
begin

text \<open>
  Messages of net/http as mimic.go and server.go use them: the status line, header maps with their
  canonical keys, requests and what \<open>httputil.DumpRequest\<close> makes of them, \<open>http.ReadResponse\<close>,
  and the two-pattern \<open>ServeMux\<close> of the server.
\<close>

section \<open>The library\<close>

record URL =
  u_Host :: string
  u_Path :: string
  u_RawQuery :: string

text \<open>
  \<open>http.Request\<close>: the method, the \<open>Host\<close> field, the URL, and the header as an association list
  from canonical keys.
\<close>

record Request =
  rq_Method :: string
  rq_Host :: string
  rq_URL :: URL
  rq_Header :: "(string \<times> string) list"

text \<open>
  \<open>url.Parse\<close>, \<open>String\<close>, \<open>RequestURI\<close> and \<open>EscapedPath\<close> of a URL; the judgement on header lines;
  \<open>http.ReadRequest\<close> on the lines of a head; \<open>net.ParseIP(host) != nil\<close>; the cleaning of
  paths and the unescaping of path segments in \<open>ServeMux\<close>.
\<close>

record httplib =
  url_Parse :: "string \<Rightarrow> gerror + URL"
  url_String :: "URL \<Rightarrow> string"
  url_RequestURI :: "URL \<Rightarrow> string"
  url_EscapedPath :: "URL \<Rightarrow> string"
  http_header :: "bytes list \<Rightarrow> gerror option"
  http_parseRequest :: "bytes list \<Rightarrow> gerror + Request"
  net_ParseIP :: "string \<Rightarrow> bool"
  path_clean :: "string \<Rightarrow> string"
  path_unescape :: "string \<Rightarrow> string"

section \<open>The status line\<close>

definition Cut :: "string \<Rightarrow> char \<Rightarrow> string \<times> string \<times> bool" where
  "Cut s c =
     (case indexByte s c of None \<Rightarrow> (s, [], False) | Some i \<Rightarrow> (take i s, drop (Suc i) s, True))"

definition is_digit :: "char \<Rightarrow> bool" where
  "is_digit c \<longleftrightarrow> 48 \<le> (of_char c :: nat) \<and> (of_char c :: nat) \<le> 57"

definition atoi_digits :: "string \<Rightarrow> int option" where
  "atoi_digits s =
     (if s \<noteq> [] \<and> list_all is_digit s then Some (fold (\<lambda>c n. 10 * n + (of_char c - 48)) s 0) else None)"

text \<open>\<open>strconv.Atoi\<close> on strings short enough not to overflow.\<close>

definition Atoi :: "string \<Rightarrow> int option" where
  "Atoi s = (case s of
       [] \<Rightarrow> None
     | c # cs \<Rightarrow>
         if c = CHR ''-'' then map_option uminus (atoi_digits cs)
         else if c = CHR ''+'' then atoi_digits cs
         else atoi_digits s)"

definition ParseHTTPVersion :: "string \<Rightarrow> bool" where
  "ParseHTTPVersion v \<longleftrightarrow>
     HasPrefix v ''HTTP/'' \<and> length v = 8 \<and> v ! 6 = CHR ''.'' \<and> is_digit (v ! 5) \<and> is_digit (v ! 7)"

definition parseStatus :: "string \<Rightarrow> gerror + int" where
  "parseStatus line =
     (case Cut line (CHR '' '') of (proto, status, ok) \<Rightarrow>
        if \<not> ok then Inl (ErrorfStr ''malformed HTTP response'' line)
        else case Cut (dropWhile (\<lambda>c. c = CHR '' '') status) (CHR '' '') of (code, _, _) \<Rightarrow>
          if length code \<noteq> 3 then Inl (ErrorfStr ''malformed HTTP status code'' code)
          else case Atoi code of
              None \<Rightarrow> Inl (ErrorfStr ''malformed HTTP status code'' code)
            | Some n \<Rightarrow>
                if n < 0 then Inl (ErrorfStr ''malformed HTTP status code'' code)
                else if \<not> ParseHTTPVersion proto then Inl (ErrorfStr ''malformed HTTP version'' proto)
                else Inr n)"

text \<open>\<open>http.ReadResponse\<close>, up to the body it leaves unread: the status code.\<close>

definition ReadResponse :: "httplib \<Rightarrow> bufferedConn \<Rightarrow> (gerror + int) \<times> bufferedConn" where
  "ReadResponse lib b =
     (case readLine [] b of
       (Inl e, b) \<Rightarrow> (Inl (if e = EOF then UnexpectedEOF else e), b)
     | (Inr line, b) \<Rightarrow>
         (case parseStatus (string_of line) of
           Inl e \<Rightarrow> (Inl e, b)
         | Inr code \<Rightarrow>
             (case readHead b of
               (Inl e, b) \<Rightarrow> (Inl e, b)
             | (Inr hs, b) \<Rightarrow>
                 (case http_header lib hs of Some e \<Rightarrow> (Inl e, b) | None \<Rightarrow> (Inr code, b)))))"

section \<open>Header maps\<close>

definition is_token :: "char \<Rightarrow> bool" where
  "is_token c \<longleftrightarrow> is_digit c \<or> c \<in> set ''!#$%&*+-.^_`|~'' \<or> c = CHR 0x27 \<or>
     (let n = (of_char c :: nat) in 65 \<le> n \<and> n \<le> 90 \<or> 97 \<le> n \<and> n \<le> 122)"

definition upper :: "char \<Rightarrow> char" where
  "upper c = (if 97 \<le> (of_char c :: nat) \<and> (of_char c :: nat) \<le> 122 then char_of (of_char c - 32 :: nat) else c)"

fun canonical_from :: "bool \<Rightarrow> string \<Rightarrow> string" where
  "canonical_from up [] = []"
| "canonical_from up (c # cs) =
     (if up then upper c else lower c) # canonical_from (c = CHR ''-'') cs"

definition canonicalKey :: "string \<Rightarrow> string" where
  "canonicalKey s = (if list_all is_token s then canonical_from True s else s)"

definition header_set :: "string \<Rightarrow> string \<Rightarrow> Request \<Rightarrow> Request" where
  "header_set k v r = r\<lparr>rq_Header := AList.update (canonicalKey k) v (rq_Header r)\<rparr>"

definition header_get :: "Request \<Rightarrow> string \<Rightarrow> string" where
  "header_get r k = (case map_of (rq_Header r) (canonicalKey k) of None \<Rightarrow> [] | Some v \<Rightarrow> v)"

text \<open>\<open>Request.AddCookie\<close> for a name and value without special characters.\<close>

definition AddCookie :: "string \<Rightarrow> string \<Rightarrow> Request \<Rightarrow> Request" where
  "AddCookie n v r =
     (let s = n @ ''='' @ v; c = header_get r ''Cookie''
      in if c \<noteq> [] then header_set ''Cookie'' (c @ ''; '' @ s) r else header_set ''Cookie'' s r)"

lemma header_get_set: "header_get (header_set k v r) k' = (if canonicalKey k' = canonicalKey k then v else header_get r k')"
  by (simp add: header_get_def header_set_def update_conv')

lemma header_set_sel [simp]:
  "rq_Method (header_set k v r) = rq_Method r" "rq_Host (header_set k v r) = rq_Host r"
  "rq_URL (header_set k v r) = rq_URL r"
  by (simp_all add: header_set_def)

section \<open>Requests\<close>

definition removeEmptyPort :: "string \<Rightarrow> string" where
  "removeEmptyPort h = (if h \<noteq> [] \<and> last h = CHR '':'' then butlast h else h)"

definition NewRequest :: "httplib \<Rightarrow> string \<Rightarrow> string \<Rightarrow> gerror + Request" where
  "NewRequest lib m url =
     map_sum id (\<lambda>u. \<lparr>rq_Method = m, rq_Host = removeEmptyPort (u_Host u), rq_URL = u,
       rq_Header = []\<rparr>) (url_Parse lib url)"

definition header_value :: "string \<Rightarrow> string" where
  "header_value v =
     (let v = map (\<lambda>c. if c = CHR 0x0A \<or> c = CHR 0x0D then CHR '' '' else c) v;
          sp = (\<lambda>c. c = CHR '' '' \<or> c = CHR 0x09)
      in rev (dropWhile sp (rev (dropWhile sp v))))"

definition crlf_str :: string where "crlf_str = [CHR 0x0D, CHR 0x0A]"

text \<open>\<open>DumpRequest(req, false)\<close>: the header sorted by key, without the excluded and the invalid.\<close>

definition DumpRequest :: "httplib \<Rightarrow> Request \<Rightarrow> string" where
  "DumpRequest lib r =
     (if rq_Method r = [] then ''GET'' else rq_Method r) @ '' '' @ url_RequestURI lib (rq_URL r) @ '' HTTP/1.1'' @ crlf_str @
     (if rq_Host r = [] then [] else ''Host: '' @ rq_Host r @ crlf_str) @
     concat (map (\<lambda>(k, v). k @ '': '' @ header_value v @ crlf_str)
       (sort_key fst (filter (\<lambda>(k, v). k \<notin> {''Host'', ''Transfer-Encoding'', ''Trailer''} \<and>
          k \<noteq> [] \<and> list_all is_token k) (rq_Header r)))) @ crlf_str"

section \<open>ServeMux with a pattern and the root\<close>

text \<open>
  Registering \<open>prefix\<close> and then \<open>/\<close> panics for an empty pattern, one without a slash, one with a
  method that is no token or does not match a clean path, and for the root itself (twice the same).
  A pattern is its method, host and path segments.
\<close>

record pattern =
  pt_method :: string
  pt_host :: string
  pt_path :: string

definition parsePattern :: "httplib \<Rightarrow> string \<Rightarrow> pattern option" where
  "parsePattern lib s =
     (let blank = (\<lambda>c. c = CHR '' '' \<or> c = CHR 0x09);
          m = takeWhile (\<lambda>c. \<not> blank c) s;
          found = m \<noteq> s;
          rest = (if found then dropWhile blank (drop (length m) s) else s);
          m = (if found then m else [])
      in case indexByte rest (CHR ''/'') of
           None \<Rightarrow> None
         | Some i \<Rightarrow>
             if m \<noteq> [] \<and> \<not> list_all is_token m then None
             else if m \<noteq> [] \<and> m \<noteq> ''CONNECT'' \<and> path_clean lib (drop i rest) \<noteq> drop i rest then None
             else Some \<lparr>pt_method = m, pt_host = take i rest, pt_path = drop i rest\<rparr>)"

definition mux_register :: "httplib \<Rightarrow> string \<Rightarrow> pattern outcome" where
  "mux_register lib prefix =
     (case parsePattern lib prefix of
       None \<Rightarrow> Panic (MuxPattern prefix)
     | Some p \<Rightarrow> if p = \<lparr>pt_method = [], pt_host = [], pt_path = ''/''\<rparr> then Panic (MuxPattern ''/'') else Return p)"

definition segments :: "httplib \<Rightarrow> string \<Rightarrow> string list" where
  "segments lib p = map (path_unescape lib) (strSplit p ''/'')"

text \<open>A path that ends in a slash matches everything below it, any other only itself.\<close>

definition path_matches :: "httplib \<Rightarrow> string \<Rightarrow> string \<Rightarrow> bool" where
  "path_matches lib pat path =
     (let ps = segments lib pat; xs = segments lib path
      in if last ps = [] then butlast ps = take (length ps - 1) xs \<and> length ps \<le> length xs else ps = xs)"

datatype route = ToTunnel | ToDecoy | Redirected string

definition pattern_matches :: "httplib \<Rightarrow> pattern \<Rightarrow> Request \<Rightarrow> string \<Rightarrow> bool" where
  "pattern_matches lib p r path \<longleftrightarrow>
     (pt_method p = [] \<or> pt_method p = rq_Method r \<or> pt_method p = ''GET'' \<and> rq_Method r = ''HEAD'') \<and>
     (pt_host p = [] \<or> pt_host p = (case SplitHostPort (rq_Host r) of Inr (h, _) \<Rightarrow> h | Inl _ \<Rightarrow> rq_Host r)) \<and>
     path_matches lib (pt_path p) path"

text \<open>
  A path that is not clean is redirected to the clean one, and one that lacks only the final slash
  of the pattern to that. The root pattern takes what is left.
\<close>

definition mux_route :: "httplib \<Rightarrow> pattern \<Rightarrow> Request \<Rightarrow> route" where
  "mux_route lib p r =
     (let escaped = url_EscapedPath lib (rq_URL r); path = path_clean lib escaped
      in if pattern_matches lib p r path then (if path \<noteq> escaped then Redirected path else ToTunnel)
         else if \<not> HasSuffix path ''/'' \<and> HasSuffix (pt_path p) ''/'' \<and>
            pattern_matches lib p r (path @ ''/'') \<and>
            length (segments lib (path @ ''/'')) = length (segments lib (pt_path p))
         then Redirected (path @ ''/'')
         else if path \<noteq> escaped then Redirected path else ToDecoy)"

end
