(* ===== verification/Mimic.thy ===== *)
theory Mimic
  imports HttpMsg ConfigTypes
begin

text \<open>
  mimic.go: the HTTP upgrade that starts a tunnel. The client builds a request from its
  \<open>MimicConfig\<close>, writes it and reads the response through a \<open>bufio.Reader\<close> it keeps; the server
  side checks such a request. The math/rand source is drawn from the \<open>world\<close>: it cannot fail, and a
  failed draw stands for its value 0.
\<close>

section \<open>Random strings\<close>

definition letters :: string where
  "letters = ''abcdefghijklmnopqrstuvwxyzABCDEFGHIJKLMNOPQRSTUVWXYZ0123456789''"

fun randAlphaNum :: "nat \<Rightarrow> world \<Rightarrow> string \<times> world" where
  "randAlphaNum 0 w = ([], w)"
| "randAlphaNum (Suc n) w =
     (case secureRandInt (int (length letters)) w of (r, w) \<Rightarrow>
        case randAlphaNum n w of (s, w) \<Rightarrow> (letters ! nat r # s, w))"

definition hex :: "bytes \<Rightarrow> string" where
  "hex bs = concat (map (\<lambda>b. [''0123456789abcdef'' ! (unat b div 16), ''0123456789abcdef'' ! (unat b mod 16)]) bs)"

definition generateWebSocketKey :: "world \<Rightarrow> string \<times> world" where
  "generateWebSocketKey w = (case randRead 16 w of ((b, _), w) \<Rightarrow> (hex b, w))"

definition generateSessionID :: "world \<Rightarrow> string \<times> world" where
  "generateSessionID w = (case randRead 16 w of ((b, _), w) \<Rightarrow> (hex b, w))"

definition BuildURLWithFakePath :: "httplib \<Rightarrow> string \<Rightarrow> string \<Rightarrow> world \<Rightarrow> (gerror + string) \<times> world" where
  "BuildURLWithFakePath lib baseURL fakePath w =
     (if fakePath = [] then (Inr baseURL, w)
      else case url_Parse lib baseURL of
          Inl e \<Rightarrow> (Inl e, w)
        | Inr u \<Rightarrow>
            (case (if Contains fakePath ''{rand}''
                   then case randAlphaNum 8 w of (r, w) \<Rightarrow> (strReplaceAll fakePath ''{rand}'' r, w)
                   else (fakePath, w)) of (fp, w) \<Rightarrow>
               let fp = (if \<not> HasPrefix fp ''/'' then ''/'' @ fp else fp)
               in (Inr (url_String lib (u\<lparr>u_Path := fp\<rparr>)), w)))"

section \<open>ClientHandshake\<close>

definition client_UA :: string where
  "client_UA = ''Mozilla/5.0 (Windows NT 10.0; Win64; x64) AppleWebKit/537.36''"

text \<open>\<open>strings.SplitN(h, ":", 2)\<close>, both parts trimmed.\<close>

definition custom_header :: "string \<Rightarrow> Request \<Rightarrow> Request" where
  "custom_header h r =
     (case strSplitN2 h '':'' of
       [k, v] \<Rightarrow> header_set (TrimSpace k) (TrimSpace v) r
     | _ \<Rightarrow> r)"

definition mimic_field :: "(MimicConfig \<Rightarrow> string) \<Rightarrow> string \<Rightarrow> MimicConfig option \<Rightarrow> string" where
  "mimic_field f d cfg = (case cfg of None \<Rightarrow> d | Some c \<Rightarrow> if f c \<noteq> [] then f c else d)"

definition client_domain :: "MimicConfig option \<Rightarrow> string" where
  "client_domain = mimic_field mi_FakeDomain ''www.google.com''"

text \<open>The URL of the request; an error of \<open>BuildURLWithFakePath\<close> is dropped and leaves it empty.\<close>

definition client_url :: "httplib \<Rightarrow> MimicConfig option \<Rightarrow> world \<Rightarrow> string \<times> world" where
  "client_url lib cfg w =
     (let domain = client_domain cfg; path = mimic_field mi_FakePath ''/'' cfg
      in if Contains path ''{rand}''
         then case BuildURLWithFakePath lib (''http://'' @ domain) path w of
             (Inl _, w) \<Rightarrow> ([], w) | (Inr s, w) \<Rightarrow> (s, w)
         else (''http://'' @ domain @ path, w))"

definition client_headers :: "MimicConfig option \<Rightarrow> string \<Rightarrow> Request \<Rightarrow> Request" where
  "client_headers cfg key =
     fold (\<lambda>(k, v). header_set k v)
       [(''Host'', client_domain cfg), (''User-Agent'', mimic_field mi_UserAgent client_UA cfg),
        (''Connection'', ''Upgrade''), (''Upgrade'', ''websocket''), (''Sec-WebSocket-Key'', key),
        (''Sec-WebSocket-Version'', ''13''), (''Accept'', ''*/*''), (''Accept-Language'', ''en-US,en;q=0.9'')]"

definition client_request :: "httplib \<Rightarrow> MimicConfig option \<Rightarrow> world \<Rightarrow> (gerror + Request) \<times> world" where
  "client_request lib cfg w =
     (case client_url lib cfg w of (fullURL, w) \<Rightarrow>
        case NewRequest lib ''GET'' fullURL of
          Inl e \<Rightarrow> (Inl e, w)
        | Inr req \<Rightarrow>
            (case generateWebSocketKey w of (key, w) \<Rightarrow>
              let req = client_headers cfg key req
              in case cfg of
                   None \<Rightarrow> (Inr req, w)
                 | Some c \<Rightarrow>
                     let req = fold custom_header (mi_CustomHeaders c) req
                     in if mi_SessionCookie c
                        then case generateSessionID w of (i, w) \<Rightarrow> (Inr (AddCookie ''session'' i req), w)
                        else (Inr req, w)))"

text \<open>
  On an error the connection is not closed and not returned. \<open>DumpRequest\<close> fails only when a body
  cannot be read; there is none.
\<close>

definition ClientHandshake ::
    "httplib \<Rightarrow> netconn \<Rightarrow> MimicConfig option \<Rightarrow> world \<Rightarrow> ((gerror + bufferedConn) \<times> world) outcome" where
  "ClientHandshake lib conn cfg w =
     (case client_request lib cfg w of
       (Inl e, w) \<Rightarrow> Return (Inl e, w)
     | (Inr req, w) \<Rightarrow>
         (case nc_Write conn (bytes_of (DumpRequest lib req)) w of
           Panic p \<Rightarrow> Panic p
         | Return ((_, Some e), _, w) \<Rightarrow> Return (Inl e, w)
         | Return ((_, None), conn, w) \<Rightarrow>
             (case ReadResponse lib (NewReader conn) of
               (Inl e, _) \<Rightarrow> Return (Inl e, w)
             | (Inr code, br) \<Rightarrow>
                 if code \<noteq> 101 \<and> code \<noteq> 200
                 then Return (Inl (ErrorfInt ''handshake: expected 101, got'' code), w)
                 else Return (Inr br, w))))"

section \<open>ServerHandshake\<close>

definition switching :: "string list" where
  "switching = [''Upgrade: websocket'', ''Connection: Upgrade'',
     ''Sec-WebSocket-Accept: s3pPLMBiTxaQ9kYGzzhZRbK+xOo='']"

definition status_101 :: string where
  "status_101 = ''HTTP/1.1 101 Switching Protocols''"

definition response_101 :: string where
  "response_101 = status_101 @ crlf_str @
     concat (map (\<lambda>l. l @ crlf_str) switching) @ crlf_str"

fun itoa :: "nat \<Rightarrow> string" where
  "itoa n = (if n < 10 then [char_of (48 + n)] else itoa (n div 10) @ [char_of (48 + n mod 10)])"

declare itoa.simps [simp del]

definition writeFakeResponse :: "netconn \<Rightarrow> nat \<Rightarrow> world \<Rightarrow> (netconn \<times> world) outcome" where
  "writeFakeResponse conn code w =
     obind (nc_Write conn (bytes_of (''HTTP/1.1 '' @ itoa code @ '' Not Found'' @ crlf_str @
         ''Content-Length: 0'' @ crlf_str @ ''Connection: close'' @ crlf_str @ crlf_str)) w)
       (\<lambda>(_, conn, w). Return (conn, w))"

text \<open>\<open>http.ReadRequest\<close>: the lines of the head, parsed by the library.\<close>

definition ReadRequest :: "httplib \<Rightarrow> bufferedConn \<Rightarrow> (gerror + Request) \<times> bufferedConn" where
  "ReadRequest lib b =
     (case readLine [] b of
       (Inl e, b) \<Rightarrow> (Inl e, b)
     | (Inr line, b) \<Rightarrow>
         (case readHead b of
           (Inl e, b) \<Rightarrow> (Inl e, b)
         | (Inr hs, b) \<Rightarrow> (http_parseRequest lib (line # hs), b)))"

definition server_refusal :: "MimicConfig option \<Rightarrow> Request \<Rightarrow> gerror option" where
  "server_refusal cfg req =
     (let domain = (case cfg of None \<Rightarrow> [] | Some c \<Rightarrow> mi_FakeDomain c);
          path = (case cfg of None \<Rightarrow> [] | Some c \<Rightarrow> mi_FakePath c);
          expectedPath = (if path \<noteq> [] then hd (strSplit path ''{'') else ''/'')
      in if domain \<noteq> [] \<and> rq_Host req \<noteq> domain \<and> \<not> HasSuffix (rq_Host req) (''.'' @ domain)
         then Some (ErrorfStr ''invalid host'' (rq_Host req))
         else if \<not> HasPrefix (u_Path (rq_URL req)) expectedPath
         then Some (ErrorfStr ''invalid path'' (u_Path (rq_URL req)))
         else None)"

text \<open>
  The read deadline of 5 s is on the connection while the request is read and until the deferred call
  takes it off again on every return; when it passes, a read ends with the connection's error.
\<close>

definition ServerHandshake ::
    "httplib \<Rightarrow> netconn \<Rightarrow> MimicConfig option \<Rightarrow> world \<Rightarrow> (gerror option \<times> netconn \<times> world) outcome" where
  "ServerHandshake lib conn cfg w =
     (let conn = nc_SetReadDeadline (Some 5) conn; deferred = nc_SetReadDeadline None
      in case ReadRequest lib (NewReader conn) of
           (Inl e, b) \<Rightarrow> Return (Some e, deferred (bc_Conn b), w)
         | (Inr req, b) \<Rightarrow>
             (case server_refusal cfg req of
               Some e \<Rightarrow>
                 obind (writeFakeResponse (bc_Conn b) 404 w) (\<lambda>(conn, w). Return (Some e, deferred conn, w))
             | None \<Rightarrow>
                 obind (nc_Write (bc_Conn b) (bytes_of response_101) w)
                   (\<lambda>((_, e), conn, w). Return (e, deferred conn, w))))"

definition ApplyMimicHeaders :: "Request \<Rightarrow> MimicConfig option \<Rightarrow> Request" where
  "ApplyMimicHeaders req cfg =
     (case cfg of
       None \<Rightarrow> req
     | Some c \<Rightarrow>
         let req = header_set ''User-Agent'' (mi_UserAgent c) req
         in if mi_FakeDomain c \<noteq> [] then header_set ''Host'' (mi_FakeDomain c) req else req)"

end
