(* ===== verification/MimicProps.thy ===== *)
theory MimicProps
  imports Mimic EncProps Streams
begin

text \<open>
  The properties of the upgrade: the handshake reads the response head and nothing of what follows
  is lost, however the bytes arrive, so the encrypted tunnel on top starts with its first byte; and
  what the responses and requests the two sides make of one configuration look like.
\<close>

section \<open>Writing a request\<close>

lemma fc_inner_ok:
  assumes "write_ok (so_conn (fc_Conn f))"
  shows "\<exists>f'. fc_inner f b = ((length b, None), f') \<and> write_ok (so_conn (fc_Conn f')) \<and>
    tx (so_conn (fc_Conn f')) = tx (so_conn (fc_Conn f)) @ b \<and> rx (so_conn (fc_Conn f')) = rx (so_conn (fc_Conn f)) \<and>
    rerr (so_conn (fc_Conn f')) = rerr (so_conn (fc_Conn f)) \<and> same_cut f f'"
  using conn_write_ok [OF assms, of b] by (auto simp: fc_inner_def same_cut_def)

lemma nc_Write_ok:
  assumes "nc_ok nc" and "write_ok (nc_conn nc)"
  shows "\<exists>nc' w'. nc_Write nc b w = Return ((length b, None), nc', w') \<and> nc_ok nc' \<and>
    nc_sent nc' = nc_sent nc @ b \<and> rx (nc_conn nc') = rx (nc_conn nc) \<and> rerr (nc_conn nc') = rerr (nc_conn nc)"
proof (cases "\<exists>f. nc = Fragmented f")
  case True
  then obtain f where f: "nc = Fragmented f" by blast
  let ?f = "f\<lparr>fc_firstWrite := True\<rparr>" and ?k = "nat (fc_fragmentSize f)"
  have sz: "0 \<le> fc_fragmentSize f" and ok: "write_ok (so_conn (fc_Conn ?f))"
    using assms by (simp_all add: f nc_ok_def)
  show ?thesis
  proof (cases "fc_firstWrite f \<or> int (length b) \<le> fc_fragmentSize f")
    case True
    from fc_inner_ok [OF ok, of b] True sz show ?thesis
      by (auto simp: f fc_Write_def nc_ok_def nc_sent_def same_cut_def)
  next
    case False
    obtain f1 where f1: "fc_inner ?f (take ?k b) = ((length (take ?k b), None), f1)"
        "write_ok (so_conn (fc_Conn f1))" "tx (so_conn (fc_Conn f1)) = tx (so_conn (fc_Conn f)) @ take ?k b"
        "rx (so_conn (fc_Conn f1)) = rx (so_conn (fc_Conn f))"
        "rerr (so_conn (fc_Conn f1)) = rerr (so_conn (fc_Conn f))" "same_cut ?f f1"
      using fc_inner_ok [OF ok, of "take ?k b"] by auto
    obtain r w1 where r: "secureRandInt 2 w = (r, w1)" by (metis prod.collapse)
    from fc_inner_ok [OF f1(2), of "drop ?k b"] f1 False sz r show ?thesis
      by (auto simp: f fc_Write_def nc_ok_def nc_sent_def same_cut_def Let_def)
  qed
next
  case False
  then have "nc_Write nc b w = (case conn_write (nc_conn nc) b of (r, c) \<Rightarrow> Return (r, nc_upd c nc, w))"
    by (cases nc) simp_all
  with assms(1) conn_write_ok [OF assms(2), of b] show ?thesis by (auto simp: nc_sent_def)
qed

section \<open>Reading the response\<close>

lemma bytes_of_append [simp]: "bytes_of (a @ b) = bytes_of a @ bytes_of b"
  by (simp add: bytes_of_def)

lemma bytes_of_crlf [simp]: "bytes_of crlf_str = [CR, LF]"
  by (simp add: bytes_of_def crlf_str_def CR_def LF_def)

lemma bytes_of_Nil [simp]: "bytes_of [] = []"
  by (simp add: bytes_of_def)

lemma bytes_of_lines: "bytes_of (concat (map (\<lambda>l. l @ crlf_str) ls) @ crlf_str) = crlf (map bytes_of ls)"
  by (induction ls) (simp_all add: crlf_def)

lemma ReadResponse_head:
  assumes "bc_left b = l @ [CR, LF] @ crlf hs @ rest"
    and "LF \<notin> set l" "\<forall>h \<in> set hs. h \<noteq> [] \<and> LF \<notin> set h"
    and "parseStatus (string_of l) = Inr code" and "http_header lib hs = None"
  shows "\<exists>b'. ReadResponse lib b = (Inr code, b') \<and> bc_left b' = rest \<and> bc_same b b'"
proof -
  have "bc_left b = (l @ [CR]) @ LF # (crlf hs @ rest)" using assms(1) by simp
  from readLine_line [OF this, of "[]"] assms(2) CR_ne_LF obtain b1 where b1:
      "readLine [] b = (Inr l, b1)" "bc_left b1 = crlf hs @ rest" "bc_same b b1" by auto
  from readHead_crlf [OF b1(2) assms(3)] b1 assms(4,5) show ?thesis
    by (auto simp: ReadResponse_def intro: bc_same_trans)
qed

lemma response_101_bytes:
  "bytes_of response_101 = bytes_of status_101 @ [CR, LF] @ crlf (map bytes_of switching)"
  by (simp add: response_101_def bytes_of_lines [symmetric])

lemma bytes_of_no_LF: "LF \<in> set (bytes_of s) \<longleftrightarrow> CHR 0x0A \<in> set s"
proof -
  have e: "of_char c = LF \<longleftrightarrow> c = CHR 0x0A" for c :: char
  proof
    assume "of_char c = LF"
    then have "unat (of_char c :: byte) = 10" by (simp add: LF_def)
    then have "(of_char c :: nat) = of_char (CHR 0x0A)" by (simp add: unat_of_char)
    then show "c = CHR 0x0A" by (simp only: of_char_eq_iff)
  qed (simp add: LF_def)
  have "LF \<in> set (bytes_of s) \<longleftrightarrow> (\<exists>c \<in> set s. of_char c = LF)"
    unfolding bytes_of_def by (metis image_iff list.set_map)
  then show ?thesis unfolding e by simp
qed

lemma Cut_first: "c \<notin> set a \<Longrightarrow> Cut (a @ c # b) c = (a, b, True)"
  by (simp add: Cut_def indexByte_first)

lemma parseStatus_101: "parseStatus status_101 = Inr 101"
proof -
  have s: "status_101 = ''HTTP/1.1'' @ CHR '' '' # ''101 Switching Protocols''"
    by (simp add: status_101_def)
  have c: "Cut (''101'' @ CHR '' '' # ''Switching Protocols'') (CHR '' '') = (''101'', ''Switching Protocols'', True)"
    by (rule Cut_first) simp
  have "Cut status_101 (CHR '' '') = (''HTTP/1.1'', ''101 Switching Protocols'', True)"
    unfolding s by (rule Cut_first) simp
  then show ?thesis
    using c by (simp add: parseStatus_def Atoi_def atoi_digits_def is_digit_def ParseHTTPVersion_def
        HasPrefix_def eval_nat_numeral)
qed

section \<open>The handshake\<close>

text \<open>
  A connection on which the handshake can be made: the request can be built and written, and the
  response that arrives has a status line of the given code and header lines the library accepts.
\<close>

definition upgrade_ready :: "httplib \<Rightarrow> netconn \<Rightarrow> MimicConfig option \<Rightarrow> world \<Rightarrow> Request \<Rightarrow> bool" where
  "upgrade_ready lib nc cfg w req \<longleftrightarrow> nc_ok nc \<and> write_ok (nc_conn nc) \<and>
     fst (client_request lib cfg w) = Inr req"

definition response_head :: "httplib \<Rightarrow> bytes \<Rightarrow> bytes list \<Rightarrow> int \<Rightarrow> bool" where
  "response_head lib l hs code \<longleftrightarrow> LF \<notin> set l \<and> (\<forall>h \<in> set hs. h \<noteq> [] \<and> LF \<notin> set h) \<and>
     parseStatus (string_of l) = Inr code \<and> http_header lib hs = None"

lemma response_head_101:
  "http_header lib (map bytes_of switching) = None \<Longrightarrow>
     response_head lib (bytes_of status_101) (map bytes_of switching) 101"
proof -
  assume "http_header lib (map bytes_of switching) = None"
  moreover have "LF \<notin> set (bytes_of status_101)" "\<forall>h \<in> set (map bytes_of switching). h \<noteq> [] \<and> LF \<notin> set h"
    by (simp_all add: bytes_of_no_LF status_101_def switching_def) (simp_all add: bytes_of_def)
  ultimately show ?thesis by (simp add: response_head_def parseStatus_101)
qed

lemma handshake_response:
  assumes "upgrade_ready lib nc cfg w req" and "response_head lib l hs code"
    and "rx (nc_conn nc) = l @ [CR, LF] @ crlf hs @ rest"
  shows "\<exists>b w'. ClientHandshake lib nc cfg w =
      Return (if code = 101 \<or> code = 200 then Inr b
        else Inl (ErrorfInt ''handshake: expected 101, got'' code), w') \<and>
    bc_left b = rest \<and> nc_sent (bc_Conn b) = nc_sent nc @ bytes_of (DumpRequest lib req) \<and>
    rerr (bc_conn b) = rerr (nc_conn nc)"
proof -
  obtain w1 where q: "client_request lib cfg w = (Inr req, w1)"
    using assms(1) by (metis upgrade_ready_def prod.collapse)
  obtain nc1 w2 where s: "nc_Write nc (bytes_of (DumpRequest lib req)) w1 =
      Return ((length (bytes_of (DumpRequest lib req)), None), nc1, w2)"
      "nc_sent nc1 = nc_sent nc @ bytes_of (DumpRequest lib req)"
      "rx (nc_conn nc1) = rx (nc_conn nc)" "rerr (nc_conn nc1) = rerr (nc_conn nc)"
    using nc_Write_ok [of nc "bytes_of (DumpRequest lib req)" w1] assms(1) by (auto simp: upgrade_ready_def)
  have l: "bc_left (NewReader nc1) = l @ [CR, LF] @ crlf hs @ rest"
    using s(3) assms(3) by (simp add: bc_left_def bc_conn_def NewReader_def)
  from ReadResponse_head [OF l] assms(2) obtain b where b:
      "ReadResponse lib (NewReader nc1) = (Inr code, b)" "bc_left b = rest" "bc_same (NewReader nc1) b"
    unfolding response_head_def by blast
  with q s show ?thesis
    by (auto simp: ClientHandshake_def bc_same_def bc_conn_def NewReader_def nc_sent_def
        intro!: exI [of _ b])
qed

text \<open>
  C3. The client's handshake consumes exactly the head of the response, whatever read-ahead its
  buffered reader does and however the bytes arrive: for a status of 101 or 200 the connection it
  returns gives out precisely the bytes after the head, to readers of any buffer size; any other
  status is an error that names it.
\<close>

theorem upgrade_loses_nothing:
  assumes "upgrade_ready lib nc cfg w req" and "response_head lib l hs code"
    and "rx (nc_conn nc) = l @ [CR, LF] @ crlf hs @ rest" and "rerr (nc_conn nc) = EOF" and "0 < k"
  shows "\<exists>r w'. ClientHandshake lib nc cfg w = Return (r, w') \<and>
    (if code = 101 \<or> code = 200
     then \<exists>b N b'. r = Inr b \<and> read_all bc_Read b (replicate N k) = Return ((rest, Some EOF), b')
     else r = Inl (ErrorfInt ''handshake: expected 101, got'' code))"
proof -
  obtain b w' where b: "ClientHandshake lib nc cfg w =
      Return (if code = 101 \<or> code = 200 then Inr b
        else Inl (ErrorfInt ''handshake: expected 101, got'' code), w')"
      "bc_left b = rest" "rerr (bc_conn b) = rerr (nc_conn nc)"
    using handshake_response [OF assms(1-3)] by blast
  then have "bc_pending b = Some rest" using assms(4) by (simp add: bc_pending_def)
  from buf_source.read_all_complete [OF this assms(5)] b(1) show ?thesis by auto
qed

text \<open>A library and a server's response, to be used in the witnesses.\<close>

definition demo_http :: httplib where
  "demo_http = \<lparr>url_Parse = (\<lambda>s. Inr \<lparr>u_Host = takeWhile (\<lambda>c. c \<noteq> CHR ''/'') (drop 7 s),
       u_Path = dropWhile (\<lambda>c. c \<noteq> CHR ''/'') (drop 7 s), u_RawQuery = []\<rparr>),
     url_String = (\<lambda>u. ''http://'' @ u_Host u @ u_Path u), url_RequestURI = u_Path, url_EscapedPath = u_Path,
     http_header = (\<lambda>_. None), http_parseRequest = (\<lambda>_. Inl EOF), net_ParseIP = (\<lambda>_. False),
     path_clean = (\<lambda>p. p), path_unescape = (\<lambda>p. p)\<rparr>"

definition demo_net :: "bytes \<Rightarrow> nat list \<Rightarrow> netconn" where
  "demo_net bs ks = TCPConn (new_sock ((new_conn bs)\<lparr>chunks := ks\<rparr>))"

lemma demo_net_sel [simp]:
  "rx (nc_conn (demo_net bs ks)) = bs" "rerr (nc_conn (demo_net bs ks)) = EOF"
  "nc_ok (demo_net bs ks)" "write_ok (nc_conn (demo_net bs ks))" "nc_sent (demo_net bs ks) = []"
  by (simp_all add: demo_net_def new_sock_def new_conn_def nc_ok_def write_ok_def nc_sent_def)

lemma demo_ready: "\<exists>req. upgrade_ready demo_http (demo_net bs ks) None w req"
  by (auto simp: upgrade_ready_def client_request_def NewRequest_def demo_http_def Let_def split: prod.split)

lemma demo_header [simp]: "http_header demo_http hs = None"
  by (simp add: demo_http_def)

theorem upgrade_loses_nothing_witness:
  "\<exists>b w' N b'. ClientHandshake demo_http (demo_net (bytes_of response_101 @ [1, 2, 3]) [200]) None
       (demo_world 16) = Return (Inr b, w') \<and> read_all bc_Read b (replicate N 2) = Return (([1, 2, 3], Some EOF), b')"
proof -
  let ?nc = "demo_net (bytes_of response_101 @ [1, 2, 3]) [200]"
  obtain req where r: "upgrade_ready demo_http ?nc None (demo_world 16) req" using demo_ready by blast
  have rx: "rx (nc_conn ?nc) = bytes_of status_101 @ [CR, LF] @ crlf (map bytes_of switching) @ [1, 2, 3]"
    by (simp add: response_101_bytes)
  from upgrade_loses_nothing [OF r response_head_101 [OF demo_header] rx _ , of 2] show ?thesis by auto
qed

section \<open>The tunnel on top of the handshake\<close>

lemma handshake_101:
  assumes "upgrade_ready lib nc cfg w req" and "http_header lib (map bytes_of switching) = None"
    and "rx (nc_conn nc) = bytes_of response_101 @ rest"
  shows "\<exists>b w'. ClientHandshake lib nc cfg w = Return (Inr b, w') \<and> bc_left b = rest \<and>
    nc_sent (bc_Conn b) = nc_sent nc @ bytes_of (DumpRequest lib req) \<and> rerr (bc_conn b) = rerr (nc_conn nc)"
  using handshake_response [OF assms(1) response_head_101 [OF assms(2)]] assms(3)
  by (simp add: response_101_bytes)

text \<open>
  When the server answers the upgrade with its 101 response and then writes through an
  encrypted connection, the client's handshake succeeds, has sent exactly the dumped request, and an
  encrypted connection with the same settings over what it returns reads exactly the data written,
  from the first byte.
\<close>

theorem tunnel_after_upgrade:
  assumes "enc_good c" and "tx (ec_conn c) = []" and "list_all (write_fits c) ds"
    and "write_all ec_Write c ds w = Return (None, c', w')" and "0 < k"
    and "upgrade_ready lib nc cfg v req" and "http_header lib (map bytes_of switching) = None"
    and "rx (nc_conn nc) = bytes_of response_101 @ tx (ec_conn c')" and "rerr (nc_conn nc) = EOF"
  shows "\<exists>b v' N r. ClientHandshake lib nc cfg v = Return (Inr b, v') \<and>
    nc_sent (bc_Conn b) = nc_sent nc @ bytes_of (DumpRequest lib req) \<and>
    read_all ec_Read (c'\<lparr>ec_conn := bc_flat b, ec_readBuf := []\<rparr>) (replicate N k) =
      Return ((concat ds, Some EOF), r)"
proof -
  obtain b v' where b: "ClientHandshake lib nc cfg v = Return (Inr b, v')" "bc_left b = tx (ec_conn c')"
      "nc_sent (bc_Conn b) = nc_sent nc @ bytes_of (DumpRequest lib req)" "rerr (bc_conn b) = EOF"
    using handshake_101 [OF assms(6-8)] assms(9) by auto
  have ok: "enc_ok c" and s: "enc_sent c = []"
    using assms(1,2) by (simp_all add: enc_ok_def enc_sent_def)
  have sent: "enc_ok c'" "enc_sent c' = concat ds"
    using enc_sink.write_all_sent [OF ok assms(3), of w] assms(4) s by auto
  have "decode_packet (c'\<lparr>ec_conn := bc_flat b, ec_readBuf := []\<rparr>) = decode_packet c'"
    by (rule decode_packet_cong) (simp add: same_settings_def)
  then have "enc_pending (c'\<lparr>ec_conn := bc_flat b, ec_readBuf := []\<rparr>) = Some (concat ds)"
    using sent b(2,4) by (auto simp: enc_pending_def bc_flat_def enc_sent_def enc_ok_def)
  from enc_source.read_all_complete [OF this assms(5)] b show ?thesis by blast
qed

theorem tunnel_after_upgrade_witness:
  "\<exists>c' w' b v' N r. write_all ec_Write (demo_conn (Some demo_aead) (Some (demo_obfs 1 1)) None) [[1, 2], [3]]
      (demo_world 40) = Return (None, c', w') \<and>
    ClientHandshake demo_http (demo_net (bytes_of response_101 @ tx (ec_conn c')) [20, 200]) None (demo_world 16) =
      Return (Inr b, v') \<and>
    read_all ec_Read (c'\<lparr>ec_conn := bc_flat b, ec_readBuf := []\<rparr>) (replicate N 2) =
      Return (([1, 2, 3], Some EOF), r)"
proof -
  let ?c = "demo_conn (Some demo_aead) (Some (demo_obfs 1 1)) None"
  have g: "enc_good ?c" by simp
  have f: "list_all (write_fits ?c) [[1, 2], [3]]" by (simp add: write_fits_def pkt_fits_def)
  have t: "tx (ec_conn ?c) = []" by (simp add: new_conn_def)
  obtain c' w' where w: "write_all ec_Write ?c [[1, 2], [3]] (demo_world 40) = Return (None, c', w')"
    by (simp add: enc_eval demo_defs Let_def)
  let ?nc = "demo_net (bytes_of response_101 @ tx (ec_conn c')) [20, 200]"
  obtain req where r: "upgrade_ready demo_http ?nc None (demo_world 16) req" using demo_ready by blast
  have "concat [[1, 2], [3]] = [1, 2, 3 :: byte]" by simp
  with tunnel_after_upgrade [OF g t f w _ r demo_header, of 2] w show ?thesis by fastforce
qed

end
