(* ===== verification/Tunnel.thy ===== *)
theory Tunnel
  imports MimicProps ServerSteps SmuxCfg PortMaps
begin

text \<open>
  The HTTP side of server.go: \<open>NewServer\<close>, the ports \<open>Start\<close> listens on and the routing of each,
  the validation of an upgrade request with the decoy page for all others, and \<open>handleTunnel\<close> up to
  the session; ServerRun has the rest of the handler.
\<close>

section \<open>NewServer, Start and listenOnPort\<close>

definition NewServer :: "Config \<Rightarrow> server" where
  "NewServer cfg = \<lparr>sv_Config = cfg, sv_sessions = [], sv_poolIdx = 0, sv_heap = (\<lambda>_. fresh_session [] 0 [])\<rparr>"

definition mimicPath :: "MimicConfig option \<Rightarrow> string" where
  "mimicPath cfg =
     (case cfg of Some c \<Rightarrow> if mi_FakePath c \<noteq> [] then mi_FakePath c else ''/search'' | None \<Rightarrow> ''/search'')"

definition tunnel_prefix :: "MimicConfig option \<Rightarrow> string" where
  "tunnel_prefix cfg = hd (strSplit (mimicPath cfg) ''{'')"

text \<open>
  The \<open>http.Server\<close> of a port, whose handler is the tunnel's pattern beside the decoy, and what the
  port ends up serving: with a certificate when it is TLS.
\<close>

record httpServer =
  hs_Addr :: string
  hs_Handler :: pattern
  hs_ReadHeaderTimeout :: int
  hs_IdleTimeout :: int
  hs_MaxHeaderBytes :: int

datatype listen =
    ListenAndServe httpServer
  | ListenAndServeTLS httpServer string string

definition listenOnPort :: "httplib \<Rightarrow> Config \<Rightarrow> string \<Rightarrow> listen outcome" where
  "listenOnPort lib cfg addr =
     obind (mux_register lib (tunnel_prefix (Some (Mimic cfg)))) (\<lambda>p.
       let server = \<lparr>hs_Addr = addr, hs_Handler = p, hs_ReadHeaderTimeout = 10 * second,
             hs_IdleTimeout = 120 * second, hs_MaxHeaderBytes = 2 ^ 16\<rparr>;
           transport = ToLower (Transport cfg)
       in Return
         (if (transport = ''httpsmux'' \<or> transport = ''wssmux'') \<and> CertFile cfg \<noteq> [] \<and> KeyFile cfg \<noteq> []
          then ListenAndServeTLS server (CertFile cfg) (KeyFile cfg)
          else ListenAndServe server))"

fun listen_ports :: "httplib \<Rightarrow> Config \<Rightarrow> string list \<Rightarrow> world \<Rightarrow> (listen list \<times> world) outcome" where
  "listen_ports lib cfg [] w = Return ([], w)"
| "listen_ports lib cfg (a # ports) w =
     obind (listenOnPort lib cfg a) (\<lambda>l.
       obind (listen_ports lib cfg ports (sleep (100 * millisecond) w)) (\<lambda>(ls, w). Return (l # ls, w)))"

text \<open>
  \<open>Start\<close>: the port maps it starts, the ports it listens on, and a pause of 100 ms after each when
  there are several. The smux configuration it builds is only logged, but drawn. A panic in any
  port's goroutine ends the program.
\<close>

definition server_Start ::
    "httplib \<Rightarrow> smuxcfg \<Rightarrow> Config \<Rightarrow> world \<Rightarrow> 
     ((string \<times> string) list \<times> (string \<times> string) list \<times> listen list \<times> world) outcome" where
  "server_Start lib dflt cfg w =
     (let ports = (if ListenPorts cfg = [] then [Listen cfg] else ListenPorts cfg)
      in case buildSmuxConfig dflt cfg w of (_, w) \<Rightarrow>
         obind (if length ports = 1 then obind (listenOnPort lib cfg (ports ! 0)) (\<lambda>l. Return ([l], w))
                else listen_ports lib cfg ports w)
           (\<lambda>(ls, w). Return (start_listeners (fw_TCP (forward cfg)), start_listeners (fw_UDP (forward cfg)), ls, w)))"

section \<open>Validation and the decoy\<close>

definition validateRequest :: "httplib \<Rightarrow> MimicConfig option \<Rightarrow> Request \<Rightarrow> bool" where
  "validateRequest lib mimic r =
     (if rq_Method r \<noteq> ''GET'' then False
      else
        let domain = (case mimic of None \<Rightarrow> [] | Some m \<Rightarrow> mi_FakeDomain m);
            host = (case SplitHostPort (rq_Host r) of Inr (h, _) \<Rightarrow> h | Inl _ \<Rightarrow> rq_Host r)
        in if domain \<noteq> [] \<and> host \<noteq> domain \<and> \<not> HasSuffix host (''.'' @ domain) \<and> \<not> net_ParseIP lib host
           then False
           else Contains (ToLower (header_get r ''Upgrade'')) ''websocket'' \<and>
             Contains (ToLower (header_get r ''Connection'')) ''upgrade'')"

record response =
  rs_Status :: nat
  rs_Header :: "(string \<times> string) list"
  rs_Body :: string

definition writeDecoy :: response where
  "writeDecoy = \<lparr>rs_Status = 404,
     rs_Header = [(''Server'', ''nginx/1.24.0''), (''Content-Type'', ''text/html'')],
     rs_Body = ''<!DOCTYPE html><html><head><title>404 Not Found</title></head><body><center><h1>404 Not Found</h1></center><hr><center>nginx/1.24.0</center></body></html>''\<rparr>"

definition handleDecoy :: response where
  "handleDecoy = writeDecoy"

section \<open>handleTunnel\<close>

definition server_setTCPOptions :: "AdvancedConfig \<Rightarrow> netconn \<Rightarrow> netconn" where
  "server_setTCPOptions adv conn =
     (case conn of
       TCPConn tc \<Rightarrow> TCPConn (tc\<lparr>so_nodelay := True, so_keepalive := True,
         so_period := i64 (adv_TCPKeepAlive adv * second), so_rbuf := Some (adv_TCPReadBuffer adv),
         so_wbuf := Some (adv_TCPWriteBuffer adv)\<rparr>)
     | _ \<Rightarrow> conn)"

text \<open>How an upgrade request ends; a failed one carries the connection as it was left.\<close>

datatype tunnel_end =
    Decoyed response
  | HttpError string nat
  | HijackFailed gerror
  | WriteFailed netconn
  | EncryptFailed gerror netconn
  | SmuxFailed gerror encConn
  | SessionUp encConn smuxcfg

text \<open>
  From the request to the session. The hijacker is missing, fails or hands over the connection;
  smux's \<open>Server\<close> gives an error or a session. Bytes the HTTP server has read ahead of the request
  stay in its own reader, which the code drops: they are not on the hijacked connection. The write
  side of that reader is empty, nothing was written to it, so its \<open>Flush\<close> sends nothing.
\<close>

definition handleTunnel ::
    "httplib \<Rightarrow> 'b cryptolib \<Rightarrow> smuxcfg \<Rightarrow> (encConn \<Rightarrow> smuxcfg \<Rightarrow> gerror option) \<Rightarrow> Config \<Rightarrow>
     (gerror + netconn) option \<Rightarrow> Request \<Rightarrow> world \<Rightarrow> (tunnel_end \<times> world) outcome" where
  "handleTunnel lib crypto dflt smux_Server cfg hijack r w =
     (if \<not> validateRequest lib (Some (Mimic cfg)) r then Return (Decoyed writeDecoy, w)
      else case hijack of
          None \<Rightarrow> Return (HttpError ''hijack not supported'' 500, w)
        | Some (Inl e) \<Rightarrow> Return (HijackFailed e, w)
        | Some (Inr conn) \<Rightarrow>
            obind (nc_Write (server_setTCPOptions (Advanced cfg) conn) (bytes_of response_101) w)
              (\<lambda>((_, e), conn, w).
                if e \<noteq> None then Return (WriteFailed (nc_Close conn), w)
                else case NewEncryptedConn crypto (nc_conn conn) (PSK cfg) (Some (Obfs cfg)) [Some (Stealth cfg)] of
                    Inl e \<Rightarrow> Return (EncryptFailed e (nc_Close conn), w)
                  | Inr ec \<Rightarrow>
                      (case buildSmuxConfig dflt cfg w of (sc, w) \<Rightarrow>
                        case smux_Server ec sc of
                          Some e \<Rightarrow> Return (SmuxFailed e (ec_Close ec), w)
                        | None \<Rightarrow> Return (SessionUp ec sc, w))))"

text \<open>A request that reaches a port: routed, and only on the tunnel's pattern an upgrade.\<close>

datatype answer = Upgraded tunnel_end | DecoyPage response | Redirect string

definition serve_request ::
    "httplib \<Rightarrow> 'b cryptolib \<Rightarrow> smuxcfg \<Rightarrow> (encConn \<Rightarrow> smuxcfg \<Rightarrow> gerror option) \<Rightarrow> Config \<Rightarrow> pattern \<Rightarrow>
     (gerror + netconn) option \<Rightarrow> Request \<Rightarrow> world \<Rightarrow> (answer \<times> world) outcome" where
  "serve_request lib crypto dflt smux_Server cfg p hijack r w =
     (case mux_route lib p r of
       ToTunnel \<Rightarrow> obind (handleTunnel lib crypto dflt smux_Server cfg hijack r w) (\<lambda>(e, w). Return (Upgraded e, w))
     | ToDecoy \<Rightarrow> Return (DecoyPage handleDecoy, w)
     | Redirected path \<Rightarrow> Return (Redirect path, w))"

end
