(* ===== verification/TunnelProps.thy ===== *)
theory TunnelProps
  imports Tunnel Psk
begin

text \<open>
  The two sides of the upgrade meet: which requests of a client with the same mimicry settings the
  server accepts and routes to the tunnel, which settings make it answer with the decoy or stop at
  start, and what a request can at most do to a connection.
\<close>

section \<open>Splitting at a separator\<close>

lemma strIndex_first:
  "c \<notin> set p \<Longrightarrow> strIndex (p @ c # t @ s) (c # t) = Some (length p)"
  by (induction p) (auto simp: HasPrefix_def)

lemma strIndex_none: "c \<notin> set s \<Longrightarrow> strIndex s (c # t) = None"
  by (induction s) (auto simp: HasPrefix_def)

lemma strSplit_first: "c \<notin> set p \<Longrightarrow> strSplit (p @ c # t @ s) (c # t) = p # strSplit s (c # t)"
  using strIndex_first [of c p t s] by (subst strSplit.simps) simp

lemma strSplit_whole: "c \<notin> set s \<Longrightarrow> strSplit s (c # t) = [s]"
  using strIndex_none [of c s t] by (subst strSplit.simps) simp

lemma strSplit_last: "c \<notin> set r \<Longrightarrow> strSplit (q @ c # r) [c] = strSplit q [c] @ [r]"
proof (induction "length q" arbitrary: q rule: less_induct)
  case less
  show ?case
  proof (cases "c \<in> set q")
    case True
    then obtain a b where q: "q = a @ c # b" "c \<notin> set a" by (meson split_list_first)
    have "strSplit (b @ c # r) [c] = strSplit b [c] @ [r]"
      using less.hyps [of b] less.prems q by simp
    with strSplit_first [OF q(2), of "[]" b] strSplit_first [OF q(2), of "[]" "b @ c # r"] q(1)
    show ?thesis by simp
  next
    case False
    with strSplit_first [OF False, of "[]" r] strSplit_whole [of c q "[]"] strSplit_whole [OF less.prems, of "[]"]
    show ?thesis by simp
  qed
qed

lemma set_strSplit: "x \<in> set (strSplit s sep) \<Longrightarrow> set x \<subseteq> set s"
proof (induction s sep rule: strSplit.induct)
  case (1 s sep)
  show ?case
  proof (cases "strIndex s sep")
    case None
    with 1 show ?thesis by (simp add: strSplit.simps [of s])
  next
    case (Some m)
    show ?thesis
    proof (cases "sep = []")
      case True
      with Some 1 show ?thesis by (simp add: strSplit.simps [of s])
    next
      case False
      with Some 1 show ?thesis
        using set_take_subset [of m s] set_drop_subset [of "m + length sep" s]
        by (auto simp: strSplit.simps [of s])
    qed
  qed
qed

lemma strSplit_no_sep: "x \<in> set (strSplit s [c]) \<Longrightarrow> c \<notin> set x"
proof (induction "length s" arbitrary: s rule: less_induct)
  case less
  show ?case
  proof (cases "c \<in> set s")
    case True
    then obtain a b where s: "s = a @ c # b" "c \<notin> set a" by (meson split_list_first)
    with strSplit_first [OF s(2), of "[]" b] less.prems have "x = a \<or> x \<in> set (strSplit b [c])" by auto
    with less.hyps [of b] s show ?thesis by auto
  next
    case False
    with strSplit_whole [OF False, of "[]"] less.prems show ?thesis by simp
  qed
qed

section \<open>Plain hosts and paths\<close>

definition plain_char :: "char \<Rightarrow> bool" where
  "plain_char c \<longleftrightarrow> c \<in> set letters \<or> c = CHR ''-'' \<or> c = CHR ''_''"

definition plain_host :: "string \<Rightarrow> bool" where
  "plain_host h \<longleftrightarrow> h \<noteq> [] \<and> list_all (\<lambda>c. plain_char c \<or> c = CHR ''.'') h"

fun no_dslash :: "string \<Rightarrow> bool" where
  "no_dslash (a # b # s) \<longleftrightarrow> \<not> (a = CHR ''/'' \<and> b = CHR ''/'') \<and> no_dslash (b # s)"
| "no_dslash s \<longleftrightarrow> True"

definition plain_path :: "string \<Rightarrow> bool" where
  "plain_path p \<longleftrightarrow> HasPrefix p ''/'' \<and> list_all (\<lambda>c. plain_char c \<or> c = CHR ''/'') p \<and> no_dslash p"

text \<open>
  What the packages document for them: a URL made of a plain host and path has these as its host and
  escaped path, also when the path is set afterwards, a plain path is clean, and a segment without
  percent signs is its own unescaping.
\<close>

definition http_ok :: "httplib \<Rightarrow> bool" where
  "http_ok lib \<longleftrightarrow>
     (\<forall>d p. plain_host d \<longrightarrow> plain_path p \<longrightarrow>
        (\<exists>u. url_Parse lib (''http://'' @ d @ p) = Inr u \<and> u_Host u = d \<and> url_EscapedPath lib u = p)) \<and>
     (\<forall>d p. plain_host d \<longrightarrow> plain_path p \<longrightarrow>
        (\<exists>u. url_Parse lib (''http://'' @ d) = Inr u \<and> url_String lib (u\<lparr>u_Path := p\<rparr>) = ''http://'' @ d @ p)) \<and>
     (\<forall>p. plain_path p \<longrightarrow> path_clean lib p = p) \<and>
     (\<forall>s. list_all plain_char s \<longrightarrow> path_unescape lib s = s)"

lemma not_plain [simp]:
  "\<not> plain_char (CHR '':'')" "\<not> plain_char (CHR ''/'')" "\<not> plain_char (CHR ''{'')" "\<not> plain_char (CHR '' '')"
  "\<not> plain_char (CHR 0x09)"
  by (simp_all add: plain_char_def letters_def)

lemma no_dslash_free: "CHR ''/'' \<notin> set r \<Longrightarrow> no_dslash (c # r)"
  by (induction r arbitrary: c) auto

lemma no_dslash_append:
  assumes "no_dslash p" and "CHR ''/'' \<notin> set r"
  shows "no_dslash (p @ r)"
proof -
  have "no_dslash r" using assms(2) no_dslash_free by (cases r) auto
  with assms show ?thesis
    by (induction p rule: no_dslash.induct) (auto simp: no_dslash_free)
qed

lemma plain_path_append: "plain_path p \<Longrightarrow> list_all plain_char r \<Longrightarrow> plain_path (p @ r)"
proof -
  assume p: "plain_path p" and r: "list_all plain_char r"
  have "CHR ''/'' \<notin> set r" using r by (auto simp: list_all_iff)
  with p r show ?thesis
    by (auto simp: plain_path_def HasPrefix_iff list_all_iff no_dslash_append)
qed

lemma plain_path_no: "plain_path p \<Longrightarrow> \<not> plain_char c \<Longrightarrow> c \<noteq> CHR ''/'' \<Longrightarrow> c \<notin> set p"
  by (auto simp: plain_path_def list_all_iff)

lemma segments_plain:
  assumes "http_ok lib" and "plain_path p"
  shows "segments lib p = strSplit p ''/''"
proof -
  have "path_unescape lib x = x" if "x \<in> set (strSplit p ''/'')" for x
  proof -
    have "CHR ''/'' \<notin> set x" using that strSplit_no_sep by blast
    moreover have "set x \<subseteq> set p" by (rule set_strSplit [OF that])
    ultimately have "list_all plain_char x" using assms(2) by (auto simp: plain_path_def list_all_iff)
    with assms(1) show ?thesis by (simp add: http_ok_def)
  qed
  then show ?thesis by (simp add: segments_def map_idI)
qed

section \<open>Routing\<close>

definition root_of :: "string \<Rightarrow> pattern" where
  "root_of p = \<lparr>pt_method = [], pt_host = [], pt_path = p\<rparr>"

lemma root_path [simp]: "pt_path (root_of p) = p"
  by (simp add: root_of_def)

lemma mux_register_plain:
  assumes "plain_path p"
  shows "mux_register lib p = (if p = ''/'' then Panic (MuxPattern ''/'') else Return (root_of p))"
proof -
  obtain q where q: "p = CHR ''/'' # q" using assms by (auto simp: plain_path_def HasPrefix_iff)
  have "\<forall>c \<in> set p. \<not> (c = CHR '' '' \<or> c = CHR 0x09)"
    using plain_path_no [OF assms not_plain(4)] plain_path_no [OF assms not_plain(5)] by auto
  then have "takeWhile (\<lambda>c. \<not> (c = CHR '' '' \<or> c = CHR 0x09)) p = p" by (simp add: takeWhile_eq_all_conv)
  moreover have "indexByte p (CHR ''/'') = Some 0" by (simp add: q indexByte_def HasPrefix_def)
  ultimately have "parsePattern lib p = Some (root_of p)"
    by (simp add: parsePattern_def root_of_def Let_def)
  then show ?thesis by (simp add: mux_register_def root_of_def)
qed

lemma path_matches_plain:
  assumes "http_ok lib" and "plain_path p" and "list_all plain_char r" and "r \<noteq> []"
  shows "path_matches lib p p" and "path_matches lib p (p @ r) \<longleftrightarrow> last p = CHR ''/''"
proof -
  have pr: "plain_path (p @ r)" using assms(2,3) by (rule plain_path_append)
  note sg = segments_plain [OF assms(1,2)] segments_plain [OF assms(1) pr]
  show "path_matches lib p p"
    by (simp add: path_matches_def sg Let_def butlast_conv_take)
  have "CHR ''/'' \<in> set p" using assms(2) by (auto simp: plain_path_def HasPrefix_iff)
  then obtain a b where p: "p = a @ CHR ''/'' # b" "CHR ''/'' \<notin> set b" by (meson split_list_last)
  have nr: "CHR ''/'' \<notin> set (b @ r)" using p(2) assms(3) by (auto simp: list_all_iff)
  have s: "strSplit p ''/'' = strSplit a ''/'' @ [b]" "strSplit (p @ r) ''/'' = strSplit a ''/'' @ [b @ r]"
    using strSplit_last [OF p(2), of a] strSplit_last [OF nr, of a] p(1) by simp_all
  have "last p = CHR ''/'' \<longleftrightarrow> b = []"
    using p by (cases b rule: rev_cases) auto
  with s assms(4) show "path_matches lib p (p @ r) \<longleftrightarrow> last p = CHR ''/''"
    by (auto simp: path_matches_def sg Let_def)
qed

lemma pattern_matches_root: "pattern_matches lib (root_of p) r path = path_matches lib p path"
  by (simp add: pattern_matches_def root_of_def)

lemma mux_route_plain:
  assumes "http_ok lib" and "plain_path p" and "list_all plain_char r"
    and "url_EscapedPath lib (rq_URL req) = p @ r"
  shows "mux_route lib (root_of p) req = (if r = [] \<or> last p = CHR ''/'' then ToTunnel else ToDecoy)"
proof -
  have pr: "plain_path (p @ r)" using assms(2,3) by (rule plain_path_append)
  have c: "path_clean lib (p @ r) = p @ r" using assms(1) pr by (simp add: http_ok_def)
  have pe: "HasSuffix p ''/'' \<longleftrightarrow> last p = CHR ''/''" if "p \<noteq> []" for p :: string
    using that by (cases p rule: rev_cases) (simp_all add: HasSuffix_def)
  have ne: "p \<noteq> []" using assms(2) by (auto simp: plain_path_def HasPrefix_def)
  show ?thesis
  proof (cases "r = []")
    case True
    with path_matches_plain(1) [OF assms(1,2), of "''a''"] c assms(4) show ?thesis
      by (simp add: mux_route_def Let_def pattern_matches_root plain_char_def letters_def)
  next
    case False
    with path_matches_plain(2) [OF assms(1-3) False] c assms(4) pe [OF ne] show ?thesis
      by (simp add: mux_route_def Let_def pattern_matches_root)
  qed
qed

section \<open>The client's request\<close>

definition keeps_upgrade :: "string \<Rightarrow> bool" where
  "keeps_upgrade h \<longleftrightarrow>
     (case strSplitN2 h '':'' of
       [k, v] \<Rightarrow> canonicalKey (TrimSpace k) \<noteq> ''Upgrade'' \<and> canonicalKey (TrimSpace k) \<noteq> ''Connection''
     | _ \<Rightarrow> True)"

text \<open>What both sides need of a request: a \<open>GET\<close> to the host with the two upgrade headers.\<close>

definition upgrade_request :: "string \<Rightarrow> Request \<Rightarrow> bool" where
  "upgrade_request d r \<longleftrightarrow> rq_Method r = ''GET'' \<and> rq_Host r = d \<and>
     header_get r ''Upgrade'' = ''websocket'' \<and> header_get r ''Connection'' = ''Upgrade''"

lemma key_names [simp]:
  "canonicalKey ''Upgrade'' = ''Upgrade''" "canonicalKey ''Connection'' = ''Connection''"
  "canonicalKey ''Cookie'' = ''Cookie''" "canonicalKey ''Host'' = ''Host''"
  by (simp_all add: canonicalKey_def is_token_def is_digit_def Let_def upper_def lower_def)

lemma custom_header_keeps:
  "keeps_upgrade h \<Longrightarrow> upgrade_request d r \<Longrightarrow> upgrade_request d (custom_header h r) \<and>
     rq_URL (custom_header h r) = rq_URL r"
  by (auto simp: custom_header_def keeps_upgrade_def upgrade_request_def header_get_set split: list.splits)

lemma custom_headers_keep:
  "list_all keeps_upgrade hs \<Longrightarrow> upgrade_request d r \<Longrightarrow> upgrade_request d (fold custom_header hs r) \<and>
     rq_URL (fold custom_header hs r) = rq_URL r"
  by (induction hs arbitrary: r) (auto dest: custom_header_keeps)

lemma AddCookie_keeps:
  "upgrade_request d r \<Longrightarrow> upgrade_request d (AddCookie n v r) \<and> rq_URL (AddCookie n v r) = rq_URL r"
  by (auto simp: AddCookie_def upgrade_request_def header_get_set Let_def)

lemma client_request_shape:
  assumes "client_url lib (Some m) w = (s, w1)" and "url_Parse lib s = Inr u" and "plain_host (u_Host u)"
    and "list_all keeps_upgrade (mi_CustomHeaders m)"
  shows "\<exists>req. fst (client_request lib (Some m) w) = Inr req \<and> upgrade_request (u_Host u) req \<and> rq_URL req = u"
proof -
  obtain key w2 where k: "generateWebSocketKey w1 = (key, w2)" by (metis prod.collapse)
  obtain i w3 where i: "generateSessionID w2 = (i, w3)" by (metis prod.collapse)
  let ?q = "\<lparr>rq_Method = ''GET'', rq_Host = u_Host u, rq_URL = u, rq_Header = []\<rparr>"
  have "last (u_Host u) \<in> set (u_Host u)" using assms(3) by (simp add: plain_host_def)
  then have "plain_char (last (u_Host u)) \<or> last (u_Host u) = CHR ''.''"
    using assms(3) by (auto simp: plain_host_def list_all_iff)
  then have "last (u_Host u) \<noteq> CHR '':''" by auto
  then have r: "NewRequest lib ''GET'' s = Inr ?q"
    using assms(2) by (simp add: NewRequest_def removeEmptyPort_def)
  have h: "upgrade_request (u_Host u) (client_headers (Some m) key ?q) \<and> rq_URL (client_headers (Some m) key ?q) = u"
    by (simp add: client_headers_def upgrade_request_def header_get_set)
      (simp add: canonicalKey_def is_token_def is_digit_def Let_def upper_def lower_def)
  define q where "q = client_headers (Some m) key ?q"
  have c: "upgrade_request (u_Host u) (fold custom_header (mi_CustomHeaders m) q) \<and>
      rq_URL (fold custom_header (mi_CustomHeaders m) q) = u"
    using custom_headers_keep [OF assms(4), of "u_Host u" q] h by (simp add: q_def)
  have "fst (client_request lib (Some m) w) = Inr (if mi_SessionCookie m
      then AddCookie ''session'' i (fold custom_header (mi_CustomHeaders m) q) else fold custom_header (mi_CustomHeaders m) q)"
    using assms(1) r k i by (simp add: client_request_def Let_def q_def)
  with c AddCookie_keeps show ?thesis by auto
qed

lemma randAlphaNum_plain:
  "randAlphaNum n w = (r, w') \<Longrightarrow> length r = n \<and> list_all plain_char r"
proof (induction n arbitrary: w r w')
  case 0
  then show ?case by simp
next
  case (Suc n)
  obtain k w1 where k: "secureRandInt (int (length letters)) w = (k, w1)" by (metis prod.collapse)
  obtain s w2 where s: "randAlphaNum n w1 = (s, w2)" by (metis prod.collapse)
  have "nat k < length letters"
    using secureRandInt_nonneg [OF k] secureRandInt_less [OF k] by (simp add: nat_less_iff letters_def)
  then have "plain_char (letters ! nat k)" by (simp add: plain_char_def)
  with Suc.IH [OF s] Suc.prems k s show ?case by auto
qed

text \<open>The path the client asks for: the configured one, with eight plain characters for \<open>{rand}\<close>.\<close>

lemma Contains_absent: "c \<notin> set s \<Longrightarrow> \<not> Contains s (c # t)"
  by (simp add: Contains_def strIndex_none)

lemma strReplaceAll_last:
  assumes "CHR ''{'' \<notin> set p"
  shows "strReplaceAll (p @ ''{rand}'') ''{rand}'' r = p @ r" and "Contains (p @ ''{rand}'') ''{rand}''"
proof -
  have "strSplit (p @ ''{rand}'') ''{rand}'' = [p, []]"
    using strSplit_first [OF assms, of "''rand}''" "[]"] strSplit_whole [of "CHR ''{''" "[]" "''rand}''"] by simp
  then show "strReplaceAll (p @ ''{rand}'') ''{rand}'' r = p @ r" by (simp add: strReplaceAll_def)
  show "Contains (p @ ''{rand}'') ''{rand}''"
    using strIndex_first [OF assms, of "''rand}''" "[]"] by (simp add: Contains_def)
qed

lemma client_path:
  assumes "http_ok lib" and "plain_host (mi_FakeDomain m)" and "plain_path p"
    and "mi_FakePath m = p @ (if rnd then ''{rand}'' else [])"
    and "list_all keeps_upgrade (mi_CustomHeaders m)"
  shows "\<exists>req r. fst (client_request lib (Some m) w) = Inr req \<and> upgrade_request (mi_FakeDomain m) req \<and>
    url_EscapedPath lib (rq_URL req) = p @ r \<and> list_all plain_char r \<and> length r = (if rnd then 8 else 0)"
proof -
  let ?d = "mi_FakeDomain m"
  have nb: "CHR ''{'' \<notin> set p" by (rule plain_path_no [OF assms(3)]) simp_all
  have d: "client_domain (Some m) = ?d" and ne: "mi_FakePath m \<noteq> []"
    using assms(2-4) by (auto simp: client_domain_def mimic_field_def plain_host_def plain_path_def HasPrefix_def)
  obtain r w1 where s: "client_url lib (Some m) w = (''http://'' @ ?d @ p @ r, w1)"
      "list_all plain_char r" "length r = (if rnd then 8 else 0)"
  proof (cases rnd)
    case True
    obtain r w1 where r: "randAlphaNum 8 w = (r, w1)" by (metis prod.collapse)
    note rp = randAlphaNum_plain [OF r]
    have pr: "plain_path (p @ r)" using assms(3) rp plain_path_append by blast
    obtain u where u: "url_Parse lib (''http://'' @ ?d) = Inr u"
        "url_String lib (u\<lparr>u_Path := p @ r\<rparr>) = ''http://'' @ ?d @ p @ r"
      using assms(1,2) pr unfolding http_ok_def by blast
    have "HasPrefix (p @ r) ''/''" using pr by (simp add: plain_path_def)
    with r u assms(4) True strReplaceAll_last [OF nb] ne d
    have "client_url lib (Some m) w = (''http://'' @ ?d @ p @ r, w1)"
      by (simp add: client_url_def mimic_field_def BuildURLWithFakePath_def Let_def)
    with that rp True show thesis by simp
  next
    case False
    have "\<not> Contains p ''{rand}''" by (rule Contains_absent [OF nb])
    with assms(4) False ne d have "client_url lib (Some m) w = (''http://'' @ ?d @ p @ [], w)"
      by (simp add: client_url_def mimic_field_def Let_def)
    with that [of "[]" w] False show thesis by simp
  qed
  have "plain_path (p @ r)" using assms(3) s(2) by (rule plain_path_append)
  then obtain u where u: "url_Parse lib (''http://'' @ ?d @ p @ r) = Inr u" "u_Host u = ?d"
      "url_EscapedPath lib u = p @ r"
    using assms(1,2) unfolding http_ok_def by blast
  from client_request_shape [OF s(1) u(1) _ assms(5)] u assms(2) s show ?thesis by auto
qed

section \<open>Which requests reach the tunnel\<close>

lemma lower_Upgrade: "ToLower ''Upgrade'' = ''upgrade''" "ToLower ''websocket'' = ''websocket''"
proof -
  have "(of_char (CHR ''u'') :: nat) = 117" by simp
  then have "char_of (117 :: nat) = CHR ''u''" by (metis char_of_char)
  then show "ToLower ''Upgrade'' = ''upgrade''" "ToLower ''websocket'' = ''websocket''"
    by (simp_all add: ToLower_def lower_def)
qed

lemma validate_upgrade:
  assumes "upgrade_request d r" and "plain_host d" and "mi_FakeDomain m = d"
  shows "validateRequest lib (Some m) r"
proof -
  have "CHR '':'' \<notin> set d" using assms(2) by (auto simp: plain_host_def list_all_iff)
  then have "lastIndexByte d (CHR '':'') = None"
    using strIndex_none [of "CHR '':''" "rev d" "[]"] by (simp add: lastIndexByte_def)
  then have "SplitHostPort d = Inl (Errorf ''missing port in address'')" by (simp add: SplitHostPort_def)
  with assms show ?thesis
    by (simp add: validateRequest_def upgrade_request_def Let_def lower_Upgrade)
      (simp add: Contains_def HasPrefix_def)
qed

lemma tunnel_prefix_rand:
  assumes "CHR ''{'' \<notin> set p" and "p \<noteq> []" and "mi_FakePath m = p @ (if rnd then ''{rand}'' else [])"
  shows "tunnel_prefix (Some m) = p"
  using strSplit_first [OF assms(1), of "[]" "''rand}''"] strSplit_whole [OF assms(1), of "[]"] assms(2,3)
  by (simp add: tunnel_prefix_def mimicPath_def)

text \<open>
  C15. A client and a server with the same plain fake domain and path: the client's request always
  passes the server's validation unless a custom header replaces \<open>Upgrade\<close> or \<open>Connection\<close>. It is
  routed to the tunnel when the path is fixed or its \<open>{rand}\<close> follows a slash; with \<open>{rand}\<close> after
  anything else the server's pattern never matches and the client gets the decoy; with the root as
  path the server cannot register its pattern at all.
\<close>

theorem upgrade_request_routed:
  assumes "http_ok lib" and "plain_host (mi_FakeDomain m)" and "plain_path p"
    and "mi_FakePath m = p @ (if rnd then ''{rand}'' else [])"
    and "list_all keeps_upgrade (mi_CustomHeaders m)"
  shows "\<exists>req. fst (client_request lib (Some m) w) = Inr req \<and> validateRequest lib (Some m) req \<and>
    (if p = ''/'' then mux_register lib (tunnel_prefix (Some m)) = Panic (MuxPattern ''/'')
     else \<exists>pat. mux_register lib (tunnel_prefix (Some m)) = Return pat \<and>
       mux_route lib pat req = (if rnd \<and> last p \<noteq> CHR ''/'' then ToDecoy else ToTunnel))"
proof -
  obtain req r where r: "fst (client_request lib (Some m) w) = Inr req"
      "upgrade_request (mi_FakeDomain m) req" "url_EscapedPath lib (rq_URL req) = p @ r"
      "list_all plain_char r" "length r = (if rnd then 8 else 0)"
    using client_path [OF assms] by blast
  have "CHR ''{'' \<notin> set p" by (rule plain_path_no [OF assms(3)]) simp_all
  moreover have "p \<noteq> []" using assms(3) by (auto simp: plain_path_def HasPrefix_def)
  ultimately have "tunnel_prefix (Some m) = p" using assms(4) by (rule tunnel_prefix_rand)
  moreover have "validateRequest lib (Some m) req" by (rule validate_upgrade [OF r(2) assms(2) refl])
  moreover have "r = [] \<longleftrightarrow> \<not> rnd" using r(5) by (cases rnd) auto
  ultimately show ?thesis
    using r(1) mux_route_plain [OF assms(1,3) r(4,3)] mux_register_plain [OF assms(3), of lib] by auto
qed

definition demo_mimic :: "string \<Rightarrow> MimicConfig" where
  "demo_mimic path = \<lparr>mi_FakeDomain = ''h.io'', mi_FakePath = path, mi_UserAgent = ''ua'',
     mi_CustomHeaders = [''Accept: text/html''], mi_SessionCookie = True, mi_Chunked = False\<rparr>"

lemma demo_http_ok: "http_ok demo_http"
proof -
  have "takeWhile (\<lambda>c. c \<noteq> CHR ''/'') (d @ p) = d \<and> dropWhile (\<lambda>c. c \<noteq> CHR ''/'') (d @ p) = p"
    if h: "plain_host d" and q: "plain_path p" for d p :: string
  proof -
    have "\<forall>c \<in> set d. c \<noteq> CHR ''/''" using h by (auto simp: plain_host_def list_all_iff)
    moreover obtain q where "p = CHR ''/'' # q" using q by (auto simp: plain_path_def HasPrefix_iff)
    ultimately show ?thesis
      by (simp_all add: takeWhile_append2 dropWhile_append2)
  qed
  moreover have "takeWhile (\<lambda>c. c \<noteq> CHR ''/'') d = d" if "plain_host d" for d
    using that by (auto simp: plain_host_def list_all_iff takeWhile_eq_all_conv)
  ultimately show ?thesis by (simp add: http_ok_def demo_http_def)
qed

theorem upgrade_request_routed_witness:
  "\<exists>req pat. fst (client_request demo_http (Some (demo_mimic ''/search{rand}'')) (demo_world 30)) = Inr req \<and>
     mux_register demo_http ''/search'' = Return pat \<and> mux_route demo_http pat req = ToDecoy"
proof -
  have "plain_path ''/search''" by (simp add: plain_path_def HasPrefix_def plain_char_def letters_def)
  moreover have "plain_host (mi_FakeDomain (demo_mimic ''/search{rand}''))"
    by (simp add: demo_mimic_def plain_host_def plain_char_def letters_def)
  moreover have "list_all keeps_upgrade (mi_CustomHeaders (demo_mimic ''/search{rand}''))"
    by (simp add: demo_mimic_def keeps_upgrade_def strSplitN2_def HasPrefix_def TrimSpace_def is_space_def
        canonicalKey_def is_token_def is_digit_def upper_def lower_def Let_def)
  moreover have "mi_FakePath (demo_mimic ''/search{rand}'') = ''/search'' @ (if True then ''{rand}'' else [])"
    by (simp add: demo_mimic_def)
  moreover have "tunnel_prefix (Some (demo_mimic ''/search{rand}'')) = ''/search''"
    by (rule tunnel_prefix_rand [where rnd = True]) (simp_all add: demo_mimic_def)
  ultimately show ?thesis
    using upgrade_request_routed [OF demo_http_ok, of "demo_mimic ''/search{rand}''" "''/search''" True "demo_world 30"]
    by auto
qed

section \<open>Starting\<close>

lemma mux_register_bad:
  assumes "q = ''/'' \<or> CHR ''/'' \<notin> set q"
  shows "mux_register lib q = Panic (MuxPattern q)"
proof (cases "q = ''/''")
  case True
  then show ?thesis using mux_register_plain [of q lib] by (simp add: plain_path_def HasPrefix_def)
next
  case False
  then have n: "CHR ''/'' \<notin> set q" using assms by blast
  have "CHR ''/'' \<notin> set (if b then dropWhile f (drop k q) else q)" for b f k
    using n set_drop_subset [of k q] set_dropWhileD [of "CHR ''/''" f "drop k q"] by (cases b) auto
  then have "indexByte (if b then dropWhile f (drop k q) else q) (CHR ''/'') = None" for b f k
    by (simp only: indexByte_None not_False_eq_True)
  then have "parsePattern lib q = None" unfolding parsePattern_def Let_def by (simp only: option.case)
  then show ?thesis by (simp add: mux_register_def)
qed

text \<open>
  A server whose tunnel path is the root, with or without a variable part, or has no slash
  before it, panics while it starts: the pattern collides with the decoy's, or is none.
\<close>

theorem bad_path_panics_start:
  assumes "tunnel_prefix (Some (Mimic cfg)) = q" and "q = ''/'' \<or> CHR ''/'' \<notin> set q"
  shows "server_Start lib dflt cfg w = Panic (MuxPattern q)"
proof -
  obtain sc w1 where b: "buildSmuxConfig dflt cfg w = (sc, w1)" by (metis prod.collapse)
  have l: "listenOnPort lib cfg a = Panic (MuxPattern q)" for a
    using mux_register_bad [OF assms(2)] assms(1) by (simp add: listenOnPort_def)
  have "listen_ports lib cfg (a # ports) v = Panic (MuxPattern q)" for a ports v
    by (simp add: l)
  moreover have "ports \<noteq> [] \<Longrightarrow> \<exists>a as. ports = a # as" for ports :: "string list" by (cases ports) simp_all
  ultimately have "ports \<noteq> [] \<Longrightarrow> listen_ports lib cfg ports v = Panic (MuxPattern q)" for ports v
    by metis
  then show ?thesis using b l by (simp add: server_Start_def Let_def)
qed

definition demo_cfg :: "string \<Rightarrow> Config" where
  "demo_cfg path = zero_config\<lparr>Mimic := demo_mimic path\<rparr>"

theorem bad_path_panics_start_witness:
  "server_Start demo_http \<lparr>sc_Version = 1, sc_KeepAliveInterval = 0, sc_KeepAliveTimeout = 0,
     sc_MaxFrameSize = 0, sc_MaxReceiveBuffer = 0, sc_MaxStreamBuffer = 0\<rparr> (demo_cfg ''/{rand}'')
     \<lparr>w_entropy = [], w_sleeps = []\<rparr> = Panic (MuxPattern ''/'')"
proof (rule bad_path_panics_start)
  have "tunnel_prefix (Some (demo_mimic ''/{rand}'')) = ''/''"
    by (rule tunnel_prefix_rand [where rnd = True]) (simp_all add: demo_mimic_def)
  then show "tunnel_prefix (Some (Mimic (demo_cfg ''/{rand}''))) = ''/''" by (simp add: demo_cfg_def)
qed simp

text \<open>
  The server compares the host of a request without its port to the whole fake domain: when
  that was configured with a port, no request for it passes, whatever its headers, unless the host
  is an IP address.
\<close>

theorem domain_with_port_refused:
  assumes "mi_FakeDomain m = h @ '':'' @ p" and "rq_Host r = mi_FakeDomain m" and "\<not> net_ParseIP lib h"
    and "CHR '':'' \<notin> set h \<union> set p" "CHR ''['' \<notin> set h \<union> set p" "CHR '']'' \<notin> set h \<union> set p"
  shows "\<not> validateRequest lib (Some m) r"
proof -
  have "JoinHostPort h p = h @ '':'' @ p" using assms(4) by (simp add: JoinHostPort_def)
  then have s: "SplitHostPort (rq_Host r) = Inr (h, p)"
    using SplitHostPort_JoinHostPort [of h p] assms by simp
  have "length h < length (mi_FakeDomain m)" using assms(1) by simp
  then have "h \<noteq> mi_FakeDomain m" "\<not> HasSuffix h (''.'' @ mi_FakeDomain m)" "mi_FakeDomain m \<noteq> []"
    by (auto simp: HasSuffix_def)
  with s assms(3) show ?thesis by (simp add: validateRequest_def Let_def)
qed

theorem domain_with_port_refused_witness:
  "\<not> validateRequest demo_http (Some ((demo_mimic ''/search'')\<lparr>mi_FakeDomain := ''h.io:8080''\<rparr>))
     \<lparr>rq_Method = ''GET'', rq_Host = ''h.io:8080'', rq_URL = \<lparr>u_Host = ''h.io:8080'', u_Path = ''/search'',
       u_RawQuery = []\<rparr>, rq_Header = [(''Upgrade'', ''websocket''), (''Connection'', ''Upgrade'')]\<rparr>"
  by (rule domain_with_port_refused [of _ "''h.io''" "''8080''"]) (simp_all add: demo_http_def)

section \<open>What an upgrade does to the connection\<close>

lemma closed_nc_Close [simp]: "closed (nc_conn (nc_Close c))"
  by (simp add: nc_Close_def conn_close_def)

lemma NewEncryptedConn_conn: "NewEncryptedConn lib c psk ob st = Inr ec \<Longrightarrow> ec_conn ec = c \<and> ec_readBuf ec = []"
  by (auto simp: NewEncryptedConn_def Let_def split: if_splits sum.splits)

lemma server_setTCPOptions_conn [simp]:
  "nc_ok (server_setTCPOptions a c) = nc_ok c" "nc_sent (server_setTCPOptions a c) = nc_sent c"
  by (cases c; simp add: server_setTCPOptions_def nc_ok_def nc_sent_def)+

text \<open>
  C14. An invalid request gets the decoy, whatever the hijacker would answer, nothing else happens,
  and no valid request gets it. A valid one fails without a hijacker or with the hijacker's error;
  when a connection was handed over, every failure leaves it closed, and a session comes up only over
  that connection, on which exactly the 101 response was written before the tunnel's first packet.
\<close>

theorem tunnel_needs_valid_request:
  assumes "handleTunnel lib crypto dflt srv cfg hijack r w = Return (e, w')"
    and "\<forall>c. hijack = Some (Inr c) \<longrightarrow> nc_ok c"
  shows "(\<not> validateRequest lib (Some (Mimic cfg)) r \<longrightarrow>
      (\<forall>any. handleTunnel lib crypto dflt srv cfg any r w = Return (Decoyed writeDecoy, w))) \<and>
    (validateRequest lib (Some (Mimic cfg)) r \<longleftrightarrow> (\<forall>d. e \<noteq> Decoyed d)) \<and>
    (case e of
      Decoyed d \<Rightarrow> d = writeDecoy \<and> w' = w
    | HttpError msg code \<Rightarrow> hijack = None \<and> code = 500
    | HijackFailed x \<Rightarrow> hijack = Some (Inl x)
    | WriteFailed c \<Rightarrow> closed (nc_conn c)
    | EncryptFailed x c \<Rightarrow> closed (nc_conn c)
    | SmuxFailed x ec \<Rightarrow> closed (ec_conn ec)
    | SessionUp ec sc \<Rightarrow> ec_readBuf ec = [] \<and>
        (\<exists>c. hijack = Some (Inr c) \<and> tx (ec_conn ec) = nc_sent c @ bytes_of response_101))"
proof (cases "validateRequest lib (Some (Mimic cfg)) r")
  case False
  with assms(1) show ?thesis by (auto simp: handleTunnel_def)
next
  case True
  show ?thesis
  proof (cases "\<exists>c. hijack = Some (Inr c)")
    case False
    with assms(1) True show ?thesis by (auto simp: handleTunnel_def split: option.splits sum.splits)
  next
    case c: True
    then obtain c where c: "hijack = Some (Inr c)" "nc_ok c" using assms(2) by blast
    obtain n x c1 w1 where s: "nc_Write (server_setTCPOptions (Advanced cfg) c) (bytes_of response_101) w =
        Return ((n, x), c1, w1)" "x = None \<Longrightarrow> nc_sent c1 = nc_sent c @ bytes_of response_101"
      using net_sink.wr_ok [of "server_setTCPOptions (Advanced cfg) c" "bytes_of response_101" w] c(2) by auto
    obtain q where q: "NewEncryptedConn crypto (nc_conn c1) (PSK cfg) (Some (Obfs cfg)) [Some (Stealth cfg)] = q"
      by blast
    obtain sc w2 where b: "buildSmuxConfig dflt cfg w1 = (sc, w2)" by (metis prod.collapse)
    show ?thesis
    proof (cases x)
      case None
      with assms(1) True c s q b show ?thesis
        by (cases q) (auto simp: handleTunnel_def ec_Close_def conn_close_def nc_sent_def
            dest: NewEncryptedConn_conn split: option.splits)
    next
      case (Some y)
      with assms(1) True c s show ?thesis by (auto simp: handleTunnel_def)
    qed
  qed
qed

definition demo_request :: Request where
  "demo_request = \<lparr>rq_Method = ''GET'', rq_Host = ''h.io'', rq_URL = \<lparr>u_Host = ''h.io'', u_Path = ''/search'',
     u_RawQuery = []\<rparr>, rq_Header = [(''Upgrade'', ''websocket''), (''Connection'', ''Upgrade'')]\<rparr>"

definition demo_smux :: smuxcfg where
  "demo_smux = \<lparr>sc_Version = 1, sc_KeepAliveInterval = 0, sc_KeepAliveTimeout = 0, sc_MaxFrameSize = 0,
     sc_MaxReceiveBuffer = 0, sc_MaxStreamBuffer = 0\<rparr>"

text \<open>A concrete upgrade of which a session comes up.\<close>

lemma demo_tunnel:
  "\<exists>ec sc w'. handleTunnel demo_http demo_lib demo_smux (\<lambda>_ _. None) (demo_cfg ''/search'')
       (Some (Inr (demo_net [] []))) demo_request (demo_world 9) = Return (SessionUp ec sc, w')"
proof -
  have "upgrade_request ''h.io'' demo_request"
    by (simp add: upgrade_request_def demo_request_def header_get_def)
  then have v: "validateRequest demo_http (Some (Mimic (demo_cfg ''/search''))) demo_request"
    by (rule validate_upgrade) (simp_all add: demo_cfg_def demo_mimic_def plain_host_def plain_char_def letters_def)
  obtain c1 where "nc_Write (server_setTCPOptions (Advanced (demo_cfg ''/search'')) (demo_net [] []))
      (bytes_of response_101) (demo_world 9) = Return ((length (bytes_of response_101), None), c1, demo_world 9)"
    by (simp add: demo_net_def server_setTCPOptions_def new_sock_def new_conn_def conn_write_def)
  moreover obtain sc w2 where "buildSmuxConfig demo_smux (demo_cfg ''/search'') (demo_world 9) = (sc, w2)"
    by (metis prod.collapse)
  moreover have "PSK (demo_cfg ''/search'') = []" by (simp add: demo_cfg_def zero_config_def)
  ultimately show ?thesis
    using v by (auto simp: handleTunnel_def NewEncryptedConn_def Let_def)
qed

theorem tunnel_needs_valid_request_witness:
  "\<exists>ec sc w'. handleTunnel demo_http demo_lib demo_smux (\<lambda>_ _. None) (demo_cfg ''/search'')
       (Some (Inr (demo_net [] []))) demo_request (demo_world 9) = Return (SessionUp ec sc, w') \<and>
     tx (ec_conn ec) = bytes_of response_101"
proof -
  obtain ec sc w' where x: "handleTunnel demo_http demo_lib demo_smux (\<lambda>_ _. None) (demo_cfg ''/search'')
       (Some (Inr (demo_net [] []))) demo_request (demo_world 9) = Return (SessionUp ec sc, w')"
    using demo_tunnel by blast
  from tunnel_needs_valid_request [OF x] have "tx (ec_conn ec) = bytes_of response_101" by auto
  with x show ?thesis by blast
qed

end
