(* ===== verification/Handshakes.thy ===== *)
theory Handshakes
  imports TunnelProps
begin

text \<open>
  The two handshakes of mimic.go against each other: what \<open>ServerHandshake\<close> makes of the request
  \<open>ClientHandshake\<close> writes, with the lines of a dumped request as they are on the wire.
\<close>

section \<open>The lines of a request\<close>

definition request_line :: "httplib \<Rightarrow> Request \<Rightarrow> string" where
  "request_line lib r =
     (if rq_Method r = [] then ''GET'' else rq_Method r) @ '' '' @ url_RequestURI lib (rq_URL r) @ '' HTTP/1.1''"

definition dump_fields :: "Request \<Rightarrow> string list" where
  "dump_fields r =
     (if rq_Host r = [] then [] else [''Host: '' @ rq_Host r]) @
     map (\<lambda>(k, v). k @ '': '' @ header_value v)
       (sort_key fst (filter (\<lambda>(k, v). k \<notin> {''Host'', ''Transfer-Encoding'', ''Trailer''} \<and>
          k \<noteq> [] \<and> list_all is_token k) (rq_Header r)))"

lemma DumpRequest_lines:
  "DumpRequest lib r =
     request_line lib r @ crlf_str @ concat (map (\<lambda>l. l @ crlf_str) (dump_fields r)) @ crlf_str"
  by (simp add: DumpRequest_def request_line_def dump_fields_def comp_def case_prod_unfold)

lemma DumpRequest_bytes:
  "bytes_of (DumpRequest lib r) =
     bytes_of (request_line lib r) @ [CR, LF] @ crlf (map bytes_of (dump_fields r))"
  by (simp add: DumpRequest_lines bytes_of_lines [symmetric])

lemma header_value_no_LF: "CHR 0x0A \<notin> set (header_value v)"
proof -
  let ?f = "\<lambda>c. if c = CHR 0x0A \<or> c = CHR 0x0D then CHR '' '' else c"
  have "set (header_value v) \<subseteq> set (map ?f v)"
    by (auto simp: header_value_def Let_def dest!: set_dropWhileD)
  moreover have "CHR 0x0A \<notin> set (map ?f v)" by auto
  ultimately show ?thesis by blast
qed

lemma dump_fields_lines:
  assumes "plain_host (rq_Host r)"
  shows "\<forall>l \<in> set (map bytes_of (dump_fields r)). l \<noteq> [] \<and> LF \<notin> set l"
proof -
  have t: "\<not> is_token (CHR 0x0A)" by (simp add: is_token_def is_digit_def Let_def)
  have h: "CHR 0x0A \<notin> set (rq_Host r)"
  proof -
    have "\<not> plain_char (CHR 0x0A)" by (simp add: plain_char_def letters_def)
    with assms show ?thesis by (auto simp: plain_host_def list_all_iff)
  qed
  have "l \<noteq> [] \<and> CHR 0x0A \<notin> set l" if "l \<in> set (dump_fields r)" for l
  proof -
    from that consider "l = ''Host: '' @ rq_Host r"
      | k v where "l = k @ '': '' @ header_value v" "list_all is_token k"
      unfolding dump_fields_def set_append Un_iff by (fastforce split: if_splits)
    then show ?thesis
    proof cases
      case 1
      with h show ?thesis by simp
    next
      case (2 k v)
      with t have "CHR 0x0A \<notin> set k" by (auto simp: list_all_iff)
      with 2(1) header_value_no_LF [of v] show ?thesis by simp
    qed
  qed
  then have "\<forall>l \<in> set (dump_fields r). bytes_of l \<noteq> [] \<and> LF \<notin> set (bytes_of l)"
    by (simp add: bytes_of_no_LF) (simp add: bytes_of_def)
  then show ?thesis by simp
qed

section \<open>Reading it\<close>

text \<open>
  What \<open>http.ReadRequest\<close> documents of a request \<open>DumpRequest\<close> wrote: it is one line without a line
  feed, and reading gives its host and its path, a plain one without escapes.
\<close>

definition reads_back :: "httplib \<Rightarrow> Request \<Rightarrow> bool" where
  "reads_back lib q \<longleftrightarrow> CHR 0x0A \<notin> set (request_line lib q) \<and>
     (\<exists>r. http_parseRequest lib (map bytes_of (request_line lib q # dump_fields q)) = Inr r \<and>
        rq_Host r = rq_Host q \<and>
        (plain_path (url_EscapedPath lib (rq_URL q)) \<longrightarrow> u_Path (rq_URL r) = url_EscapedPath lib (rq_URL q)))"

lemma ReadRequest_dumped:
  assumes "bc_left b = bytes_of (DumpRequest lib q) @ rest" and "plain_host (rq_Host q)" and "reads_back lib q"
  shows "\<exists>r b'. ReadRequest lib b = (Inr r, b') \<and> rq_Host r = rq_Host q \<and>
    (plain_path (url_EscapedPath lib (rq_URL q)) \<longrightarrow> u_Path (rq_URL r) = url_EscapedPath lib (rq_URL q)) \<and>
    bc_left b' = rest \<and> bc_same b b'"
proof -
  let ?l = "bytes_of (request_line lib q)" and ?hs = "map bytes_of (dump_fields q)"
  have l: "bc_left b = (?l @ [CR]) @ LF # (crlf ?hs @ rest)" using assms(1) by (simp add: DumpRequest_bytes)
  have "LF \<notin> set (?l @ [CR])" using assms(3) CR_ne_LF by (simp add: reads_back_def bytes_of_no_LF)
  from readLine_line [OF l this, of "[]"] obtain b1 where b1:
    "readLine [] b = (Inr ?l, b1)" "bc_left b1 = crlf ?hs @ rest" "bc_same b b1" by auto
  from readHead_crlf [OF b1(2) dump_fields_lines [OF assms(2)]] obtain b2 where b2:
    "readHead b1 = (Inr ?hs, b2)" "bc_left b2 = rest" "bc_same b1 b2" by blast
  with b1 assms(3) show ?thesis
    by (auto simp: ReadRequest_def reads_back_def intro: bc_same_trans)
qed

text \<open>The refusal of a server that expects another host.\<close>

definition not_found :: string where
  "not_found = ''HTTP/1.1 404 Not Found'' @ crlf_str @ ''Content-Length: 0'' @ crlf_str @
     ''Connection: close'' @ crlf_str @ crlf_str"

lemma itoa_404: "itoa 404 = ''404''"
proof -
  have "(of_char (CHR ''4'') :: nat) = 52" "(of_char (CHR ''0'') :: nat) = 48" by simp_all
  then have "char_of (52 :: nat) = CHR ''4''" "char_of (48 :: nat) = CHR ''0''" by (metis char_of_char)+
  then show ?thesis by (simp add: itoa.simps)
qed

lemma writeFakeResponse_404:
  assumes "nc_ok nc" and "write_ok (nc_conn nc)"
  shows "\<exists>nc' w'. writeFakeResponse nc 404 w = Return (nc', w') \<and> nc_sent nc' = nc_sent nc @ bytes_of not_found"
  using nc_Write_ok [OF assms, of "bytes_of not_found" w]
  by (auto simp: writeFakeResponse_def itoa_404 not_found_def)

lemma ServerHandshake_dumped:
  assumes "rx (nc_conn nc) = bytes_of (DumpRequest lib q) @ rest" and "nc_ok nc" "write_ok (nc_conn nc)"
    and "plain_host (rq_Host q)" and "reads_back lib q"
  shows "\<exists>r nc' w'. rq_Host r = rq_Host q \<and>
    (plain_path (url_EscapedPath lib (rq_URL q)) \<longrightarrow> u_Path (rq_URL r) = url_EscapedPath lib (rq_URL q)) \<and>
    ServerHandshake lib nc cfg w = Return (server_refusal cfg r, nc', w') \<and>
    nc_sent nc' = nc_sent nc @ bytes_of (if server_refusal cfg r = None then response_101 else not_found)"
proof -
  let ?nc = "nc_SetReadDeadline (Some 5) nc"
  have "bc_left (NewReader ?nc) = bytes_of (DumpRequest lib q) @ rest"
    using assms(1) by (simp add: bc_left_def bc_conn_def NewReader_def)
  from ReadRequest_dumped [OF this assms(4,5)] obtain r b where r:
    "ReadRequest lib (NewReader ?nc) = (Inr r, b)" "rq_Host r = rq_Host q"
    "plain_path (url_EscapedPath lib (rq_URL q)) \<longrightarrow> u_Path (rq_URL r) = url_EscapedPath lib (rq_URL q)"
    "bc_same (NewReader ?nc) b" by blast
  then have b: "nc_ok (bc_Conn b)" "write_ok (nc_conn (bc_Conn b))" "nc_sent (bc_Conn b) = nc_sent nc"
    using assms(2,3) by (auto simp: bc_same_def bc_conn_def NewReader_def write_ok_def nc_sent_def tx_def)
  show ?thesis
  proof (cases "server_refusal cfg r")
    case None
    with r b nc_Write_ok [OF b(1,2), of "bytes_of response_101" w] show ?thesis
      by (auto simp: ServerHandshake_def Let_def)
  next
    case (Some e)
    with r b writeFakeResponse_404 [OF b(1,2), of w] show ?thesis
      by (auto simp: ServerHandshake_def Let_def)
  qed
qed

section \<open>Property\<close>

lemma server_refusal_same:
  assumes "plain_path p" and "mi_FakePath m = p @ (if rnd then ''{rand}'' else [])"
    and "rq_Host r = mi_FakeDomain m" and "u_Path (rq_URL r) = p @ x"
  shows "server_refusal (Some m) r = None"
proof -
  have p: "CHR ''{'' \<notin> set p" "p \<noteq> []"
    using plain_path_no [OF assms(1), of "CHR ''{''"] assms(1) by (auto simp: plain_path_def HasPrefix_def)
  then have "mi_FakePath m \<noteq> []" using assms(2) by simp
  with tunnel_prefix_rand [OF p assms(2)] have "hd (strSplit (mi_FakePath m) ''{'') = p"
    by (simp add: tunnel_prefix_def mimicPath_def)
  with assms(3,4) \<open>mi_FakePath m \<noteq> []\<close> show ?thesis by (auto simp: server_refusal_def HasPrefix_iff Let_def)
qed

lemma server_refusal_other:
  assumes "mi_FakeDomain m \<noteq> []" and "rq_Host r \<noteq> mi_FakeDomain m" and "\<not> HasSuffix (rq_Host r) (''.'' @ mi_FakeDomain m)"
  shows "server_refusal (Some m) r = Some (ErrorfStr ''invalid host'' (rq_Host r))"
  using assms by (simp add: server_refusal_def Let_def)

text \<open>
  C26. The two handshakes of mimic.go agree: the request a client makes of a plain fake domain and
  path is accepted by \<open>ServerHandshake\<close> with the same settings, which answers with the 101 response
  and nothing else; the client accepts that response, has written exactly the request and keeps every
  byte that follows; and a server with another domain, of which the client's is no subdomain, answers
  404 and names the host in its error.
\<close>

theorem mimic_handshakes_agree:
  assumes "http_ok lib" and "plain_host (mi_FakeDomain m)" and "plain_path p"
    and "mi_FakePath m = p @ (if rnd then ''{rand}'' else [])" and "list_all keeps_upgrade (mi_CustomHeaders m)"
    and "fst (client_request lib (Some m) v) = Inr req" and "reads_back lib req"
    and "rx (nc_conn s) = bytes_of (DumpRequest lib req) @ rest" and "nc_ok s" and "write_ok (nc_conn s)"
  shows "(\<exists>s' w'. ServerHandshake lib s (Some m) w = Return (None, s', w') \<and>
      nc_sent s' = nc_sent s @ bytes_of response_101) \<and>
    (\<forall>nc more. nc_ok nc \<longrightarrow> write_ok (nc_conn nc) \<longrightarrow> http_header lib (map bytes_of switching) = None \<longrightarrow>
      rx (nc_conn nc) = bytes_of response_101 @ more \<longrightarrow>
      (\<exists>b v'. ClientHandshake lib nc (Some m) v = Return (Inr b, v') \<and> bc_left b = more \<and>
        nc_sent (bc_Conn b) = nc_sent nc @ bytes_of (DumpRequest lib req))) \<and>
    (\<forall>m'. mi_FakeDomain m' \<noteq> [] \<longrightarrow> mi_FakeDomain m \<noteq> mi_FakeDomain m' \<longrightarrow>
      \<not> HasSuffix (mi_FakeDomain m) (''.'' @ mi_FakeDomain m') \<longrightarrow>
      (\<exists>s' w'. ServerHandshake lib s (Some m') w =
          Return (Some (ErrorfStr ''invalid host'' (mi_FakeDomain m)), s', w') \<and>
        nc_sent s' = nc_sent s @ bytes_of not_found))"
proof -
  obtain x where q: "upgrade_request (mi_FakeDomain m) req" "url_EscapedPath lib (rq_URL req) = p @ x"
      "list_all plain_char x"
    using client_path [OF assms(1-5), of v] assms(6) by auto
  have h: "rq_Host req = mi_FakeDomain m" using q(1) by (simp add: upgrade_request_def)
  have path: "plain_path (url_EscapedPath lib (rq_URL req))"
    unfolding q(2) using assms(3) q(3) by (rule plain_path_append)
  have srv: "\<exists>r s' w'. rq_Host r = mi_FakeDomain m \<and> u_Path (rq_URL r) = p @ x \<and>
      ServerHandshake lib s c w = Return (server_refusal c r, s', w') \<and>
      nc_sent s' = nc_sent s @ bytes_of (if server_refusal c r = None then response_101 else not_found)" for c
    using ServerHandshake_dumped [OF assms(8-10) _ assms(7), of c w] assms(2) h path q(2) by auto
  have "\<exists>s' w'. ServerHandshake lib s (Some m) w = Return (None, s', w') \<and>
      nc_sent s' = nc_sent s @ bytes_of response_101"
    using srv [of "Some m"] server_refusal_same [OF assms(3,4)] by fastforce
  moreover have "\<exists>s' w'. ServerHandshake lib s (Some m') w =
      Return (Some (ErrorfStr ''invalid host'' (mi_FakeDomain m)), s', w') \<and> nc_sent s' = nc_sent s @ bytes_of not_found"
    if "mi_FakeDomain m' \<noteq> []" "mi_FakeDomain m \<noteq> mi_FakeDomain m'"
      "\<not> HasSuffix (mi_FakeDomain m) (''.'' @ mi_FakeDomain m')" for m'
    using srv [of "Some m'"] server_refusal_other [of m'] that by fastforce
  moreover have "\<exists>b v'. ClientHandshake lib nc (Some m) v = Return (Inr b, v') \<and> bc_left b = more \<and>
      nc_sent (bc_Conn b) = nc_sent nc @ bytes_of (DumpRequest lib req)"
    if "nc_ok nc" "write_ok (nc_conn nc)" "http_header lib (map bytes_of switching) = None"
      "rx (nc_conn nc) = bytes_of response_101 @ more" for nc more
    using handshake_101 [of lib nc "Some m" v req more] that assms(6) by (auto simp: upgrade_ready_def)
  ultimately show ?thesis by blast
qed

definition demo_reader :: httplib where
  "demo_reader = demo_http\<lparr>http_parseRequest := \<lambda>_. Inr \<lparr>rq_Method = ''GET'', rq_Host = ''h.io'',
     rq_URL = \<lparr>u_Host = [], u_Path = ''/search'', u_RawQuery = []\<rparr>, rq_Header = []\<rparr>\<rparr>"

theorem mimic_handshakes_agree_witness:
  "\<exists>req s' w'. fst (client_request demo_reader (Some (demo_mimic ''/search'')) (demo_world 30)) = Inr req \<and>
     ServerHandshake demo_reader (demo_net (bytes_of (DumpRequest demo_reader req)) [7]) (Some (demo_mimic ''/search''))
       (demo_world 0) = Return (None, s', w') \<and> nc_sent s' = bytes_of response_101"
proof -
  let ?m = "demo_mimic ''/search''"
  have ok: "http_ok demo_reader" using demo_http_ok by (simp add: http_ok_def demo_reader_def)
  have d: "plain_host (mi_FakeDomain ?m)" by (simp add: demo_mimic_def plain_host_def plain_char_def letters_def)
  have p: "plain_path ''/search''" by (simp add: plain_path_def HasPrefix_def plain_char_def letters_def)
  have f: "mi_FakePath ?m = ''/search'' @ (if False then ''{rand}'' else [])" by (simp add: demo_mimic_def)
  have k: "list_all keeps_upgrade (mi_CustomHeaders ?m)"
    by (simp add: demo_mimic_def keeps_upgrade_def strSplitN2_def HasPrefix_def TrimSpace_def is_space_def
        canonicalKey_def is_token_def is_digit_def upper_def lower_def Let_def)
  obtain req where req: "fst (client_request demo_reader (Some ?m) (demo_world 30)) = Inr req"
      "upgrade_request (mi_FakeDomain ?m) req" "url_EscapedPath demo_reader (rq_URL req) = ''/search''"
    using client_path [OF ok d p f k, of "demo_world 30"] by auto
  have "url_RequestURI demo_reader (rq_URL req) = ''/search''" "rq_Method req = ''GET''" "rq_Host req = ''h.io''"
    using req(2,3) by (simp_all add: demo_reader_def demo_http_def upgrade_request_def demo_mimic_def)
  then have rb: "reads_back demo_reader req"
    using req(3) by (simp add: reads_back_def request_line_def demo_reader_def demo_http_def)
  have "rx (nc_conn (demo_net (bytes_of (DumpRequest demo_reader req)) [7])) = bytes_of (DumpRequest demo_reader req) @ []"
    by simp
  from mimic_handshakes_agree [OF ok d p f k req(1) rb this, THEN conjunct1, of "demo_world 0"] req(1)
  show ?thesis by auto
qed

end
