(* ===== verification/ServerRun.thy ===== *)
theory ServerRun
  imports TunnelProps
begin

text \<open>
  \<open>handleTunnel\<close> of server.go from the request to its return, with the goroutines it starts, beside
  everything else the server does meanwhile; and the interval of \<open>healthMonitor\<close>.
\<close>

section \<open>The whole handler\<close>

definition monitor_interval :: "Config \<Rightarrow> int" where
  "monitor_interval cfg =
     (let interval = i64 (adv_CleanupInterval (Advanced cfg) * second)
      in if interval < second then 3 * second else interval)"

text \<open>The \<open>go\<close> statements of the handler, with the session they get.\<close>

datatype spawned = GoFakeTraffic nat | GoHandleStream nat conn

text \<open>The loop around \<open>AcceptStream\<close>, given what its calls return; after the last of them it fails.\<close>

fun accept_streams :: "nat \<Rightarrow> (gerror + conn) list \<Rightarrow> spawned list" where
  "accept_streams x [] = []"
| "accept_streams x (Inl e # as) = []"
| "accept_streams x (Inr stream # as) = GoHandleStream x stream # accept_streams x as"

text \<open>
  The handler on the shared state. When its session comes up it enters the pool as the goroutine
  \<open>TunnelUp\<close>, and the steps of all goroutines interleave while it waits in \<open>AcceptStream\<close>; then it removes
  the session, and they interleave again before it closes it. \<open>y\<close> is the state its session enters.
\<close>

definition handler_step :: "nat \<Rightarrow> system \<Rightarrow> system" where
  "handler_step k u =
     (case proc_next (sy_procs u ! k) (sy_srv u) of
       Some (p, s) \<Rightarrow> u\<lparr>sy_srv := s, sy_procs := (sy_procs u)[k := p]\<rparr>
     | None \<Rightarrow> u)"

inductive tunnel_serve ::
    "(serverSession \<Rightarrow> gerror + conn \<Rightarrow> bool) \<Rightarrow> httplib \<Rightarrow> 'b cryptolib \<Rightarrow> smuxcfg \<Rightarrow>
     (encConn \<Rightarrow> smuxcfg \<Rightarrow> gerror option) \<Rightarrow> (gerror + netconn) option \<Rightarrow> Request \<Rightarrow> string \<Rightarrow> int \<Rightarrow>
     (gerror + conn) list \<Rightarrow> (gerror + conn) list \<Rightarrow> system \<Rightarrow> world \<Rightarrow>
     tunnel_end \<Rightarrow> spawned list \<Rightarrow> system \<Rightarrow> world \<Rightarrow> bool"
  for may lib crypto dflt smux_Server hijack r remote now opens accepts y w where
  no_session: "handleTunnel lib crypto dflt smux_Server (sv_Config (sy_srv y)) hijack r w = Return (e, w') \<Longrightarrow>
    (\<And>ec sc. e \<noteq> SessionUp ec sc) \<Longrightarrow>
    tunnel_serve may lib crypto dflt smux_Server hijack r remote now opens accepts y w e [] y w'"
| session: "handleTunnel lib crypto dflt smux_Server (sv_Config (sy_srv y)) hijack r w = Return (SessionUp ec sc, w') \<Longrightarrow>
    x = sy_next y \<Longrightarrow> k = length (sy_procs y) \<Longrightarrow> unlocked y \<Longrightarrow>
    fake = (if st_FakeTraffic (Stealth (sv_Config (sy_srv y))) then [GoFakeTraffic x] else []) \<Longrightarrow>
    srv_reach may (tunnel_open remote now opens y) u \<Longrightarrow> sy_procs u ! k = TunnelUp x \<Longrightarrow> unlocked u \<Longrightarrow>
    srv_reach may (handler_step k u) v \<Longrightarrow> sy_procs v ! k = TunnelRemoved x \<Longrightarrow>
    tunnel_serve may lib crypto dflt smux_Server hijack r remote now opens accepts y w
      (SessionUp ec sc) (fake @ accept_streams x accepts) (handler_step k v) w'"

section \<open>A session that is gone\<close>

lemma closed_simps [simp]:
  "ss_closed (sv_heap (upd_session z f s) x) = (if x = z then ss_closed (f (sv_heap s x)) else ss_closed (sv_heap s x))"
  "ss_closed (sv_heap (closeSess z s) x) = (x = z \<or> ss_closed (sv_heap s x))"
  "sv_heap (removeSession z s) = sv_heap s" "sv_heap (addSession z s) = sv_heap s"
  by (simp_all add: upd_session_def closeSess_def removeSession_def addSession_def)

text \<open>A session that left the pool does not come back, and a closed one stays closed.\<close>

definition left_pool :: "nat \<Rightarrow> system \<Rightarrow> bool" where
  "left_pool x y \<longleftrightarrow> x < sy_next y \<and> x \<notin> set (sv_sessions (sy_srv y))"

definition gone :: "nat \<Rightarrow> system \<Rightarrow> bool" where
  "gone x y \<longleftrightarrow> left_pool x y \<and> ss_closed (sv_heap (sy_srv y) x)"

lemma tame_out: "tame s s' \<Longrightarrow> x \<notin> set (sv_sessions s) \<Longrightarrow> x \<notin> set (sv_sessions s')"
  by (auto simp: tame_def dest: notin_set_remove1)

lemma left_pool_step: "srv_step may y z \<Longrightarrow> left_pool x y \<Longrightarrow> left_pool x z"
proof (induction rule: srv_step.induct)
  case (connect y remote now opens)
  then show ?case by (auto simp: left_pool_def tunnel_open_def addSession_def)
next
  case (run k y p s)
  with tame_out [OF proc_next_tame [OF run(2)]] show ?case by (simp add: left_pool_def)
qed (auto simp: left_pool_def evict_some_def)

lemma gone_step: "srv_step may y z \<Longrightarrow> gone x y \<Longrightarrow> gone x z"
proof -
  assume s: "srv_step may y z" and g: "gone x y"
  then have "left_pool x z" using left_pool_step by (auto simp: gone_def)
  moreover have "ss_closed (sv_heap (sy_srv z) x)"
    using s g
  proof (induction rule: srv_step.induct)
    case (connect y remote now opens)
    then show ?case by (auto simp: gone_def left_pool_def tunnel_open_def)
  next
    case (run k y p s)
    with proc_next_tame [OF run(2)] show ?case by (simp add: gone_def tame_def)
  qed (auto simp: gone_def evict_some_def)
  ultimately show ?thesis by (simp add: gone_def)
qed

lemma left_pool_reach: "srv_reach may y z \<Longrightarrow> left_pool x y \<Longrightarrow> left_pool x z"
  by (induction rule: srv_reach.induct) (auto intro: left_pool_step)

lemma gone_reach: "srv_reach may y z \<Longrightarrow> gone x y \<Longrightarrow> gone x z"
  by (induction rule: srv_reach.induct) (auto intro: gone_step)

text \<open>Goroutines and names are never taken back.\<close>

lemma srv_step_grows:
  "srv_step may y z \<Longrightarrow> sy_next y \<le> sy_next z \<and> length (sy_procs y) \<le> length (sy_procs z)"
  by (induction rule: srv_step.induct) (simp_all add: tunnel_open_def)

lemma srv_reach_grows:
  "srv_reach may y z \<Longrightarrow> sy_next y \<le> sy_next z \<and> length (sy_procs y) \<le> length (sy_procs z)"
  by (induction rule: srv_reach.induct) (auto intro: order_trans dest: srv_step_grows)

text \<open>
  A session is retired when, after any further steps, it is not in the pool and closed, the next tick
  of its fake traffic ends the loop, and no step gives a goroutine a stream of it that it did not
  hold already. A goroutine that chose the session before may still call \<open>OpenStream\<close> on it.
\<close>

definition retired :: "(serverSession \<Rightarrow> gerror + conn \<Rightarrow> bool) \<Rightarrow> nat \<Rightarrow> system \<Rightarrow> bool" where
  "retired may x y \<longleftrightarrow> (\<forall>u. srv_reach may y u \<longrightarrow>
     x \<notin> set (sv_sessions (sy_srv u)) \<and> ss_closed (sv_heap (sy_srv u) x) \<and>
     proc_next (FakeTick x) (sy_srv u) = Some (Ended, sy_srv u) \<and>
     (\<forall>v k. srv_step may u v \<and> k < length (sy_procs v) \<and> holds_stream (sy_procs v ! k) = Some x \<longrightarrow>
        k < length (sy_procs u) \<and> holds_stream (sy_procs u ! k) = Some x))"

text \<open>What the program relies on of smux: a closed session opens no stream.\<close>

definition refuses_closed :: "(serverSession \<Rightarrow> gerror + conn \<Rightarrow> bool) \<Rightarrow> bool" where
  "refuses_closed may \<longleftrightarrow> (\<forall>ss r. may ss r \<longrightarrow> ss_closed ss \<longrightarrow> isl r)"

lemma reverse_next_holds:
  assumes "reverse_next c s = Some (c', s')" and "holds_stream (Reverse c') = Some x"
  shows "holds_stream (Reverse c) = Some x \<or> opens_on (Reverse c) = Some x \<and> \<not> isl (fst (smux_OpenStream x s))"
  using assms
  by (cases "(c, s)" rule: reverse_next.cases)
    (auto simp: Let_def split: if_splits option.splits prod.splits sum.splits)

lemma proc_next_holds:
  assumes "proc_next p s = Some (p', s')" and "holds_stream p' = Some x"
  shows "holds_stream p = Some x \<or> opens_on p = Some x \<and> \<not> isl (fst (smux_OpenStream x s))"
proof (cases "\<exists>c. p = Reverse c")
  case True
  then obtain c where p: "p = Reverse c" by blast
  from proc_next_Reverse [OF assms(1) [unfolded p]] assms(2) show ?thesis
    by (auto simp: p dest: reverse_next_holds)
next
  case False
  with assms show ?thesis by (cases p) (auto split: if_splits prod.splits sum.splits)
qed

lemma starts_nothing: "starts y p \<Longrightarrow> holds_stream p = None"
  by (auto simp: starts_def)

lemma no_new_stream:
  assumes "srv_step may u v" and "refuses_closed may" and "ss_closed (sv_heap (sy_srv u) x)"
    and "k < length (sy_procs v)" and "holds_stream (sy_procs v ! k) = Some x"
  shows "k < length (sy_procs u) \<and> holds_stream (sy_procs u ! k) = Some x"
  using assms
proof (induction rule: srv_step.induct)
  case (connect y remote now opens)
  then show ?case by (auto simp: tunnel_open_def nth_append split: if_splits)
next
  case (spawn y p)
  then show ?case by (auto simp: nth_append starts_nothing split: if_splits)
next
  case (run j y p s)
  show ?case
  proof (cases "k = j")
    case False
    with run show ?thesis by simp
  next
    case True
    with run have "holds_stream p = Some x" by simp
    from proc_next_holds [OF run(2) this] run(4-6) show ?thesis
      by (auto simp: True refuses_closed_def run(1))
  qed
qed simp_all

lemma gone_retired:
  assumes "refuses_closed may" and "gone x y"
  shows "retired may x y"
  unfolding retired_def
proof (intro allI impI)
  fix u
  assume "srv_reach may y u"
  from gone_reach [OF this assms(2)] have g: "x \<notin> set (sv_sessions (sy_srv u))" "ss_closed (sv_heap (sy_srv u) x)"
    by (simp_all add: gone_def left_pool_def)
  note n = no_new_stream [OF _ assms(1) g(2)]
  show "x \<notin> set (sv_sessions (sy_srv u)) \<and> ss_closed (sv_heap (sy_srv u) x) \<and>
     proc_next (FakeTick x) (sy_srv u) = Some (Ended, sy_srv u) \<and>
     (\<forall>v k. srv_step may u v \<and> k < length (sy_procs v) \<and> holds_stream (sy_procs v ! k) = Some x \<longrightarrow>
        k < length (sy_procs u) \<and> holds_stream (sy_procs u ! k) = Some x)"
    using g n by (intro conjI) (simp_all, blast)
qed

lemma accept_streams_in: "GoHandleStream z st \<in> set (accept_streams x as) \<Longrightarrow> z = x \<and> Inr st \<in> set as"
  by (induction x as rule: accept_streams.induct) auto

lemma accept_streams_no_fake [simp]: "GoFakeTraffic z \<notin> set (accept_streams x as)"
  by (induction x as rule: accept_streams.induct) auto

lemma tunnel_open_new:
  assumes "system_ok y"
  shows "sv_sessions (sy_srv (tunnel_open remote now opens y)) = sv_sessions (sy_srv y) @ [sy_next y] \<and>
    sy_next y \<notin> set (sv_sessions (sy_srv y)) \<and> counts (sy_srv (tunnel_open remote now opens y)) (sy_next y) = 0 \<and>
    \<not> ss_closed (sv_heap (sy_srv (tunnel_open remote now opens y)) (sy_next y))"
  using assms
  by (auto simp: tunnel_open_def addSession_def fresh_session_def counts_def upd_session_def system_ok_def)

text \<open>The handler's two steps: the session leaves the pool, alone, and is closed.\<close>

lemma handler_removes:
  assumes "system_ok u" and "sy_procs u ! k = TunnelUp x" and "x < sy_next u"
  shows "sv_sessions (sy_srv (handler_step k u)) = remove1 x (sv_sessions (sy_srv u)) \<and> left_pool x (handler_step k u)"
  using assms srv_pool.distinct_rem [of "sy_srv u" x]
  by (simp add: handler_step_def left_pool_def system_ok_def removeSession_def remove_session_eq)

lemma handler_closes:
  assumes "sy_procs v ! k = TunnelRemoved x" and "left_pool x v"
  shows "gone x (handler_step k v)"
  using assms by (simp add: handler_step_def gone_def left_pool_def)

section \<open>Property\<close>

text \<open>
  C9. The life of a tunnel, with every other goroutine interleaved at each of its atomic accesses: when
  no session comes up, the pool is untouched and no goroutine is started. When one does, the request
  was valid and the session entered the pool as a new one, open and with no stream counted; fake
  traffic is started only when configured, and every stream handler with a stream this session
  accepted. When the handler returns the session is out of the pool and closed, for good; its fake
  traffic ends at its next tick; and, as smux opens no stream in a closed session, no goroutine gets
  another stream of it, even one that chose it before.
\<close>

theorem tunnel_lifecycle:
  assumes "tunnel_serve may lib crypto dflt srv hijack r remote now opens accepts y w e go z w'"
    and "srv_reach may y0 y" "started y0" and "refuses_closed may"
  shows "case e of
      SessionUp ec sc \<Rightarrow>
        (let x = sy_next y; up = tunnel_open remote now opens y
         in validateRequest lib (Some (Mimic (sv_Config (sy_srv y)))) r \<and>
            sv_sessions (sy_srv up) = sv_sessions (sy_srv y) @ [x] \<and> x \<notin> set (sv_sessions (sy_srv y)) \<and>
            counts (sy_srv up) x = 0 \<and> \<not> ss_closed (sv_heap (sy_srv up) x) \<and>
            (\<forall>v. GoFakeTraffic v \<in> set go \<longrightarrow> v = x \<and> st_FakeTraffic (Stealth (sv_Config (sy_srv y)))) \<and>
            (\<forall>v stream. GoHandleStream v stream \<in> set go \<longrightarrow> v = x \<and> Inr stream \<in> set accepts) \<and>
            retired may x z)
    | _ \<Rightarrow> go = [] \<and> z = y"
  using assms(1)
proof (cases rule: tunnel_serve.cases)
  case no_session
  then show ?thesis by (simp split: tunnel_end.split)
next
  case (session ec sc x k fake u v)
  let ?up = "tunnel_open remote now opens y"
  have valid: "validateRequest lib (Some (Mimic (sv_Config (sy_srv y)))) r"
    using session(4) by (auto simp: handleTunnel_def split: if_splits)
  have ok: "system_ok y" using srv_reach_ok [OF assms(2) started_ok [OF assms(3)]] .
  have "system_ok ?up" using srv_step_ok [OF srv_step.connect [OF session(7)] ok] .
  then have u: "system_ok u" by (rule srv_reach_ok [OF session(9)])
  have "x < sy_next u" using srv_reach_grows [OF session(9)] session(5) by (simp add: tunnel_open_def)
  from handler_removes [OF u session(10) this] have "left_pool x v"
    using left_pool_reach [OF session(12)] by blast
  from gone_retired [OF assms(4) handler_closes [OF session(13) this]] have "retired may x z"
    using session(3) by simp
  moreover have "\<forall>v. GoFakeTraffic v \<in> set go \<longrightarrow> v = x \<and> st_FakeTraffic (Stealth (sv_Config (sy_srv y)))"
      "\<forall>v stream. GoHandleStream v stream \<in> set go \<longrightarrow> v = x \<and> Inr stream \<in> set accepts"
    using session(2,8) accept_streams_in accept_streams_no_fake by (auto split: if_splits)
  ultimately show ?thesis
    using valid tunnel_open_new [OF ok] session(5) unfolding session(1) Let_def by auto
qed

text \<open>A tunnel whose session carries one stream and ends, with an idle server beside it.\<close>

theorem tunnel_lifecycle_witness:
  "\<exists>ec sc go z w'. tunnel_serve (\<lambda>ss q. ss_closed ss \<longrightarrow> isl q) demo_http demo_lib demo_smux (\<lambda>_ _. None)
       (Some (Inr (demo_net [] []))) demo_request ''c:9'' 7 [] [Inr (new_conn [1]), Inl EOF]
       (demo_system\<lparr>sy_srv := NewServer (demo_cfg ''/search'')\<rparr>) (demo_world 9) (SessionUp ec sc) go z w' \<and>
     GoHandleStream 0 (new_conn [1]) \<in> set go \<and> sv_sessions (sy_srv z) = [] \<and>
     retired (\<lambda>ss q. ss_closed ss \<longrightarrow> isl q) 0 z"
proof -
  let ?y = "demo_system\<lparr>sy_srv := NewServer (demo_cfg ''/search'')\<rparr>" and ?may = "\<lambda>ss q. ss_closed ss \<longrightarrow> isl (q :: gerror + conn)"
  obtain ec sc w' where h: "handleTunnel demo_http demo_lib demo_smux (\<lambda>_ _. None) (demo_cfg ''/search'')
       (Some (Inr (demo_net [] []))) demo_request (demo_world 9) = Return (SessionUp ec sc, w')"
    using demo_tunnel by blast
  let ?u = "tunnel_open ''c:9'' 7 [] ?y"
  let ?v = "handler_step 0 ?u"
  have c: "sv_Config (sy_srv ?y) = demo_cfg ''/search''" "sy_next ?y = 0" "sy_procs ?y = []"
    by (simp_all add: NewServer_def demo_system_def)
  have u: "sy_procs ?u = [TunnelUp 0]" "sy_procs ?v = [TunnelRemoved 0]"
    by (simp_all add: tunnel_open_def handler_step_def demo_system_def)
  obtain fake where f: "fake = (if st_FakeTraffic (Stealth (sv_Config (sy_srv ?y))) then [GoFakeTraffic 0] else [])"
    by blast
  have s: "tunnel_serve ?may demo_http demo_lib demo_smux (\<lambda>_ _. None) (Some (Inr (demo_net [] []))) demo_request
       ''c:9'' 7 [] [Inr (new_conn [1]), Inl EOF] ?y (demo_world 9) (SessionUp ec sc)
       (fake @ accept_streams 0 [Inr (new_conn [1]), Inl EOF]) (handler_step 0 ?v) w'"
  proof (rule session [where x = 0 and k = 0 and u = ?u and v = ?v])
    show "handleTunnel demo_http demo_lib demo_smux (\<lambda>_ _. None) (sv_Config (sy_srv ?y))
        (Some (Inr (demo_net [] []))) demo_request (demo_world 9) = Return (SessionUp ec sc, w')"
      unfolding c(1) by (rule h)
    show "0 = sy_next ?y" "0 = length (sy_procs ?y)" unfolding c(2,3) by simp_all
    show "unlocked ?y" "unlocked ?u" unfolding unlocked_def c(3) u by simp_all
    show "sy_procs ?u ! 0 = TunnelUp 0" "sy_procs ?v ! 0 = TunnelRemoved 0" unfolding u by simp_all
    show "srv_reach ?may ?u ?u" "srv_reach ?may ?v ?v" by (rule srv_start)+
  qed (rule f)
  have st: "started ?y" by (simp add: started_def demo_system_def NewServer_def counts_def fresh_session_def)
  have "refuses_closed ?may" by (simp add: refuses_closed_def)
  from tunnel_lifecycle [OF s srv_start st this] have r: "retired ?may 0 (handler_step 0 ?v)"
    by (simp add: Let_def c(2))
  have "sv_sessions (sy_srv (handler_step 0 ?v)) = []"
    by (simp add: handler_step_def tunnel_open_def demo_system_def NewServer_def addSession_def removeSession_def)
  with r s show ?thesis by fastforce
qed

end
