(* ===== verification/Client.thy ===== *)
theory Client
  imports Mimic Dial Pool SmuxCfg EncConn
begin

text \<open>
  client.go: the client's state and session pool, the choice of path and address, dialling with its
  TLS disguise, \<open>connectAndServe\<close> and the loop of a pool worker around it, and \<open>OpenStream\<close>. The TLS
  library's handshake and smux's sessions are fields of \<open>clientenv\<close>, an argument.
\<close>

section \<open>State\<close>

record clientSession =
  cs_closed :: bool
  cs_opens :: "(gerror + conn) list"

record client =
  cl_cfg :: Config
  cl_paths :: "PathConfig list"
  cl_sessions :: "nat list"
  cl_rrIndex :: "64 word"
  cl_heap :: "nat \<Rightarrow> clientSession"

definition NewClient :: "Config \<Rightarrow> client" where
  "NewClient cfg =
     (let paths = Paths cfg;
          paths = (if paths = [] \<and> ServerURL cfg \<noteq> [] then
            [\<lparr>pa_Transport = Transport cfg, pa_Addr = ServerURL cfg, pa_ConnectionPool = NumConnections cfg,
              pa_AggressivePool = False, pa_RetryInterval = 3, pa_DialTimeout = 10\<rparr>] else paths)
      in \<lparr>cl_cfg = cfg, cl_paths = paths, cl_sessions = [], cl_rrIndex = 0,
          cl_heap = (\<lambda>_. \<lparr>cs_closed = True, cs_opens = []\<rparr>)\<rparr>)"

text \<open>
  What \<open>Start\<close> does, in order: a goroutine is launched or the caller sleeps. The loop launches worker
  \<open>i\<close> and pauses behind it, before it launches the next one.
\<close>

datatype startup = GoHealthCheck | GoWorker nat | Pause int

fun launch :: "nat \<Rightarrow> nat \<Rightarrow> int \<Rightarrow> world \<Rightarrow> startup list \<times> world" where
  "launch i 0 jitterMS w = ([], w)"
| "launch i (Suc n) jitterMS w =
     (case secureRandInt (i64 (jitterMS + 1)) w of (jitter, w) \<Rightarrow>
        let d = i64 (i64 (500 + jitter) * millisecond)
        in case launch (Suc i) n jitterMS (sleep d w) of (evs, w) \<Rightarrow> (GoWorker i # Pause d # evs, w))"

definition client_Start :: "smuxcfg \<Rightarrow> client \<Rightarrow> world \<Rightarrow> (gerror + startup list) \<times> world" where
  "client_Start dflt c w =
     (case cl_paths c of
       [] \<Rightarrow> (Inl (Errorf ''no paths configured''), w)
     | p # _ \<Rightarrow>
         let poolSize = pos_or (pos_or (pa_ConnectionPool p) (NumConnections (cl_cfg c))) 4
         in case buildSmuxConfig dflt (cl_cfg c) w of (_, w) \<Rightarrow>
            (case launch 0 (nat poolSize) (st_ConnJitterMS (Stealth (cl_cfg c))) w of
              (evs, w) \<Rightarrow> (Inr (GoHealthCheck # evs), w)))"

section \<open>The session pool\<close>

definition upd_clientSession :: "nat \<Rightarrow> (clientSession \<Rightarrow> clientSession) \<Rightarrow> client \<Rightarrow> client" where
  "upd_clientSession x f c = c\<lparr>cl_heap := (cl_heap c)(x := f (cl_heap c x))\<rparr>"

definition cl_addSession :: "nat \<Rightarrow> client \<Rightarrow> client" where
  "cl_addSession x c = c\<lparr>cl_sessions := cl_sessions c @ [x]\<rparr>"

definition cl_removeSession :: "nat \<Rightarrow> client \<Rightarrow> client" where
  "cl_removeSession x c = c\<lparr>cl_sessions := remove_session x (cl_sessions c)\<rparr>"

definition cl_closeSess :: "nat \<Rightarrow> client \<Rightarrow> client" where
  "cl_closeSess x = upd_clientSession x (\<lambda>s. s\<lparr>cs_closed := True\<rparr>)"

lemma cl_closeSess_sel [simp]:
  "cl_sessions (cl_closeSess x c) = cl_sessions c" "cl_cfg (cl_closeSess x c) = cl_cfg c"
  "cl_paths (cl_closeSess x c) = cl_paths c" "cs_closed (cl_heap (cl_closeSess x c) x)"
  by (simp_all add: cl_closeSess_def upd_clientSession_def)

definition sessionCount :: "client \<Rightarrow> nat" where
  "sessionCount c = length (cl_sessions c)"

definition sessionHealthCheck_tick :: "client \<Rightarrow> client" where
  "sessionHealthCheck_tick c =
     c\<lparr>cl_sessions := fst (keep_alive (\<lambda>x. cs_closed (cl_heap c x)) (cl_sessions c) [] 0)\<rparr>"

interpretation cl_pool: session_pool cl_sessions "\<lambda>c x. cs_closed (cl_heap c x)" cl_addSession
    cl_removeSession sessionHealthCheck_tick
  by unfold_locales
    (auto simp: cl_addSession_def cl_removeSession_def sessionHealthCheck_tick_def remove_session_eq keep_alive_eq)

section \<open>OpenStream\<close>

definition cl_smux_OpenStream :: "nat \<Rightarrow> client \<Rightarrow> (gerror + conn) \<times> client" where
  "cl_smux_OpenStream x c =
     (case cs_opens (cl_heap c x) of
       [] \<Rightarrow> (Inl (Errorf ''io: read/write on closed pipe''), c)
     | r # rs \<Rightarrow> (r, upd_clientSession x (\<lambda>s. s\<lparr>cs_opens := rs\<rparr>) c))"

text \<open>The loop over a copy of the pool; a session that fails to open leaves the pool.\<close>

fun open_loop :: "nat list \<Rightarrow> int \<Rightarrow> string \<Rightarrow> nat list \<Rightarrow> client \<Rightarrow> ((gerror + conn) \<times> client) outcome" where
  "open_loop sessions idx target [] c =
     Return (Inl (ErrorfInt ''all sessions dead'' (int (length sessions))), c)"
| "open_loop sessions idx target (i # is) c =
     (let k = go_rem (i64 (idx + int i)) (int (length sessions))
      in if k < 0 then Panic IndexRange
         else
           let pick = sessions ! nat k
           in if cs_closed (cl_heap c pick) then open_loop sessions idx target is c
              else case cl_smux_OpenStream pick c of
                  (Inr stream, c) \<Rightarrow> Return (Inr (forward_header stream target), c)
                | (Inl _, c) \<Rightarrow> open_loop sessions idx target is (cl_removeSession pick c))"

definition OpenStream :: "client \<Rightarrow> string \<Rightarrow> ((gerror + conn) \<times> client) outcome" where
  "OpenStream c target =
     (let sessions = cl_sessions c
      in if sessions = [] then Return (Inl (Errorf ''no active session''), c)
         else
           let c = c\<lparr>cl_rrIndex := cl_rrIndex c + 1\<rparr>
           in open_loop sessions (sint (cl_rrIndex c)) target [0..<length sessions] c)"

section \<open>Addresses\<close>

definition parseAddr :: "string \<Rightarrow> string \<Rightarrow> string \<times> string" where
  "parseAddr addr transport =
     (let addr = TrimPrefix addr ''http://''; addr = TrimPrefix addr ''https://'';
          addr = TrimPrefix addr ''ws://''; addr = TrimPrefix addr ''wss://'';
          addr = (case strIndex addr ''/'' of Some idx \<Rightarrow> take idx addr | None \<Rightarrow> addr)
      in case SplitHostPort addr of
           Inr (h, p) \<Rightarrow> (h, p)
         | Inl _ \<Rightarrow> (addr, if transport = ''httpsmux'' \<or> transport = ''wssmux'' then ''443'' else ''80''))"

definition fragmentCfg :: "Config \<Rightarrow> FragmentConfig option" where
  "fragmentCfg cfg =
     (if fr_Enabled (Fragment cfg) then Some (Fragment cfg)
      else
        let transport = ToLower (Transport cfg)
        in if transport = ''httpsmux'' \<or> transport = ''wssmux'' then Some DefaultFragmentConfig else None)"

section \<open>Dialling\<close>

text \<open>
  The world outside: the system calls and the platform's \<open>dialRawTCP\<close>, the libraries, the TLS
  handshake for a server name and fingerprint over a connection (giving its stream of application
  data), and smux's \<open>Client\<close>: an error, or the streams the session will accept until it ends with
  an error.
\<close>

record 'b clientenv =
  ce_os :: osnet
  ce_raw :: "osnet \<Rightarrow> string \<Rightarrow> int \<Rightarrow> (gerror + conn) \<times> syscall list"
  ce_http :: httplib
  ce_crypto :: "'b cryptolib"
  ce_tls :: "string \<Rightarrow> string \<Rightarrow> netconn \<Rightarrow> gerror + conn"
  ce_smuxDefault :: smuxcfg
  ce_smux :: "encConn \<Rightarrow> smuxcfg \<Rightarrow> gerror + conn list \<times> gerror"
  ce_dial :: dialer

definition client_setTCPOptions :: "AdvancedConfig \<Rightarrow> netconn \<Rightarrow> netconn" where
  "client_setTCPOptions adv conn =
     (case conn of
       TCPConn tc \<Rightarrow> TCPConn (tc\<lparr>so_keepalive := True, so_period := i64 (adv_TCPKeepAlive adv * second),
         so_nodelay := adv_TCPNoDelay adv, so_rbuf := Some (adv_TCPReadBuffer adv),
         so_wbuf := Some (adv_TCPWriteBuffer adv)\<rparr>)
     | _ \<Rightarrow> conn)"

definition tls_hellos :: "string list" where
  "tls_hellos = [''HelloChrome_120'', ''HelloFirefox_120'', ''HelloEdge_Auto'', ''HelloSafari_Auto'']"

definition randomTLSHello :: "world \<Rightarrow> string \<times> world" where
  "randomTLSHello w = (case secureRandInt (int (length tls_hellos)) w of (r, w) \<Rightarrow> (tls_hellos ! nat r, w))"

definition tls_sni :: "MimicConfig \<Rightarrow> string \<Rightarrow> string" where
  "tls_sni m addr =
     (if mi_FakeDomain m = [] then (case SplitHostPort addr of Inr (h, _) \<Rightarrow> h | Inl _ \<Rightarrow> [])
      else mi_FakeDomain m)"

definition dialFragmentedTLS ::
    "'b clientenv \<Rightarrow> Config \<Rightarrow> string \<Rightarrow> int \<Rightarrow> world \<Rightarrow> (gerror + netconn) \<times> syscall list \<times> world" where
  "dialFragmentedTLS env cfg addr timeout w =
     (case DialFragmented (ce_raw env) (ce_os env) addr (fragmentCfg cfg) timeout w of
       (Inl e, tr, w) \<Rightarrow> (Inl e, tr, w)
     | (Inr rawConn, tr, w) \<Rightarrow>
         let sni = tls_sni (Mimic cfg) addr
         in case randomTLSHello w of (helloID, w) \<Rightarrow>
              (case ce_tls env sni helloID rawConn of
                Inl e \<Rightarrow> (Inl (Wrap ''tls'' e), tr, w)
              | Inr app \<Rightarrow> (Inr (UConn sni app), tr, w)))"

definition dial_transport ::
    "'b clientenv \<Rightarrow> Config \<Rightarrow> string \<Rightarrow> string \<Rightarrow> int \<Rightarrow> world \<Rightarrow> (gerror + netconn) \<times> syscall list \<times> world" where
  "dial_transport env cfg transport dialAddr dialTimeout w =
     (if transport = ''httpsmux'' \<or> transport = ''wssmux'' then dialFragmentedTLS env cfg dialAddr dialTimeout w
      else if transport = ''httpmux'' \<or> transport = ''wsmux''
      then DialFragmented (ce_raw env) (ce_os env) dialAddr (fragmentCfg cfg) dialTimeout w
      else (case dialTCP (ce_os env) dialAddr of
          Inl e \<Rightarrow> (Inl e, [], w) | Inr c \<Rightarrow> (Inr (TCPConn (new_sock c)), [], w)))"

end
