(* ===== verification/ClientLoop.thy ===== *)
theory ClientLoop
  imports Client MimicProps
begin

text \<open>
  client.go: \<open>connectAndServe\<close>, one connection from dialling to the end of its session, and
  \<open>poolWorker\<close>, the endless loop of a worker around it as a step on its three counters: an attempt
  with its error and duration in, the pause before the next attempt and the next path out.
\<close>

section \<open>connectAndServe\<close>

definition path_transport :: "Config \<Rightarrow> PathConfig \<Rightarrow> string" where
  "path_transport cfg path =
     (let transport = ToLower (TrimSpace (pa_Transport path))
      in if transport = [] then Transport cfg else transport)"

text \<open>The random delay before a connection, and everything up to the dialled connection.\<close>

definition conn_jitter :: "Config \<Rightarrow> world \<Rightarrow> world" where
  "conn_jitter cfg w =
     (if st_ConnJitterMS (Stealth cfg) > 0
      then case secureRandInt (st_ConnJitterMS (Stealth cfg)) w of
          (jitter, w) \<Rightarrow> sleep (i64 (jitter * millisecond)) w
      else w)"

definition dial_path ::
    "'b clientenv \<Rightarrow> Config \<Rightarrow> PathConfig \<Rightarrow> world \<Rightarrow> (gerror + netconn) \<times> syscall list \<times> world" where
  "dial_path env cfg path w =
     (let transport = path_transport cfg path;
          dialTimeout = i64 (pa_DialTimeout path * second);
          dialTimeout = (if dialTimeout \<le> 0 then 10 * second else dialTimeout)
      in case parseAddr (TrimSpace (pa_Addr path)) transport of (host, port) \<Rightarrow>
           dial_transport env cfg transport (JoinHostPort host port) dialTimeout (conn_jitter cfg w))"

text \<open>
  From the upgraded connection to the end of the session. \<open>sid\<close> is the identity of the session, were
  one to come up; the streams it accepts are handled each, and it ends with the error of
  \<open>AcceptStream\<close>, after which it leaves the pool and is closed.
\<close>

definition serve_session ::
    "'b clientenv \<Rightarrow> nat \<Rightarrow> client \<Rightarrow> bufferedConn \<Rightarrow> world \<Rightarrow> gerror option \<times> action list list \<times> client \<times> world" where
  "serve_session env sid c b w =
     (let cfg = cl_cfg c
      in case NewEncryptedConn (ce_crypto env) (bc_flat b) (PSK cfg) (Some (Obfs cfg)) [Some (Stealth cfg)] of
           Inl e \<Rightarrow> (Some (Wrap ''encrypt'' e), [], c, w)
         | Inr ec \<Rightarrow>
             (case buildSmuxConfig (ce_smuxDefault env) cfg w of (sc, w) \<Rightarrow>
               case ce_smux env ec sc of
                 Inl e \<Rightarrow> (Some (Wrap ''smux'' e), [], c, w)
               | Inr (streams, e) \<Rightarrow>
                   let c = cl_addSession sid c;
                       acts = map (handleReverseStream (ce_dial env)) streams
                   in (Some (Wrap ''session closed'' e), acts, cl_closeSess sid (cl_removeSession sid c), w)))"

text \<open>A failed handshake leaves \<open>conn\<close> nil, and \<open>conn.Close()\<close> panics.\<close>

definition connectAndServe ::
    "'b clientenv \<Rightarrow> nat \<Rightarrow> client \<Rightarrow> PathConfig \<Rightarrow> world \<Rightarrow>
     (gerror option \<times> action list list \<times> client \<times> world) outcome" where
  "connectAndServe env sid c path w =
     (let cfg = cl_cfg c
      in if TrimSpace (pa_Addr path) = [] then Return (Some (Errorf ''empty address''), [], c, w)
         else case dial_path env cfg path w of
             (Inl e, _, w) \<Rightarrow> Return (Some (Wrap ''dial'' e), [], c, w)
           | (Inr conn, _, w) \<Rightarrow>
               (case ClientHandshake (ce_http env) (client_setTCPOptions (Advanced cfg) conn)
                   (Some (Mimic cfg)) w of
                 Panic p \<Rightarrow> Panic p
               | Return (Inl e, w) \<Rightarrow> Panic NilDeref
               | Return (Inr b, w) \<Rightarrow> Return (serve_session env sid c b w)))"

section \<open>poolWorker\<close>

record worker =
  wk_pathIdx :: nat
  wk_failCount :: int
  wk_consecutive :: int

definition new_worker :: worker where
  "new_worker = \<lparr>wk_pathIdx = 0, wk_failCount = 0, wk_consecutive = 0\<rparr>"

definition maxFailsBeforeSwitch :: int where
  "maxFailsBeforeSwitch = 3"

definition retry_interval :: "PathConfig \<Rightarrow> int" where
  "retry_interval path =
     (let r = i64 (pa_RetryInterval path * second) in if r \<le> 0 then 3 * second else r)"

text \<open>A failed attempt is quick when it took less than thirty seconds.\<close>

definition after_failure :: "int \<Rightarrow> worker \<Rightarrow> worker" where
  "after_failure connDuration k =
     (if connDuration < 30 * second then k\<lparr>wk_failCount := wk_failCount k + 1, wk_consecutive := 0\<rparr>
      else k\<lparr>wk_failCount := 0, wk_consecutive := wk_consecutive k + 1\<rparr>)"

definition jittered_sleep :: "int \<Rightarrow> int \<Rightarrow> world \<Rightarrow> world" where
  "jittered_sleep retryInterval n w =
     (case secureRandInt n w of (r, w) \<Rightarrow> sleep (i64 (retryInterval + r * millisecond)) w)"

definition poolWorker_step ::
    "PathConfig list \<Rightarrow> gerror option \<times> int \<Rightarrow> worker \<times> world \<Rightarrow> (worker \<times> world) outcome" where
  "poolWorker_step paths attempt kw =
     (case (attempt, kw) of ((err, connDuration), (k, w)) \<Rightarrow>
        if wk_pathIdx k \<ge> length paths then Panic IndexRange
        else
          let retryInterval = retry_interval (paths ! wk_pathIdx k)
          in if err \<noteq> None then
               let k = after_failure connDuration k
               in if wk_failCount k \<ge> maxFailsBeforeSwitch \<and> length paths > 1 then
                    let k = k\<lparr>wk_pathIdx := (wk_pathIdx k + 1) mod length paths, wk_failCount := 0\<rparr>
                    in if wk_pathIdx k = 0 then Return (k, sleep (10 * second) w)
                       else Return (k, jittered_sleep retryInterval 500 w)
                  else if wk_failCount k > 0 then
                    let backoff = i64 (retryInterval * wk_failCount k);
                        backoff = (if backoff > 15 * second then 15 * second else backoff)
                    in Return (k, sleep backoff w)
                  else Return (k, jittered_sleep retryInterval 500 w)
             else
               Return (k\<lparr>wk_failCount := 0, wk_consecutive := wk_consecutive k + 1\<rparr>,
                 jittered_sleep retryInterval 1000 w))"

fun poolWorker :: "PathConfig list \<Rightarrow> (gerror option \<times> int) list \<Rightarrow> worker \<times> world \<Rightarrow> (worker \<times> world) outcome" where
  "poolWorker paths [] kw = Return kw"
| "poolWorker paths (a # as) kw = obind (poolWorker_step paths a kw) (poolWorker paths as)"

end
