(* ===== verification/ClientProps.thy ===== *)
theory ClientProps
  imports ClientLoop ConfigProps Psk
begin

text \<open>
  The properties of the client: the worker's counters and pauses over any sequence of attempts, the
  order in which it tries its paths, what \<open>connectAndServe\<close> can return, and the choice of a session
  by \<open>OpenStream\<close>.
\<close>

section \<open>The worker\<close>

definition worker_ok :: "PathConfig list \<Rightarrow> nat \<Rightarrow> worker \<Rightarrow> bool" where
  "worker_ok paths n k \<longleftrightarrow> wk_pathIdx k < length paths \<and> 0 \<le> wk_failCount k \<and> wk_failCount k \<le> int n \<and>
     (1 < length paths \<longrightarrow> wk_failCount k < maxFailsBeforeSwitch)"

definition retry_small :: "int \<Rightarrow> PathConfig list \<Rightarrow> bool" where
  "retry_small M paths \<longleftrightarrow> 3 \<le> M \<and> M \<le> 1000000 \<and> (\<forall>p \<in> set paths. pa_RetryInterval p \<le> M \<and> 0 \<le> pa_RetryInterval p)"

definition pause_ok :: "int \<Rightarrow> int \<Rightarrow> bool" where
  "pause_ok M s \<longleftrightarrow> 0 < s \<and> s \<le> max (15 * second) (M * second + 1000 * millisecond)"

lemma retry_interval_bounds:
  assumes "retry_small M paths" and "p \<in> set paths"
  shows "0 < retry_interval p" and "retry_interval p \<le> M * second"
proof -
  have r: "0 \<le> pa_RetryInterval p" "pa_RetryInterval p \<le> M" "3 \<le> M" "M \<le> 1000000"
    using assms by (auto simp: retry_small_def)
  then have "i64 (pa_RetryInterval p * second) = pa_RetryInterval p * second"
    by (intro i64_small) (simp_all add: second_def)
  with r show "0 < retry_interval p" "retry_interval p \<le> M * second"
    by (auto simp: retry_interval_def Let_def second_def)
qed

lemma jittered_sleep_pause:
  assumes "0 < r" and "r \<le> M * second" and "M \<le> 1000000" and "0 < n" "n \<le> 1000"
  shows "\<exists>s. w_sleeps (jittered_sleep r n w) = w_sleeps w @ [s] \<and> pause_ok M s"
proof -
  obtain d w1 where d: "secureRandInt n w = (d, w1)" by (metis prod.collapse)
  have b: "0 \<le> d" "d < n" using secureRandInt_nonneg [OF d] secureRandInt_less [OF d assms(4)] by simp_all
  have i: "i64 (r + d * millisecond) = r + d * millisecond"
    using assms b by (intro i64_small) (simp_all add: second_def millisecond_def)
  have "d * millisecond \<le> 1000 * millisecond" using b assms(5) by (simp add: millisecond_def)
  with b assms(1,2) have "pause_ok M (r + d * millisecond)"
    unfolding pause_ok_def by (auto simp: millisecond_def)
  with d i show ?thesis by (simp add: jittered_sleep_def sleep_def secureRandInt_sleeps [OF d])
qed

lemma poolWorker_step_ok:
  assumes "worker_ok paths n k" and "retry_small M paths" and "n < 9000"
  shows "\<exists>k' w'. poolWorker_step paths a (k, w) = Return (k', w') \<and> worker_ok paths (Suc n) k' \<and>
    (\<exists>s. w_sleeps w' = w_sleeps w @ [s] \<and> pause_ok M s)"
proof -
  obtain err dur where a: "a = (err, dur)" by (metis prod.collapse)
  let ?r = "retry_interval (paths ! wk_pathIdx k)" and ?k = "after_failure dur k"
  have idx: "wk_pathIdx k < length paths" using assms(1) by (simp add: worker_ok_def)
  then have r: "0 < ?r" "?r \<le> M * second" and M: "3 \<le> M" "M \<le> 1000000"
    using retry_interval_bounds [OF assms(2)] assms(2) by (simp_all add: retry_small_def)
  note j = jittered_sleep_pause [OF r M(2)]
  have kk: "wk_pathIdx ?k = wk_pathIdx k" "0 \<le> wk_failCount ?k" "wk_failCount ?k \<le> int (Suc n)"
    using assms(1) by (auto simp: after_failure_def worker_ok_def)
  show ?thesis
  proof (cases "err = None")
    case True
    with idx j [of 1000 w] a assms(1) show ?thesis
      by (auto simp: poolWorker_step_def worker_ok_def maxFailsBeforeSwitch_def)
  next
    case err: False
    consider (switch) "maxFailsBeforeSwitch \<le> wk_failCount ?k" "1 < length paths"
      | (backoff) "\<not> (maxFailsBeforeSwitch \<le> wk_failCount ?k \<and> 1 < length paths)" "0 < wk_failCount ?k"
      | (again) "\<not> (maxFailsBeforeSwitch \<le> wk_failCount ?k \<and> 1 < length paths)" "wk_failCount ?k \<le> 0"
      by linarith
    then show ?thesis
    proof cases
      case switch
      have p: "pause_ok M (10 * second)" by (simp add: pause_ok_def second_def)
      have l: "(wk_pathIdx k + 1) mod length paths < length paths" using idx by (intro mod_less_divisor) linarith
      show ?thesis
      proof (cases "(wk_pathIdx k + 1) mod length paths = 0")
        case True
        with err switch idx a kk p l show ?thesis
          by (auto simp: poolWorker_step_def Let_def worker_ok_def maxFailsBeforeSwitch_def sleep_def)
      next
        case False
        with err switch idx a kk j [of 500 w] l show ?thesis
          by (auto simp: poolWorker_step_def Let_def worker_ok_def maxFailsBeforeSwitch_def)
      qed
    next
      case backoff
      have "wk_failCount ?k \<le> 9000" using kk assms(3) by simp
      then have "?r * wk_failCount ?k \<le> 1000000 * second * 9000"
        using r M kk by (intro mult_mono) (simp_all add: second_def)
      moreover have pos: "0 < ?r * wk_failCount ?k" using r backoff by simp
      ultimately have i: "i64 (?r * wk_failCount ?k) = ?r * wk_failCount ?k"
        by (intro i64_small) (simp_all add: second_def)
      have "pause_ok M (if 15 * second < ?r * wk_failCount ?k then 15 * second else ?r * wk_failCount ?k)"
        using pos by (auto simp: pause_ok_def second_def)
      with err backoff idx a kk i show ?thesis
        by (auto simp: poolWorker_step_def Let_def worker_ok_def sleep_def)
    next
      case again
      with err idx a kk j [of 500 w] show ?thesis
        by (auto simp: poolWorker_step_def Let_def worker_ok_def)
    qed
  qed
qed

lemma poolWorker_ok:
  assumes "worker_ok paths n k" and "retry_small M paths" and "n + length as \<le> 9000"
  shows "\<exists>k' w' ss. poolWorker paths as (k, w) = Return (k', w') \<and> worker_ok paths (n + length as) k' \<and>
    w_sleeps w' = w_sleeps w @ ss \<and> length ss = length as \<and> list_all (pause_ok M) ss"
  using assms
proof (induction as arbitrary: k n w)
  case Nil
  then show ?case by simp
next
  case (Cons a as)
  have "n < 9000" using Cons.prems(3) by simp
  from poolWorker_step_ok [OF Cons.prems(1,2) this, of a w] obtain k1 w1 s where
    1: "poolWorker_step paths a (k, w) = Return (k1, w1)" "worker_ok paths (Suc n) k1"
      "w_sleeps w1 = w_sleeps w @ [s]" "pause_ok M s" by blast
  have "Suc n + length as \<le> 9000" using Cons.prems(3) by simp
  from Cons.IH [OF 1(2) Cons.prems(2) this, of w1] 1 show ?case by force
qed

text \<open>
  C22. Whatever happens to its attempts (up to 9000 of them), a worker never indexes its paths out of
  range, with several paths it never counts three failures, and after each attempt it pauses exactly
  once, for more than nothing and at most fifteen seconds or its retry interval and a second.
\<close>

theorem worker_paces_and_stays_in_range:
  assumes "paths \<noteq> []" and "retry_small M paths" and "length as \<le> 9000"
  shows "\<exists>k w' ss. poolWorker paths as (new_worker, w) = Return (k, w') \<and> wk_pathIdx k < length paths \<and>
    0 \<le> wk_failCount k \<and> (1 < length paths \<longrightarrow> wk_failCount k < maxFailsBeforeSwitch) \<and>
    w_sleeps w' = w_sleeps w @ ss \<and> length ss = length as \<and>
    (\<forall>s \<in> set ss. 0 < s \<and> s \<le> max (15 * second) (M * second + 1000 * millisecond))"
proof -
  have "worker_ok paths 0 new_worker"
    using assms(1) by (simp add: worker_ok_def new_worker_def maxFailsBeforeSwitch_def)
  from poolWorker_ok [OF this assms(2), of as w] assms(3) show ?thesis
    by (auto simp: worker_ok_def list_all_iff pause_ok_def)
qed

definition demo_path :: "string \<Rightarrow> PathConfig" where
  "demo_path a = \<lparr>pa_Transport = ''tcpmux'', pa_Addr = a, pa_ConnectionPool = 1, pa_AggressivePool = False,
     pa_RetryInterval = 2, pa_DialTimeout = 5\<rparr>"

theorem worker_paces_and_stays_in_range_witness:
  "\<exists>k w'. poolWorker [demo_path ''a:1'', demo_path ''b:1''] [(Some EOF, 0), (None, 5), (Some EOF, 40000000000)]
     (new_worker, \<lparr>w_entropy = [], w_sleeps = []\<rparr>) = Return (k, w') \<and> wk_failCount k < 3 \<and> length (w_sleeps w') = 3"
proof -
  have "retry_small 3 [demo_path ''a:1'', demo_path ''b:1'']" by (simp add: retry_small_def demo_path_def)
  from worker_paces_and_stays_in_range [OF _ this, of "[(Some EOF, 0), (None, 5), (Some EOF, 40000000000)]"
      "\<lparr>w_entropy = [], w_sleeps = []\<rparr>"]
  show ?thesis by (auto simp: maxFailsBeforeSwitch_def)
qed

lemma three_quick_failures:
  assumes "1 < length paths" and "i < length paths" and "e1 \<noteq> None" "e2 \<noteq> None" "e3 \<noteq> None"
    and "d1 < 30 * second" "d2 < 30 * second" "d3 < 30 * second"
  shows "\<exists>c' w'. poolWorker paths [(e1, d1), (e2, d2), (e3, d3)] (\<lparr>wk_pathIdx = i, wk_failCount = 0, wk_consecutive = c\<rparr>, w) =
    Return (\<lparr>wk_pathIdx = (i + 1) mod length paths, wk_failCount = 0, wk_consecutive = c'\<rparr>, w')"
proof -
  let ?s = "poolWorker_step paths"
  obtain w1 where 1: "?s (e1, d1) (\<lparr>wk_pathIdx = i, wk_failCount = 0, wk_consecutive = c\<rparr>, w) =
      Return (\<lparr>wk_pathIdx = i, wk_failCount = 1, wk_consecutive = 0\<rparr>, w1)"
    using assms by (simp add: poolWorker_step_def after_failure_def maxFailsBeforeSwitch_def Let_def)
  obtain w2 where 2: "?s (e2, d2) (\<lparr>wk_pathIdx = i, wk_failCount = 1, wk_consecutive = 0\<rparr>, w1) =
      Return (\<lparr>wk_pathIdx = i, wk_failCount = 2, wk_consecutive = 0\<rparr>, w2)"
    using assms by (simp add: poolWorker_step_def after_failure_def maxFailsBeforeSwitch_def Let_def)
  have "\<exists>w3. ?s (e3, d3) (\<lparr>wk_pathIdx = i, wk_failCount = 2, wk_consecutive = 0\<rparr>, w2) =
      Return (\<lparr>wk_pathIdx = (i + 1) mod length paths, wk_failCount = 0, wk_consecutive = 0\<rparr>, w3)"
    using assms by (cases "(i + 1) mod length paths = 0") (simp_all add: poolWorker_step_def after_failure_def maxFailsBeforeSwitch_def Let_def)
  with 1 2 show ?thesis by auto
qed

lemma poolWorker_append:
  "poolWorker paths (as @ bs) kw = obind (poolWorker paths as kw) (poolWorker paths bs)"
proof (induction as arbitrary: kw)
  case (Cons a as)
  then show ?case by (cases "poolWorker_step paths a kw") simp_all
qed simp

text \<open>
  C23. When all attempts fail quickly, a worker with several paths moves on after exactly three of
  them, in the configured order and around: after \<open>3 k\<close> attempts it is at path \<open>k\<close> modulo their
  number, with no failure counted, so no path is ever left out.
\<close>

theorem worker_cycles_paths:
  assumes "1 < length paths" and "length as = 3 * n"
    and "\<forall>(e, d) \<in> set as. e \<noteq> None \<and> d < 30 * second"
  shows "\<exists>k w'. poolWorker paths as (new_worker, w) = Return (k, w') \<and>
    wk_pathIdx k = n mod length paths \<and> wk_failCount k = 0"
proof -
  have "\<exists>c' w'. poolWorker paths as (\<lparr>wk_pathIdx = 0, wk_failCount = 0, wk_consecutive = 0\<rparr>, w) =
      Return (\<lparr>wk_pathIdx = n mod length paths, wk_failCount = 0, wk_consecutive = c'\<rparr>, w')"
    using assms(2,3)
  proof (induction n arbitrary: as)
    case 0
    then show ?case by simp
  next
    case (Suc n)
    define bs where "bs = take (3 * n) as"
    define cs where "cs = drop (3 * n) as"
    have as: "as = bs @ cs" and l: "length bs = 3 * n" "length cs = 3"
      using Suc.prems(1) by (simp_all add: bs_def cs_def)
    then obtain e1 d1 e2 d2 e3 d3 where cs: "cs = [(e1, d1), (e2, d2), (e3, d3)]"
      by (auto simp: length_Suc_conv eval_nat_numeral)
    have q: "\<forall>(e, d) \<in> set bs. e \<noteq> None \<and> d < 30 * second" using Suc.prems(2) as by auto
    obtain c w1 where b: "poolWorker paths bs (\<lparr>wk_pathIdx = 0, wk_failCount = 0, wk_consecutive = 0\<rparr>, w) =
        Return (\<lparr>wk_pathIdx = n mod length paths, wk_failCount = 0, wk_consecutive = c\<rparr>, w1)"
      using Suc.IH [OF l(1) q] by blast
    have i: "n mod length paths < length paths" using assms(1) by (intro mod_less_divisor) linarith
    have "\<exists>c' w'. poolWorker paths cs (\<lparr>wk_pathIdx = n mod length paths, wk_failCount = 0, wk_consecutive = c\<rparr>, w1) =
        Return (\<lparr>wk_pathIdx = (n mod length paths + 1) mod length paths, wk_failCount = 0, wk_consecutive = c'\<rparr>, w')"
      unfolding cs using Suc.prems(2) as cs by (intro three_quick_failures [OF assms(1) i]) auto
    moreover have "(n mod length paths + 1) mod length paths = Suc n mod length paths"
      by (simp add: mod_Suc_eq)
    ultimately show ?case using b as by (auto simp: poolWorker_append)
  qed
  then show ?thesis by (auto simp: new_worker_def)
qed

theorem worker_cycles_paths_witness:
  "\<exists>k w'. poolWorker [demo_path ''a:1'', demo_path ''b:1''] (replicate 9 (Some EOF, 7))
     (new_worker, \<lparr>w_entropy = [], w_sleeps = []\<rparr>) = Return (k, w') \<and> wk_pathIdx k = 3 mod 2"
  using worker_cycles_paths [of "[demo_path ''a:1'', demo_path ''b:1'']" "replicate 9 (Some EOF, 7)" 3
      "\<lparr>w_entropy = [], w_sleeps = []\<rparr>"]
  by (auto simp: second_def numeral_2_eq_2)

section \<open>One connection\<close>



text \<open>A world for the witnesses: every dial gives a connection on which the given bytes arrive.\<close>

definition demo_env :: "bytes \<Rightarrow> bytes clientenv" where
  "demo_env bs = \<lparr>ce_os = (demo_os None (Inr 0) (Inl EOF))\<lparr>dialTCP := (\<lambda>_. Inr (new_conn bs))\<rparr>,
     ce_raw = dialRawTCP_other, ce_http = demo_http, ce_crypto = demo_lib,
     ce_tls = (\<lambda>_ _ c. Inr (nc_conn c)),
     ce_smuxDefault = \<lparr>sc_Version = 1, sc_KeepAliveInterval = 0, sc_KeepAliveTimeout = 0,
       sc_MaxFrameSize = 0, sc_MaxReceiveBuffer = 0, sc_MaxStreamBuffer = 0\<rparr>,
     ce_smux = (\<lambda>_ _. Inr ([], EOF)), ce_dial = (\<lambda>_ _. Inl EOF)\<rparr>"

definition demo_client :: client where
  "demo_client = NewClient zero_config"

lemma demo_client_sel [simp]: "cl_cfg demo_client = zero_config" "cl_sessions demo_client = []"
  by (simp_all add: demo_client_def NewClient_def Let_def)

lemma demo_dial:
  "dial_path (demo_env bs) zero_config (demo_path ''h:80'') w = (Inr (TCPConn (new_sock (new_conn bs))), [], w)"
  "dial_path (demo_env bs) (zero_config\<lparr>PSK := k\<rparr>) (demo_path ''h:80'') w =
     (Inr (TCPConn (new_sock (new_conn bs))), [], w)"
proof -
  have t: "TrimSpace ''tcpmux'' = ''tcpmux''" "ToLower ''tcpmux'' = ''tcpmux''"
    by (simp_all add: TrimSpace_def is_space_def ToLower_def lower_def)
  show "dial_path (demo_env bs) zero_config (demo_path ''h:80'') w =
      (Inr (TCPConn (new_sock (new_conn bs))), [], w)"
    "dial_path (demo_env bs) (zero_config\<lparr>PSK := k\<rparr>) (demo_path ''h:80'') w =
      (Inr (TCPConn (new_sock (new_conn bs))), [], w)"
    by (simp_all add: dial_path_def demo_env_def zero_config_def conn_jitter_def dial_transport_def
        path_transport_def demo_path_def t Let_def split: prod.split)
qed

lemma demo_path_addr: "TrimSpace (pa_Addr (demo_path ''h:80'')) \<noteq> []"
  by (simp add: demo_path_def TrimSpace_def is_space_def)

lemma setTCPOptions_conn [simp]:
  "nc_conn (client_setTCPOptions a nc) = nc_conn nc" "nc_ok (client_setTCPOptions a nc) = nc_ok nc"
  by (cases nc; simp add: client_setTCPOptions_def nc_ok_def)+

lemma demo_upgrade_ready:
  "\<exists>req. upgrade_ready demo_http (client_setTCPOptions a (TCPConn (new_sock (new_conn bs))))
     (Some (Mimic zero_config)) w req"
proof -
  have "\<exists>req. fst (client_request demo_http (Some (Mimic zero_config)) w) = Inr req"
    by (auto simp: client_request_def NewRequest_def demo_http_def Let_def split: prod.split)
  then show ?thesis
    by (simp add: upgrade_ready_def client_setTCPOptions_def new_sock_def new_conn_def nc_ok_def write_ok_def)
qed

text \<open>
  C21. Once a connection is dialled and the request can be sent, the answer decides: after a status
  of 101 or 200 a session is served over exactly the bytes that follow the head of the response;
  after any other one, such as the 404 of the server's decoy page, the client panics on a nil
  connection.
\<close>

theorem connect_after_response:
  assumes "TrimSpace (pa_Addr path) \<noteq> []" and "dial_path env (cl_cfg c) path w = (Inr nc, tr, w1)"
    and "upgrade_ready (ce_http env) (client_setTCPOptions (Advanced (cl_cfg c)) nc) (Some (Mimic (cl_cfg c))) w1 req"
    and "response_head (ce_http env) l hs code" and "rx (nc_conn nc) = l @ [CR, LF] @ crlf hs @ rest"
  shows "if code = 101 \<or> code = 200
    then \<exists>b w2. bc_left b = rest \<and> connectAndServe env sid c path w = Return (serve_session env sid c b w2)
    else connectAndServe env sid c path w = Panic NilDeref"
proof -
  from handshake_response [OF assms(3,4), of rest] assms(5) obtain b w2 where
    "ClientHandshake (ce_http env) (client_setTCPOptions (Advanced (cl_cfg c)) nc) (Some (Mimic (cl_cfg c))) w1 =
      Return (if code = 101 \<or> code = 200 then Inr b
        else Inl (ErrorfInt ''handshake: expected 101, got'' code), w2)" "bc_left b = rest" by auto
  with assms(1,2) show ?thesis by (auto simp: connectAndServe_def Let_def)
qed

definition status_404 :: string where
  "status_404 = ''HTTP/1.1 404 Not Found''"

lemma parseStatus_404: "parseStatus status_404 = Inr 404"
proof -
  have s: "status_404 = ''HTTP/1.1'' @ CHR '' '' # ''404 Not Found''"
    by (simp add: status_404_def)
  have c: "Cut (''404'' @ CHR '' '' # ''Not Found'') (CHR '' '') = (''404'', ''Not Found'', True)"
    by (rule Cut_first) simp
  have "Cut status_404 (CHR '' '') = (''HTTP/1.1'', ''404 Not Found'', True)"
    unfolding s by (rule Cut_first) simp
  then show ?thesis
    using c by (simp add: parseStatus_def Atoi_def atoi_digits_def is_digit_def ParseHTTPVersion_def
        HasPrefix_def eval_nat_numeral)
qed

theorem connect_after_response_witness:
  "connectAndServe (demo_env (bytes_of status_404 @ [CR, LF, CR, LF])) 5 demo_client (demo_path ''h:80'')
     (demo_world 30) = Panic NilDeref"
proof -
  let ?env = "demo_env (bytes_of status_404 @ [CR, LF, CR, LF])"
  let ?nc = "TCPConn (new_sock (new_conn (bytes_of status_404 @ [CR, LF, CR, LF])))"
  have d: "dial_path ?env (cl_cfg demo_client) (demo_path ''h:80'') (demo_world 30) = (Inr ?nc, [], demo_world 30)"
    by (simp add: demo_dial)
  have h: "ce_http ?env = demo_http" by (simp add: demo_env_def)
  obtain req where u: "upgrade_ready (ce_http ?env) (client_setTCPOptions (Advanced (cl_cfg demo_client)) ?nc)
      (Some (Mimic (cl_cfg demo_client))) (demo_world 30) req"
    unfolding h demo_client_sel using demo_upgrade_ready by blast
  have "LF \<notin> set (bytes_of status_404)" by (simp add: bytes_of_no_LF status_404_def)
  then have r: "response_head (ce_http ?env) (bytes_of status_404) [] 404"
    by (simp add: response_head_def parseStatus_404 h)
  have "rx (nc_conn ?nc) = bytes_of status_404 @ [CR, LF] @ crlf [] @ []"
    by (simp add: new_sock_def new_conn_def crlf_def)
  from connect_after_response [OF demo_path_addr d u r this] show ?thesis by simp
qed


end
