(* ===== verification/Session.thy ===== *)
theory Session
  imports TunnelProps ClientProps
begin

text \<open>
  Both ends of a tunnel together: the connection \<open>handleTunnel\<close> gives to smux on the server and the
  one \<open>connectAndServe\<close> gives to smux on the client carry each other's bytes, through the upgrade,
  the padding and the encryption.
\<close>

section \<open>Writing and reading past what is already on the wire\<close>

lemma write_all_delivers:
  "enc_good c \<Longrightarrow> list_all (write_fits c) ds \<Longrightarrow> write_all ec_Write c ds w = Return (None, c', w') \<Longrightarrow>
   delivers c c' (concat ds)"
proof (induction ds arbitrary: c w)
  case Nil
  then show ?case by (simp add: delivers_refl)
next
  case (Cons d ds)
  obtain n e c1 w1 where p: "ec_Write c d w = Return ((n, e), c1, w1)" "e = None \<longrightarrow> delivers c c1 d"
    using ec_Write_delivers [of c d w] Cons.prems by auto
  with Cons.prems(3) have e: "e = None" "write_all ec_Write c1 ds w1 = Return (None, c', w')"
    by (cases e; simp)+
  with p have d: "delivers c c1 d" by simp
  have "delivers c1 c' (concat ds)"
    using Cons.IH [OF _ _ e(2)] Cons.prems(1,2) delivers_cong(1) [OF d] write_fits_cong [OF d] by simp
  from delivers_trans [OF d this] show ?case by simp
qed

lemma read_delivered:
  assumes "delivers a a' d" and "same_settings r a" and "ec_readBuf r = []"
    and "rx (ec_conn r) = drop (length (tx (ec_conn a))) (tx (ec_conn a'))" and "rerr (ec_conn r) = EOF" and "0 < k"
  shows "\<exists>N q. read_all ec_Read r (replicate N k) = Return ((d, Some EOF), q)"
proof -
  have "decode_wire (decode_packet a) (rx (ec_conn r)) = Some d"
    using assms(1,4) by (auto simp: delivers_def)
  then have "enc_pending r = Some d"
    using assms(3,5) decode_packet_cong [OF assms(2)] by (simp add: enc_pending_def)
  from enc_source.read_all_complete [OF this assms(6)] show ?thesis by blast
qed

section \<open>The connection the server gives to smux\<close>

lemma NewEncryptedConn_on:
  "NewEncryptedConn lib c psk ob st = Inr ec \<Longrightarrow> NewEncryptedConn lib d psk ob st = Inr (ec\<lparr>ec_conn := d\<rparr>)"
  by (auto simp: NewEncryptedConn_def Let_def split: if_splits sum.splits)

lemma handleTunnel_SessionUp:
  assumes "handleTunnel lib crypto dflt srv cfg (Some (Inr c)) r w = Return (SessionUp ec sc, w')" and "nc_ok c"
  shows "NewEncryptedConn crypto (ec_conn ec) (PSK cfg) (Some (Obfs cfg)) [Some (Stealth cfg)] = Inr ec \<and>
    ec_readBuf ec = [] \<and> tx (ec_conn ec) = nc_sent c @ bytes_of response_101"
proof -
  have v: "validateRequest lib (Some (Mimic cfg)) r" using assms(1) by (auto simp: handleTunnel_def split: if_splits)
  obtain n x c1 w1 where s: "nc_Write (server_setTCPOptions (Advanced cfg) c) (bytes_of response_101) w =
      Return ((n, x), c1, w1)" "x = None \<Longrightarrow> nc_sent c1 = nc_sent c @ bytes_of response_101"
    using net_sink.wr_ok [of "server_setTCPOptions (Advanced cfg) c" "bytes_of response_101" w] assms(2) by auto
  have x: "x = None" using assms(1) v s(1) by (cases x) (auto simp: handleTunnel_def)
  obtain sc2 w2 where b: "buildSmuxConfig dflt cfg w1 = (sc2, w2)" by (metis prod.collapse)
  have e: "NewEncryptedConn crypto (nc_conn c1) (PSK cfg) (Some (Obfs cfg)) [Some (Stealth cfg)] = Inr ec"
    using assms(1) v s(1) x b by (auto simp: handleTunnel_def split: sum.splits option.splits)
  from NewEncryptedConn_conn [OF e] e s(2) [OF x] show ?thesis by (auto simp: nc_sent_def)
qed

section \<open>Both directions\<close>

text \<open>
  C2. Both ends of a tunnel with the same key, obfuscation and stealth settings: when the server has
  a session up for a fresh connection and the client reads what the server wrote, the client gets
  past the upgrade to serving a session, and the connection under it reads exactly what the server
  wrote through its own, from the first byte after the 101 response; and whatever the client writes
  through it the server reads, from the first byte after the request. (Writes of a supported size
  that reported no error; read buffers of any size.)
\<close>

theorem session_bytes_cross:
  assumes up: "handleTunnel lib (ce_crypto env) dflt srv scfg (Some (Inr snc)) r w = Return (SessionUp ec sc, w1)"
      "nc_ok snc" "nc_sent snc = []"
    and wr: "enc_good ec" "list_all (write_fits ec) ds" "write_all ec_Write ec ds w1 = Return (None, ec', w2)"
    and dial: "TrimSpace (pa_Addr path) \<noteq> []" "dial_path env (cl_cfg c) path v = (Inr nc, tr, v1)"
      "upgrade_ready (ce_http env) (client_setTCPOptions (Advanced (cl_cfg c)) nc) (Some (Mimic (cl_cfg c))) v1 req"
      "http_header (ce_http env) (map bytes_of switching) = None"
    and wire: "rx (nc_conn nc) = tx (ec_conn ec')" "rerr (nc_conn nc) = EOF"
    and same: "PSK (cl_cfg c) = PSK scfg" "Obfs (cl_cfg c) = Obfs scfg" "Stealth (cl_cfg c) = Stealth scfg"
    and k: "0 < k"
  shows "\<exists>b v2 cec N q. connectAndServe env sid c path v = Return (serve_session env sid c b v2) \<and>
    NewEncryptedConn (ce_crypto env) (bc_flat b) (PSK (cl_cfg c)) (Some (Obfs (cl_cfg c)))
      [Some (Stealth (cl_cfg c))] = Inr cec \<and>
    read_all ec_Read cec (replicate N k) = Return ((concat ds, Some EOF), q) \<and>
    (\<forall>es u cec' u' sconn. list_all (write_fits cec) es \<longrightarrow> write_all ec_Write cec es u = Return (None, cec', u') \<longrightarrow>
       rx sconn = drop (length (nc_sent nc @ bytes_of (DumpRequest (ce_http env) req))) (tx (ec_conn cec')) \<longrightarrow>
       rerr sconn = EOF \<longrightarrow>
       (\<exists>M p. read_all ec_Read (ec\<lparr>ec_conn := sconn\<rparr>) (replicate M k) = Return ((concat es, Some EOF), p)))"
proof -
  note s = handleTunnel_SessionUp [OF up(1,2)]
  have d: "delivers ec ec' (concat ds)" using write_all_delivers [OF wr] .
  then obtain bs where bs: "tx (ec_conn ec') = bytes_of response_101 @ bs" "bs = drop (length (tx (ec_conn ec))) (tx (ec_conn ec'))"
    using s up(3) by (auto simp: delivers_def)
  have o: "rx (nc_conn (client_setTCPOptions (Advanced (cl_cfg c)) nc)) = rx (nc_conn nc)"
      "rerr (nc_conn (client_setTCPOptions (Advanced (cl_cfg c)) nc)) = rerr (nc_conn nc)"
      "nc_sent (client_setTCPOptions (Advanced (cl_cfg c)) nc) = nc_sent nc"
    by (simp_all add: client_setTCPOptions_def nc_sent_def split: netconn.split)
  obtain b v2 where b: "ClientHandshake (ce_http env) (client_setTCPOptions (Advanced (cl_cfg c)) nc)
      (Some (Mimic (cl_cfg c))) v1 = Return (Inr b, v2)" "bc_left b = bs" "rerr (bc_conn b) = EOF"
      "nc_sent (bc_Conn b) = nc_sent nc @ bytes_of (DumpRequest (ce_http env) req)"
    using handshake_101 [OF dial(3,4)] o wire bs(1) by auto
  define cec where cec: "cec = ec\<lparr>ec_conn := bc_flat b\<rparr>"
  have n: "NewEncryptedConn (ce_crypto env) (bc_flat b) (PSK (cl_cfg c)) (Some (Obfs (cl_cfg c)))
      [Some (Stealth (cl_cfg c))] = Inr cec"
    using NewEncryptedConn_on s unfolding same cec by blast
  have cs: "connectAndServe env sid c path v = Return (serve_session env sid c b v2)"
    using dial(1,2) b(1) by (simp add: connectAndServe_def Let_def)
  have same_set: "same_settings cec ec" "ec_readBuf cec = []" "ec_conn cec = bc_flat b"
    using s by (simp_all add: cec same_settings_def)
  have "rx (ec_conn cec) = drop (length (tx (ec_conn ec))) (tx (ec_conn ec'))" "rerr (ec_conn cec) = EOF"
    using b(2,3) bs(2) by (simp_all add: cec bc_flat_def)
  from read_delivered [OF d same_set(1,2) this k] obtain N q where
    fwd: "read_all ec_Read cec (replicate N k) = Return ((concat ds, Some EOF), q)" by blast
  have "enc_good cec" using wr(1) same_settings_on [OF same_set(1)] by (simp add: enc_good_def cong: option.case_cong)
  have "\<exists>M p. read_all ec_Read (ec\<lparr>ec_conn := sconn\<rparr>) (replicate M k) = Return ((concat es, Some EOF), p)"
    if "list_all (write_fits cec) es" "write_all ec_Write cec es u = Return (None, cec', u')"
      "rx sconn = drop (length (nc_sent nc @ bytes_of (DumpRequest (ce_http env) req))) (tx (ec_conn cec'))"
      "rerr sconn = EOF" for es u cec' u' sconn
  proof (rule read_delivered [OF write_all_delivers [OF \<open>enc_good cec\<close> that(1,2)] _ _ _ _ k])
    show "same_settings (ec\<lparr>ec_conn := sconn\<rparr>) cec" by (simp add: same_settings_def cec)
    show "ec_readBuf (ec\<lparr>ec_conn := sconn\<rparr>) = []" using s by simp
    have "tx (ec_conn cec) = nc_sent (bc_Conn b)" by (simp add: same_set(3) bc_flat_def bc_conn_def nc_sent_def)
    then show "rx (ec_conn (ec\<lparr>ec_conn := sconn\<rparr>)) = drop (length (tx (ec_conn cec))) (tx (ec_conn cec'))"
      using that(3) b(4) by simp
    show "rerr (ec_conn (ec\<lparr>ec_conn := sconn\<rparr>)) = EOF" using that(4) by simp
  qed
  with cs n fwd show ?thesis by blast
qed

theorem session_bytes_cross_witness:
  "\<exists>ec sc ec' w2 b v2 cec q N. handleTunnel demo_http demo_lib demo_smux (\<lambda>_ _. None) (zero_config\<lparr>PSK := ''k''\<rparr>)
       (Some (Inr (demo_net [] []))) demo_request (demo_world 40) = Return (SessionUp ec sc, demo_world 40) \<and>
     write_all ec_Write ec [[1, 2], [3]] (demo_world 40) = Return (None, ec', w2) \<and>
     connectAndServe (demo_env (tx (ec_conn ec'))) 5 (demo_client\<lparr>cl_cfg := zero_config\<lparr>PSK := ''k''\<rparr>\<rparr>)
       (demo_path ''h:80'') (demo_world 30) =
       Return (serve_session (demo_env (tx (ec_conn ec'))) 5 (demo_client\<lparr>cl_cfg := zero_config\<lparr>PSK := ''k''\<rparr>\<rparr>) b v2) \<and>
     read_all ec_Read cec (replicate N 2) = Return (([1, 2, 3], Some EOF), q)"
proof -
  let ?cfg = "zero_config\<lparr>PSK := ''k''\<rparr>" and ?w = "demo_world 40"
  let ?cl = "demo_client\<lparr>cl_cfg := ?cfg\<rparr>"
  have "upgrade_request ''h.io'' demo_request"
    by (simp add: upgrade_request_def demo_request_def header_get_def)
  then have v: "validateRequest demo_http (Some (Mimic ?cfg)) demo_request"
    by (simp add: upgrade_request_def validateRequest_def zero_config_def lower_Upgrade Let_def)
      (simp add: Contains_def HasPrefix_def)
  obtain g where g: "newGCM demo_lib (replicate 32 (of_char CHR ''k'')) = Inr g" "aead_ok g"
      "aead_NonceSize g = 12" "\<And>n p. aead_Seal g n p = replicate 16 (of_char CHR ''k'') @ p"
    using lib_ok_demo by (auto simp: demo_lib_def aead_ok_def)
  let ?ec = "\<lparr>ec_conn = (new_conn [])\<lparr>segs := [bytes_of response_101]\<rparr>, ec_gcm = Some g,
    ec_obfs = Some (Obfs ?cfg), ec_stealth = Some (Stealth ?cfg), ec_readBuf = []\<rparr>"
  have n: "NewEncryptedConn demo_lib ((new_conn [])\<lparr>segs := [bytes_of response_101]\<rparr>) (PSK ?cfg) (Some (Obfs ?cfg))
      [Some (Stealth ?cfg)] = Inr ?ec"
    using g(1) by (simp add: NewEncryptedConn_def demo_lib_def bytes_of_def Let_def)
  obtain c1 where c1: "nc_Write (server_setTCPOptions (Advanced ?cfg) (demo_net [] []))
      (bytes_of response_101) ?w = Return ((length (bytes_of response_101), None), c1, ?w)"
      "nc_conn c1 = (new_conn [])\<lparr>segs := [bytes_of response_101]\<rparr>"
    by (simp add: demo_net_def server_setTCPOptions_def new_sock_def new_conn_def conn_write_def)
  obtain sc where "buildSmuxConfig demo_smux ?cfg ?w = (sc, ?w)"
    by (simp add: buildSmuxConfig_def jittered_def zero_config_def Let_def)
  with v c1 n have up: "handleTunnel demo_http demo_lib demo_smux (\<lambda>_ _. None) ?cfg (Some (Inr (demo_net [] [])))
      demo_request ?w = Return (SessionUp ?ec sc, ?w)"
    by (simp add: handleTunnel_def)
  have good: "enc_good ?ec" using g(2) by (simp add: enc_good_def obfs_on_def stealth_on_def zero_config_def)
  have off: "obfs_on ?ec = None" "stealth_on ?ec = None" "st_BurstSplit (Stealth ?cfg) = False"
    by (simp_all add: obfs_on_def stealth_on_def zero_config_def)
  have fits: "list_all (write_fits ?ec) [[1, 2], [3]]"
    using off by (simp add: write_fits_def pkt_fits_def)
  obtain ec' w2 where wr: "write_all ec_Write ?ec [[1, 2], [3]] ?w = Return (None, ec', w2)"
    using off g(3,4)
    by (simp add: enc_eval demo_world_def new_conn_def zero_config_def Let_def)
  let ?env = "demo_env (tx (ec_conn ec'))" and ?nc = "TCPConn (new_sock (new_conn (tx (ec_conn ec'))))"
  have e: "ce_http ?env = demo_http" "ce_crypto ?env = demo_lib" by (simp_all add: demo_env_def)
  have d: "dial_path ?env (cl_cfg ?cl) (demo_path ''h:80'') (demo_world 30) = (Inr ?nc, [], demo_world 30)"
    by (simp add: demo_dial)
  obtain req where u: "upgrade_ready (ce_http ?env) (client_setTCPOptions (Advanced (cl_cfg ?cl)) ?nc)
      (Some (Mimic (cl_cfg ?cl))) (demo_world 30) req"
    using demo_upgrade_ready [of "Advanced zero_config" "tx (ec_conn ec')" "demo_world 30"]
    unfolding e by auto
  have "rx (nc_conn ?nc) = tx (ec_conn ec')" "rerr (nc_conn ?nc) = EOF"
      "http_header (ce_http ?env) (map bytes_of switching) = None"
    by (simp_all add: new_sock_def new_conn_def e)
  note x = session_bytes_cross [OF up [folded e(2)] _ _ good fits wr demo_path_addr d u this(3,1,2), of 2 5]
  have "concat [[1, 2], [3]] = [1, 2, 3 :: byte]" by simp
  with x up wr show ?thesis by fastforce
qed

end
