(* ===== verification/ClientPool.thy ===== *)
theory ClientPool
  imports Client
begin

text \<open>
  The properties of \<open>OpenStream\<close> over the client's session pool, against a reference that walks the
  pool in rotated order, and of \<open>parseAddr\<close>.
\<close>

section \<open>OpenStream\<close>

definition answers :: "client \<Rightarrow> nat \<Rightarrow> bool" where
  "answers c x \<longleftrightarrow> \<not> cs_closed (cl_heap c x) \<and> (\<exists>st rs. cs_opens (cl_heap c x) = Inr st # rs)"

definition cl_try_order :: "client \<Rightarrow> nat list" where
  "cl_try_order c = rotate (unat (cl_rrIndex c) + 1) (cl_sessions c)"

text \<open>The loop with the sessions it indexes spelled out.\<close>

fun try_open :: "int \<Rightarrow> string \<Rightarrow> nat list \<Rightarrow> client \<Rightarrow> (gerror + conn) \<times> client" where
  "try_open n target [] c = (Inl (ErrorfInt ''all sessions dead'' n), c)"
| "try_open n target (x # xs) c =
     (if cs_closed (cl_heap c x) then try_open n target xs c
      else case cl_smux_OpenStream x c of
          (Inr stream, c) \<Rightarrow> (Inr (forward_header stream target), c)
        | (Inl _, c) \<Rightarrow> try_open n target xs (cl_removeSession x c))"

lemma open_loop_try:
  assumes "sessions \<noteq> []" and "0 \<le> idx" and "\<forall>i \<in> set is. idx + int i < 2 ^ 63"
  shows "open_loop sessions idx t is c = Return (try_open (int (length sessions)) t
    (map (\<lambda>i. sessions ! ((nat idx + i) mod length sessions)) is) c)"
  using assms(3)
proof (induction "is" arbitrary: c)
  case Nil
  then show ?case by simp
next
  case (Cons i "is")
  have "i64 (idx + int i) = idx + int i"
    using assms(2) Cons.prems by (intro i64_small) auto
  then have k: "go_rem (i64 (idx + int i)) (int (length sessions)) = int ((nat idx + i) mod length sessions)"
    using assms(2) by (simp add: go_rem_nonneg zmod_int)
  have IH: "open_loop sessions idx t is c' = Return (try_open (int (length sessions)) t
      (map (\<lambda>i. sessions ! ((nat idx + i) mod length sessions)) is) c')" for c'
    using Cons by simp
  show ?case unfolding open_loop.simps k by (simp add: IH Let_def split: sum.split prod.split)
qed

lemma cl_smux_fail:
  assumes "\<not> answers c x" and "\<not> cs_closed (cl_heap c x)"
  shows "\<exists>e c'. cl_smux_OpenStream x c = (Inl e, c') \<and> cl_sessions c' = cl_sessions c \<and>
    (\<forall>y. y \<noteq> x \<longrightarrow> cl_heap c' y = cl_heap c y)"
proof (cases "cs_opens (cl_heap c x)")
  case Nil
  then show ?thesis by (simp add: cl_smux_OpenStream_def)
next
  case (Cons r rs)
  with assms show ?thesis by (cases r) (auto simp: answers_def cl_smux_OpenStream_def upd_clientSession_def)
qed

text \<open>The sessions a call drops: those before the one it uses that are open but fail to open a stream.\<close>

definition dropped :: "client \<Rightarrow> nat list \<Rightarrow> nat set" where
  "dropped c xs = {y \<in> set (takeWhile (\<lambda>y. \<not> answers c y) xs). \<not> cs_closed (cl_heap c y)}"

lemma try_open_spec:
  assumes "distinct xs" and "distinct (cl_sessions c)"
  shows "\<exists>c'. cl_sessions c' = filter (\<lambda>y. y \<notin> dropped c xs) (cl_sessions c) \<and>
    (case find (answers c) xs of
      None \<Rightarrow> try_open n t xs c = (Inl (ErrorfInt ''all sessions dead'' n), c')
    | Some x \<Rightarrow> \<exists>st rs. cs_opens (cl_heap c x) = Inr st # rs \<and> try_open n t xs c = (Inr (forward_header st t), c'))"
  using assms
proof (induction xs arbitrary: c)
  case Nil
  then show ?case by (simp add: dropped_def)
next
  case (Cons x xs)
  consider (yes) "answers c x" | (dead) "cs_closed (cl_heap c x)"
    | (fails) "\<not> answers c x" "\<not> cs_closed (cl_heap c x)" by blast
  then show ?case
  proof cases
    case yes
    then show ?thesis
      by (auto simp: dropped_def answers_def cl_smux_OpenStream_def upd_clientSession_def)
  next
    case dead
    then have "\<not> answers c x" by (simp add: answers_def)
    then have e: "find (answers c) (x # xs) = find (answers c) xs" "dropped c (x # xs) = dropped c xs"
        "try_open n t (x # xs) c = try_open n t xs c"
      using dead by (auto simp: dropped_def)
    show ?thesis unfolding e using Cons.IH [of c] Cons.prems by simp
  next
    case fails
    obtain e c1 where c1: "cl_smux_OpenStream x c = (Inl e, c1)" "cl_sessions c1 = cl_sessions c"
        "\<forall>y. y \<noteq> x \<longrightarrow> cl_heap c1 y = cl_heap c y"
      using cl_smux_fail [OF fails] by blast
    let ?c = "cl_removeSession x c1"
    have h: "cl_heap ?c y = cl_heap c y" if "y \<in> set xs" for y
      using that Cons.prems(1) c1(3) by (auto simp: cl_removeSession_def)
    have s: "cl_sessions ?c = remove1 x (cl_sessions c)"
      using cl_pool.items_rem [of x c1] c1(2) by simp
    have a: "\<And>y. y \<in> set xs \<Longrightarrow> answers ?c y = answers c y" using h by (simp add: answers_def)
    then have t: "takeWhile (\<lambda>y. \<not> answers ?c y) xs = takeWhile (\<lambda>y. \<not> answers c y) xs"
      by (auto intro!: takeWhile_cong)
    have f: "find (answers ?c) xs = find (answers c) xs" using a by (auto intro!: find_cong)
    have "dropped ?c xs = dropped c xs"
      unfolding dropped_def t using h set_takeWhileD [of _ "\<lambda>y. \<not> answers c y" xs] by auto
    moreover have "dropped c (x # xs) = insert x (dropped c xs)" using fails by (auto simp: dropped_def)
    ultimately have d: "filter (\<lambda>y. y \<notin> dropped ?c xs) (cl_sessions ?c) =
        filter (\<lambda>y. y \<notin> dropped c (x # xs)) (cl_sessions c)"
      using Cons.prems(2) by (simp add: s distinct_remove1_removeAll removeAll_filter_not_eq conj_commute) metis
    have "distinct (cl_sessions ?c)" using Cons.prems(2) by (simp add: s)
    from Cons.IH [OF _ this] Cons.prems(1) obtain c' where
      "cl_sessions c' = filter (\<lambda>y. y \<notin> dropped ?c xs) (cl_sessions ?c)"
      "case find (answers ?c) xs of
        None \<Rightarrow> try_open n t xs ?c = (Inl (ErrorfInt ''all sessions dead'' n), c')
      | Some x \<Rightarrow> \<exists>st rs. cs_opens (cl_heap ?c x) = Inr st # rs \<and> try_open n t xs ?c = (Inr (forward_header st t), c')"
      by auto
    moreover have "cs_opens (cl_heap ?c z) = cs_opens (cl_heap c z)" if "find (answers c) xs = Some z" for z
      using that h by (auto simp: find_Some_iff)
    ultimately show ?thesis using fails c1(1) d f by (auto split: option.splits)
  qed
qed

text \<open>
  C17. The client opens a stream on the first session in rotated order, after the one of the last
  call, that is open and can open one, with the target's header sent on it; it is refused exactly
  when there is none. Open sessions tried before that leave the pool, all others stay in it.
\<close>

theorem open_stream_choice:
  assumes "distinct (cl_sessions c)" and "cl_sessions c \<noteq> []"
    and "unat (cl_rrIndex c) + length (cl_sessions c) < 2 ^ 63 - 1"
  shows "\<exists>r c'. OpenStream c t = Return (r, c') \<and>
    cl_sessions c' = filter (\<lambda>y. y \<notin> dropped c (cl_try_order c)) (cl_sessions c) \<and>
    (case find (answers c) (cl_try_order c) of
      None \<Rightarrow> r = Inl (ErrorfInt ''all sessions dead'' (int (length (cl_sessions c))))
    | Some x \<Rightarrow> \<exists>st rs. cs_opens (cl_heap c x) = Inr st # rs \<and> r = Inr (forward_header st t))"
proof -
  let ?s = "cl_sessions c" and ?c = "c\<lparr>cl_rrIndex := cl_rrIndex c + 1\<rparr>"
  have sel: "answers ?c = answers c" "dropped ?c = dropped c" "cl_sessions ?c = ?s" "cl_heap ?c = cl_heap c"
    by (auto simp: answers_def dropped_def)
  have i: "sint (cl_rrIndex c + 1) = int (unat (cl_rrIndex c) + 1)"
    using assms(3) by (intro sint_next) simp
  have "\<forall>i \<in> set [0..<length ?s]. int (unat (cl_rrIndex c) + 1) + int i < 2 ^ 63"
  proof
    fix i assume "i \<in> set [0..<length ?s]"
    then have "unat (cl_rrIndex c) + 1 + i < 9223372036854775808" using assms(3) by simp
    then have "int (unat (cl_rrIndex c) + 1 + i) < int 9223372036854775808" by (simp only: of_nat_less_iff)
    then show "int (unat (cl_rrIndex c) + 1) + int i < 2 ^ 63" by simp
  qed
  from open_loop_try [OF assms(2) _ this, of t ?c] have
    "OpenStream c t = Return (try_open (int (length ?s)) t (cl_try_order c) ?c)"
    using assms(2) i map_rotate [OF assms(2), of "unat (cl_rrIndex c) + 1"]
    by (simp add: OpenStream_def cl_try_order_def Let_def nat_add_distrib add.commute [of 1])
  moreover have "distinct (cl_try_order c)" using assms(1) by (simp add: cl_try_order_def)
  ultimately show ?thesis
    using try_open_spec [of "cl_try_order c" ?c "int (length ?s)" t] assms(1) unfolding sel
    by (auto split: option.splits)
qed

definition demo_pool :: client where
  "demo_pool = \<lparr>cl_cfg = undefined, cl_paths = [], cl_sessions = [4, 5, 6], cl_rrIndex = 0,
     cl_heap = (\<lambda>x. if x = 5 then \<lparr>cs_closed = False, cs_opens = [Inl EOF]\<rparr>
       else \<lparr>cs_closed = x = 4, cs_opens = [Inr (new_conn [])]\<rparr>)\<rparr>"

theorem open_stream_choice_witness:
  "\<exists>stream c'. OpenStream demo_pool ''tcp://h:1'' = Return (Inr stream, c') \<and> cl_sessions c' = [4, 6]"
proof -
  have "cl_try_order demo_pool = [5, 6, 4]" by (simp add: cl_try_order_def demo_pool_def)
  moreover have "answers demo_pool 6" "\<not> answers demo_pool 5" by (simp_all add: answers_def demo_pool_def)
  moreover from calculation have "dropped demo_pool [5, 6, 4] = {5}" by (auto simp: dropped_def demo_pool_def)
  moreover have "cl_sessions demo_pool = [4, 5, 6]" by (simp add: demo_pool_def)
  ultimately show ?thesis
    using open_stream_choice [of demo_pool "''tcp://h:1''"] by (auto simp: demo_pool_def)
qed

section \<open>parseAddr\<close>

definition schemes :: "string list" where
  "schemes = [[], ''http://'', ''https://'', ''ws://'', ''wss://'']"

definition default_port :: "string \<Rightarrow> string" where
  "default_port transport = (if transport = ''httpsmux'' \<or> transport = ''wssmux'' then ''443'' else ''80'')"

text \<open>A host or port without the characters addresses are taken apart at.\<close>

definition bare :: "string \<Rightarrow> bool" where
  "bare h \<longleftrightarrow> h \<noteq> [] \<and> (\<forall>c \<in> {CHR '':'', CHR ''/'', CHR ''['', CHR '']''}. c \<notin> set h)"

lemma no_prefix:
  assumes "CHR '':'' \<notin> set h" and "CHR '':'' \<notin> set x"
    and "t = [] \<or> hd t = CHR ''/'' \<and> CHR ''/'' \<notin> set x \<or>
      (\<exists>p u. t = CHR '':'' # p @ u \<and> p \<noteq> [] \<and> CHR ''/'' \<notin> set p)"
  shows "\<not> HasPrefix (h @ t) (x @ ''://'')"
proof
  assume "HasPrefix (h @ t) (x @ ''://'')"
  then obtain z where z: "h @ t = x @ CHR '':'' # ''//'' @ z" by (auto simp: HasPrefix_iff)
  from z consider (a) us where "h = x @ us" "us @ t = CHR '':'' # ''//'' @ z"
    | (b) us where "x = h @ us" "t = us @ CHR '':'' # ''//'' @ z"
    by (auto simp: append_eq_append_conv2)
  then show False
  proof cases
    case a
    with assms(1) have "us = []" by (cases us) auto
    with a(2) assms(3) show False by (auto simp: append_eq_Cons_conv Cons_eq_append_conv)
  next
    case b
    with assms(2,3) show False
      by (cases us) (auto simp: append_eq_Cons_conv Cons_eq_append_conv)
  qed
qed

lemma trim_schemes:
  assumes "s \<in> set schemes" and "\<forall>x \<in> {''http'', ''https'', ''ws'', ''wss''}. \<not> HasPrefix a (x @ ''://'')"
  shows "TrimPrefix (TrimPrefix (TrimPrefix (TrimPrefix (s @ a) ''http://'') ''https://'') ''ws://'') ''wss://'' = a"
proof -
  have n: "TrimPrefix a ''http://'' = a" "TrimPrefix a ''https://'' = a" "TrimPrefix a ''ws://'' = a" "TrimPrefix a ''wss://'' = a"
    using assms(2) by (simp_all add: TrimPrefix_def)
  from assms(1) consider "s = []" | "s = ''http://''" | "s = ''https://''" | "s = ''ws://''" | "s = ''wss://''"
    by (auto simp: schemes_def)
  then show ?thesis
  proof cases
    case 1
    then show ?thesis by (simp add: n)
  next
    case 2
    then have "TrimPrefix (s @ a) ''http://'' = a" by (simp add: TrimPrefix_def HasPrefix_def)
    then show ?thesis by (simp add: n)
  next
    case 3
    then have "TrimPrefix (s @ a) ''http://'' = s @ a" "TrimPrefix (s @ a) ''https://'' = a"
      by (simp_all add: TrimPrefix_def HasPrefix_def)
    then show ?thesis by (simp add: n)
  next
    case 4
    then have "TrimPrefix (s @ a) ''http://'' = s @ a" "TrimPrefix (s @ a) ''https://'' = s @ a"
        "TrimPrefix (s @ a) ''ws://'' = a"
      by (simp_all add: TrimPrefix_def HasPrefix_def)
    then show ?thesis by (simp add: n)
  next
    case 5
    then have "TrimPrefix (s @ a) ''http://'' = s @ a" "TrimPrefix (s @ a) ''https://'' = s @ a"
        "TrimPrefix (s @ a) ''ws://'' = s @ a" "TrimPrefix (s @ a) ''wss://'' = a"
      by (simp_all add: TrimPrefix_def HasPrefix_def)
    then show ?thesis by (simp add: n)
  qed
qed

lemma until_slash:
  assumes "CHR ''/'' \<notin> set a" and "t = [] \<or> hd t = CHR ''/''"
  shows "(case strIndex (a @ t) ''/'' of Some i \<Rightarrow> take i (a @ t) | None \<Rightarrow> a @ t) = a"
proof (cases t)
  case Nil
  have "strIndex a ''/'' = None" using assms(1) by (simp add: indexByte_def [symmetric])
  with Nil show ?thesis by simp
next
  case (Cons c u)
  with assms(2) have "strIndex (a @ t) ''/'' = Some (length a)" using assms(1) by (simp add: strIndex_single)
  then show ?thesis by simp
qed

lemma SplitHostPort_bare: "bare h \<Longrightarrow> SplitHostPort h = Inl (Errorf ''missing port in address'')"
proof -
  assume "bare h"
  then have "indexByte (rev h) (CHR '':'') = None" by (simp add: bare_def)
  then show ?thesis by (simp add: SplitHostPort_def lastIndexByte_def indexByte_def)
qed

lemma SplitHostPort_bracketed:
  assumes "CHR '':'' \<in> set h" and "CHR '']'' \<notin> set h"
  shows "SplitHostPort (''['' @ h @ '']'') = Inl (Errorf ''missing port in address'')"
proof -
  obtain a b where "h = a @ CHR '':'' # b" "CHR '':'' \<notin> set b" using assms(1) by (meson split_list_last)
  then have "lastIndexByte (''['' @ h @ '']'') (CHR '':'') = Some (Suc (length a))"
    using lastIndexByte_last [of "CHR '':''" "b @ '']''" "''['' @ a"] by simp
  moreover have "indexByte (''['' @ h @ '']'') (CHR '']'') = Some (Suc (length h))"
    using indexByte_first [of "CHR '']''" "''['' @ h" "[]"] assms(2) by simp
  ultimately show ?thesis by (simp add: SplitHostPort_def)
qed

text \<open>
  An address is its host and port whatever scheme precedes and whatever path follows them; a
  missing port is that of the transport, not of the scheme. A bracketed IPv6 address without a port
  keeps its brackets and is dialled with a second pair around it.
\<close>

theorem parse_addr_parts:
  assumes "s \<in> set schemes" and "bare h" and "bare p" and "rest = [] \<or> hd rest = CHR ''/''"
    and "CHR '':'' \<in> set v" "CHR ''/'' \<notin> set v" "CHR '']'' \<notin> set v"
  shows "parseAddr (s @ h @ '':'' @ p @ rest) t = (h, p) \<and> parseAddr (s @ h @ rest) t = (h, default_port t) \<and>
    parseAddr (s @ ''['' @ v @ '']'' @ rest) t = (''['' @ v @ '']'', default_port t) \<and>
    JoinHostPort (''['' @ v @ '']'') (default_port t) = ''[['' @ v @ '']]:'' @ default_port t"
proof -
  have x: "CHR '':'' \<notin> set x" "CHR ''/'' \<notin> set x" if "x \<in> {''http'', ''https'', ''ws'', ''wss''}" for x
    using that by auto
  have h: "CHR '':'' \<notin> set h" "CHR ''/'' \<notin> set h" and p: "CHR ''/'' \<notin> set p" "p \<noteq> []" "CHR '':'' \<notin> set p"
    using assms(2,3) by (simp_all add: bare_def)
  have 1: "\<forall>x \<in> {''http'', ''https'', ''ws'', ''wss''}. \<not> HasPrefix (h @ '':'' @ p @ rest) (x @ ''://'')"
  proof
    fix x assume "x \<in> {''http'', ''https'', ''ws'', ''wss''}"
    from x(1) [OF this] show "\<not> HasPrefix (h @ '':'' @ p @ rest) (x @ ''://'')"
      by (rule no_prefix [OF h(1)]) (use p in \<open>intro disjI2 exI [of _ p] exI [of _ rest]; simp\<close>)
  qed
  have 2: "\<forall>x \<in> {''http'', ''https'', ''ws'', ''wss''}. \<not> HasPrefix (h @ rest) (x @ ''://'')"
  proof
    fix x assume a: "x \<in> {''http'', ''https'', ''ws'', ''wss''}"
    from x(1) [OF a] show "\<not> HasPrefix (h @ rest) (x @ ''://'')"
      by (rule no_prefix [OF h(1)]) (use x(2) [OF a] assms(4) in blast)
  qed
  have 3: "\<forall>x \<in> {''http'', ''https'', ''ws'', ''wss''}. \<not> HasPrefix (''['' @ v @ '']'' @ rest) (x @ ''://'')"
    by (simp add: HasPrefix_def)
  have s1: "SplitHostPort (h @ '':'' @ p) = Inr (h, p)"
    using SplitHostPort_JoinHostPort [of h p] assms(2,3) by (simp add: bare_def JoinHostPort_def)
  have u1: "(case strIndex (h @ '':'' @ p @ rest) ''/'' of Some i \<Rightarrow> take i (h @ '':'' @ p @ rest)
      | None \<Rightarrow> h @ '':'' @ p @ rest) = h @ '':'' @ p"
  proof -
    have "CHR ''/'' \<notin> set (h @ '':'' @ p)" using h p by simp
    from until_slash [OF this assms(4)] show ?thesis unfolding append_assoc .
  qed
  have u3: "(case strIndex (''['' @ v @ '']'' @ rest) ''/'' of Some i \<Rightarrow> take i (''['' @ v @ '']'' @ rest)
      | None \<Rightarrow> ''['' @ v @ '']'' @ rest) = ''['' @ v @ '']''"
  proof -
    have "CHR ''/'' \<notin> set (''['' @ v @ '']'')" using assms(6) by simp
    from until_slash [OF this assms(4)] show ?thesis unfolding append_assoc .
  qed
  have "parseAddr (s @ h @ '':'' @ p @ rest) t = (h, p)"
    unfolding parseAddr_def Let_def trim_schemes [OF assms(1) 1] u1 s1 by simp
  moreover have "parseAddr (s @ h @ rest) t = (h, default_port t)"
    unfolding parseAddr_def Let_def trim_schemes [OF assms(1) 2] until_slash [OF h(2) assms(4)]
    by (simp add: SplitHostPort_bare [OF assms(2)] default_port_def)
  moreover have "parseAddr (s @ ''['' @ v @ '']'' @ rest) t = (''['' @ v @ '']'', default_port t)"
    unfolding parseAddr_def Let_def trim_schemes [OF assms(1) 3] u3
    by (simp only: SplitHostPort_bracketed [OF assms(5,7)] sum.case default_port_def)
  ultimately show ?thesis using assms(5) by (simp add: JoinHostPort_def)
qed

theorem parse_addr_parts_witness:
  "parseAddr ''wss://h.io:8443/search'' ''wssmux'' = (''h.io'', ''8443'') \<and>
   parseAddr ''[::1]'' ''httpmux'' = (''[::1]'', ''80'')"
  using parse_addr_parts [of "''wss://''" "''h.io''" "''8443''" "''/search''" "''::1''" "''wssmux''"]
    parse_addr_parts [of "[]" "''h''" "''1''" "[]" "''::1''" "''httpmux''"]
  by (simp add: schemes_def bare_def default_port_def)

end
