(* ===== verification/ClientSteps.thy ===== *)
theory ClientSteps
  imports ClientPool ClientProps
begin

text \<open>
  The client's goroutines interleaved: the workers that \<open>Start\<close> launched, each idle or serving one
  session, the health check, and the callers of \<open>OpenStream\<close>. A step is one access to what they share:
  the pool under \<open>sessMu\<close>, the atomic counter, a call into smux. smux closes sessions and answers as
  it likes.
\<close>

section \<open>The steps of OpenStream\<close>

text \<open>
  Where a call stands: before the read lock, with its copy of the pool, at an index of the loop before
  \<open>IsClosed\<close>, before smux's \<open>OpenStream\<close>, before it removes a session that could not open, or done.
\<close>

datatype client_call =
    Calling string
  | Copied string "nat list"
  | Walk string "nat list" int "nat list"
  | OpenAt string "nat list" int nat "nat list"
  | Dead string "nat list" int nat "nat list"
  | Answer "gerror + conn"

fun client_next :: "client_call \<Rightarrow> client \<Rightarrow> (client_call \<times> client) option" where
  "client_next (Calling t) c =
     Some (if cl_sessions c = [] then Answer (Inl (Errorf ''no active session'')) else Copied t (cl_sessions c), c)"
| "client_next (Copied t sessions) c =
     (let c = c\<lparr>cl_rrIndex := cl_rrIndex c + 1\<rparr>
      in Some (Walk t sessions (sint (cl_rrIndex c)) [0..<length sessions], c))"
| "client_next (Walk t sessions idx []) c =
     Some (Answer (Inl (ErrorfInt ''all sessions dead'' (int (length sessions)))), c)"
| "client_next (Walk t sessions idx (i # is)) c =
     (let k = go_rem (i64 (idx + int i)) (int (length sessions))
      in if k < 0 then None
         else let pick = sessions ! nat k
              in Some (if cs_closed (cl_heap c pick) then Walk t sessions idx is else OpenAt t sessions idx pick is, c))"
| "client_next (OpenAt t sessions idx pick is) c =
     (case cl_smux_OpenStream pick c of
       (Inr stream, c) \<Rightarrow> Some (Answer (Inr (forward_header stream t)), c)
     | (Inl _, c) \<Rightarrow> Some (Dead t sessions idx pick is, c))"
| "client_next (Dead t sessions idx pick is) c = Some (Walk t sessions idx is, cl_removeSession pick c)"
| "client_next (Answer r) c = None"

text \<open>Without interference they are the function of theory Client.\<close>

inductive client_run :: "client_call \<Rightarrow> client \<Rightarrow> client_call \<Rightarrow> client \<Rightarrow> bool" where
  client_here: "client_run k c k c"
| client_on: "client_next k c = Some (k1, c1) \<Longrightarrow> client_run k1 c1 k2 c2 \<Longrightarrow> client_run k c k2 c2"

lemma open_loop_run:
  "open_loop ss idx t is c = Return (r, c') \<Longrightarrow> client_run (Walk t ss idx is) c (Answer r) c'"
proof (induction "is" arbitrary: c)
  case Nil
  then show ?case by - (rule client_on [OF _ client_here], simp)
next
  case (Cons i "is")
  let ?k = "go_rem (i64 (idx + int i)) (int (length ss))"
  let ?pick = "ss ! nat ?k"
  have k: "\<not> ?k < 0" using Cons.prems by (auto simp: Let_def split: if_splits)
  show ?case
  proof (cases "cs_closed (cl_heap c ?pick)")
    case True
    with Cons k have "client_run (Walk t ss idx is) c (Answer r) c'" by (simp add: Let_def)
    with True k show ?thesis by - (rule client_on [of _ _ "Walk t ss idx is" c], simp_all add: Let_def)
  next
    case False
    obtain q c1 where q: "cl_smux_OpenStream ?pick c = (q, c1)" by (metis prod.collapse)
    have "client_run (OpenAt t ss idx ?pick is) c (Answer r) c'"
    proof (cases q)
      case (Inl e)
      with Cons k False q have "client_run (Walk t ss idx is) (cl_removeSession ?pick c1) (Answer r) c'"
        by (simp add: Let_def)
      then have "client_run (Dead t ss idx ?pick is) c1 (Answer r) c'" by (rule client_on [rotated]) simp
      with q Inl show ?thesis by - (rule client_on [of _ _ "Dead t ss idx ?pick is" c1], simp_all)
    next
      case (Inr st)
      with Cons.prems k False q show ?thesis
        by - (rule client_on [OF _ client_here], simp add: Let_def)
    qed
    with False k show ?thesis by - (rule client_on [of _ _ "OpenAt t ss idx ?pick is" c], simp_all add: Let_def)
  qed
qed

theorem OpenStream_run:
  assumes "OpenStream c t = Return (r, c')"
  shows "client_run (Calling t) c (Answer r) c'"
proof (cases "cl_sessions c = []")
  case True
  with assms show ?thesis by - (rule client_on [OF _ client_here], simp add: OpenStream_def)
next
  case False
  let ?c = "c\<lparr>cl_rrIndex := cl_rrIndex c + 1\<rparr>"
  have "client_run (Walk t (cl_sessions c) (sint (cl_rrIndex ?c)) [0..<length (cl_sessions c)]) ?c (Answer r) c'"
    by (rule open_loop_run) (use assms False in \<open>simp add: OpenStream_def Let_def\<close>)
  then have "client_run (Copied t (cl_sessions c)) c (Answer r) c'"
    by (rule client_on [rotated]) (simp add: Let_def)
  with False show ?thesis by - (rule client_on [of _ _ "Copied t (cl_sessions c)" c], simp_all)
qed

theorem OpenStream_run_witness:
  "\<exists>r c'. OpenStream (NewClient zero_config) ''t'' = Return (r, c') \<and>
     client_run (Calling ''t'') (NewClient zero_config) (Answer r) c'"
proof -
  have "OpenStream (NewClient zero_config) ''t'' = Return (Inl (Errorf ''no active session''), NewClient zero_config)"
    by (simp add: OpenStream_def NewClient_def Let_def)
  from OpenStream_run [OF this] this show ?thesis by blast
qed

section \<open>State and steps\<close>

text \<open>A worker serves its session until it has closed it; \<open>cy_leaving\<close> are those already removed.\<close>

record clsystem =
  cy_client :: client
  cy_idle :: nat
  cy_serving :: "nat list"
  cy_leaving :: "nat list"
  cy_calls :: "client_call list"
  cy_next :: nat

text \<open>
  The part of \<open>connectAndServe\<close> that touches the pool, split where other goroutines run in between:
  \<open>c.addSession(sess)\<close> for a new session, and at its end \<open>c.removeSession(sess)\<close>, then \<open>sess.Close()\<close>.
\<close>

definition session_up :: "(gerror + conn) list \<Rightarrow> clsystem \<Rightarrow> clsystem" where
  "session_up opens y =
     (let x = cy_next y
      in y\<lparr>cy_client := cl_addSession x (upd_clientSession x (\<lambda>_. \<lparr>cs_closed = False, cs_opens = opens\<rparr>) (cy_client y)),
           cy_idle := cy_idle y - 1, cy_serving := x # cy_serving y, cy_next := Suc x\<rparr>)"

definition session_leaves :: "nat \<Rightarrow> clsystem \<Rightarrow> clsystem" where
  "session_leaves x y = y\<lparr>cy_client := cl_removeSession x (cy_client y), cy_leaving := x # cy_leaving y\<rparr>"

definition session_down :: "nat \<Rightarrow> clsystem \<Rightarrow> clsystem" where
  "session_down x y = y\<lparr>cy_client := cl_closeSess x (cy_client y),
     cy_idle := Suc (cy_idle y), cy_serving := remove1 x (cy_serving y), cy_leaving := remove1 x (cy_leaving y)\<rparr>"

text \<open>
  A health check holds the lock, but sessions close meanwhile: what it keeps is any part of the pool
  outside of which every session is closed; \<open>sessionHealthCheck_tick\<close> when none closes during the loop.
\<close>

definition check_some :: "(nat \<Rightarrow> bool) \<Rightarrow> client \<Rightarrow> client" where
  "check_some keep c = c\<lparr>cl_sessions := filter keep (cl_sessions c)\<rparr>"

lemma check_evicts: "sessionHealthCheck_tick c = check_some (\<lambda>x. \<not> cs_closed (cl_heap c x)) c"
  by (simp add: sessionHealthCheck_tick_def check_some_def keep_alive_eq)

inductive cl_step :: "clsystem \<Rightarrow> clsystem \<Rightarrow> bool" where
  up: "0 < cy_idle y \<Longrightarrow> cl_step y (session_up opens y)"
| leaves: "x \<in> set (cy_serving y) \<Longrightarrow> x \<notin> set (cy_leaving y) \<Longrightarrow> cl_step y (session_leaves x y)"
| down: "x \<in> set (cy_leaving y) \<Longrightarrow> cl_step y (session_down x y)"
| dies: "cl_step y (y\<lparr>cy_client := cl_closeSess x (cy_client y)\<rparr>)"
| answers: "cl_step y (y\<lparr>cy_client := upd_clientSession x (\<lambda>s. s\<lparr>cs_opens := opens\<rparr>) (cy_client y)\<rparr>)"
| calls: "cl_step y (y\<lparr>cy_calls := cy_calls y @ [Calling t]\<rparr>)"
| open_stream: "k < length (cy_calls y) \<Longrightarrow> client_next (cy_calls y ! k) (cy_client y) = Some (q, c) \<Longrightarrow>
    cl_step y (y\<lparr>cy_client := c, cy_calls := (cy_calls y)[k := q]\<rparr>)"
| check: "(\<And>x. x \<in> set (cl_sessions (cy_client y)) \<Longrightarrow> \<not> keep x \<Longrightarrow> cs_closed (cl_heap (cy_client y) x)) \<Longrightarrow>
    cl_step y (y\<lparr>cy_client := check_some keep (cy_client y)\<rparr>)"

inductive cl_reach :: "clsystem \<Rightarrow> clsystem \<Rightarrow> bool" where
  cl_start: "cl_reach y y"
| cl_more: "cl_reach y z \<Longrightarrow> cl_step z u \<Longrightarrow> cl_reach y u"

text \<open>A client as \<open>Start\<close> launches it: all workers idle, no session.\<close>

definition cl_started :: "nat \<Rightarrow> Config \<Rightarrow> clsystem" where
  "cl_started n cfg = \<lparr>cy_client = NewClient cfg, cy_idle = n, cy_serving = [], cy_leaving = [],
     cy_calls = [], cy_next = 0\<rparr>"

section \<open>What a step of OpenStream does to the pool\<close>

lemma cl_removeSession_sub:
  "distinct (cl_sessions c) \<Longrightarrow>
   distinct (cl_sessions (cl_removeSession x c)) \<and> set (cl_sessions (cl_removeSession x c)) \<subseteq> set (cl_sessions c)"
  using cl_pool.distinct_rem [of c x] by auto

lemma cl_smux_sessions: "cl_smux_OpenStream x c = (r, c') \<Longrightarrow> cl_sessions c' = cl_sessions c"
  by (auto simp: cl_smux_OpenStream_def upd_clientSession_def split: list.splits)

lemma client_next_sub:
  assumes "client_next k c = Some (k', c')" and "distinct (cl_sessions c)"
  shows "distinct (cl_sessions c') \<and> set (cl_sessions c') \<subseteq> set (cl_sessions c)"
  using assms cl_removeSession_sub [of c]
  by (cases "(k, c)" rule: client_next.cases)
    (auto simp: Let_def dest: cl_smux_sessions split: if_splits prod.splits sum.splits)

section \<open>The invariant\<close>

definition cl_ok :: "nat \<Rightarrow> clsystem \<Rightarrow> bool" where
  "cl_ok n y \<longleftrightarrow> cy_idle y + length (cy_serving y) = n \<and> distinct (cy_serving y) \<and>
     (\<forall>x \<in> set (cy_serving y). x < cy_next y) \<and>
     distinct (cl_sessions (cy_client y)) \<and> set (cl_sessions (cy_client y)) \<subseteq> set (cy_serving y) \<and>
     distinct (cy_leaving y) \<and> set (cy_leaving y) \<subseteq> set (cy_serving y) - set (cl_sessions (cy_client y))"

lemma cl_ok_pool:
  assumes "cl_ok n y" and "distinct (cl_sessions c)" and "set (cl_sessions c) \<subseteq> set (cl_sessions (cy_client y))"
  shows "cl_ok n (y\<lparr>cy_client := c\<rparr>)" and "cl_ok n (y\<lparr>cy_client := c, cy_calls := ks\<rparr>)"
  using assms by (auto simp: cl_ok_def)

lemma cl_step_ok: "cl_step y z \<Longrightarrow> cl_ok n y \<Longrightarrow> cl_ok n z"
proof (induction rule: cl_step.induct)
  case (up y opens)
  then show ?case
    using cl_pool.items_add [of "cy_next y"]
    by (auto simp: cl_ok_def session_up_def Let_def upd_clientSession_def)
next
  case (leaves x y)
  then show ?case
    using cl_pool.distinct_rem [of "cy_client y" x] by (auto simp: cl_ok_def session_leaves_def)
next
  case (down x y)
  then have x: "x \<in> set (cy_serving y)" "x \<notin> set (cl_sessions (cy_client y))" by (auto simp: cl_ok_def)
  then have l: "length (cy_serving y) = Suc (length (cy_serving y) - 1)" by (cases "cy_serving y") auto
  have s: "set (remove1 x (cy_serving y)) = set (cy_serving y) - {x}" "set (remove1 x (cy_leaving y)) = set (cy_leaving y) - {x}"
    using down(2) by (simp_all add: cl_ok_def)
  show ?case using down l s x by (auto simp: cl_ok_def session_down_def length_remove1)
next
  case (dies y x)
  then show ?case by (auto intro!: cl_ok_pool simp: cl_ok_def)
next
  case (answers y x opens)
  then show ?case by (auto intro!: cl_ok_pool simp: cl_ok_def upd_clientSession_def)
next
  case (calls y t)
  then show ?case by (simp add: cl_ok_def)
next
  case (open_stream k y q c)
  have "distinct (cl_sessions (cy_client y))" using open_stream(3) by (simp add: cl_ok_def)
  from client_next_sub [OF open_stream(2) this] open_stream(3) show ?case by (auto intro: cl_ok_pool)
next
  case (check y keep)
  then show ?case by (auto intro!: cl_ok_pool simp: cl_ok_def check_some_def)
qed

lemma cl_reach_ok: "cl_reach y z \<Longrightarrow> cl_ok n y \<Longrightarrow> cl_ok n z"
  by (induction rule: cl_reach.induct) (auto intro: cl_step_ok)

lemma cl_started_ok: "cl_ok n (cl_started n cfg)"
  by (simp add: cl_ok_def cl_started_def NewClient_def Let_def)

lemma cl_ok_count:
  assumes "cl_ok n y"
  shows "sessionCount (cy_client y) \<le> length (cy_serving y)" and "sessionCount (cy_client y) \<le> n"
proof -
  show "sessionCount (cy_client y) \<le> length (cy_serving y)"
    using assms unfolding cl_ok_def sessionCount_def by (metis card_mono distinct_card finite_set)
  with assms show "sessionCount (cy_client y) \<le> n" by (simp add: cl_ok_def)
qed

text \<open>
  C18. However the client's workers, its health check and the callers of \<open>OpenStream\<close> interleave
  at their accesses to the pool, every session in the pool is being served by a worker of its own and is in the pool once: the pool
  never has more sessions than \<open>Start\<close> launched workers, and none when no worker serves one.
\<close>

theorem client_pool_bounded:
  assumes "cl_reach (cl_started n cfg) y"
  shows "sessionCount (cy_client y) \<le> n \<and> sessionCount (cy_client y) \<le> length (cy_serving y) \<and>
    cy_idle y + length (cy_serving y) = n \<and> distinct (cl_sessions (cy_client y)) \<and>
    set (cl_sessions (cy_client y)) \<subseteq> set (cy_serving y)"
proof -
  have ok: "cl_ok n y" by (rule cl_reach_ok [OF assms cl_started_ok])
  with cl_ok_count [OF ok] show ?thesis by (simp add: cl_ok_def)
qed

theorem client_pool_bounded_witness:
  "\<exists>y. cl_reach (cl_started 2 zero_config) y \<and> cl_sessions (cy_client y) = [0] \<and>
     sessionCount (cy_client y) \<le> 2 \<and> cy_idle y = 1"
proof -
  let ?y = "session_up [] (cl_started 2 zero_config)"
  have "cl_step (cl_started 2 zero_config) ?y" by (rule up) (simp add: cl_started_def)
  then have r: "cl_reach (cl_started 2 zero_config) ?y" by (rule cl_more [OF cl_start])
  have "cl_sessions (cy_client ?y) = [0]" "cy_idle ?y = 1"
    by (simp_all add: session_up_def cl_started_def cl_addSession_def upd_clientSession_def NewClient_def Let_def)
  with client_pool_bounded [OF r] r show ?thesis by blast
qed

end
