(* ===== verification/Udp.thy ===== *)
theory Udp
  imports ServerSteps
begin

text \<open>
  server.go: \<open>startReverseUDP\<close>. One loop receives datagrams and keeps a map from client addresses
  to peers, each a stream of a session with a reader goroutine of its own; a ticker evicts idle peers.
  The operations each hold the mutex, so a state and its atomic steps model them; a reader that saw
  an error still has its cleanup to do, which is a step of its own.
\<close>

section \<open>State and operations\<close>

record udpPeer =
  up_stream :: conn
  up_ss :: nat
  up_lastSeen :: int

record udp =
  ud_srv :: server
  ud_peers :: "(string \<times> nat) list"
  ud_heap :: "nat \<Rightarrow> udpPeer"
  ud_next :: nat
  ud_readers :: "(nat \<times> string) list"
  ud_sent :: "(string \<times> bytes) list"

definition upd_peer :: "nat \<Rightarrow> (udpPeer \<Rightarrow> udpPeer) \<Rightarrow> udp \<Rightarrow> udp" where
  "upd_peer p f u = u\<lparr>ud_heap := (ud_heap u)(p := f (ud_heap u p))\<rparr>"

text \<open>\<open>p.lastSeen = now; p.stream.Write(buf[:n])\<close>; the error of the write is dropped.\<close>

definition udp_forward :: "nat \<Rightarrow> bytes \<Rightarrow> int \<Rightarrow> udp \<Rightarrow> udp" where
  "udp_forward p payload now =
     upd_peer p (\<lambda>x. x\<lparr>up_lastSeen := now, up_stream := snd (conn_write (up_stream x) payload)\<rparr>)"

text \<open>Before the loop: the bind address is resolved and listened on, or the mapping is given up.\<close>

definition startReverseUDP :: "gerror option \<Rightarrow> gerror option \<Rightarrow> server \<Rightarrow> udp option" where
  "startReverseUDP resolve_err listen_err s =
     (if resolve_err \<noteq> None \<or> listen_err \<noteq> None then None
      else Some \<lparr>ud_srv = s, ud_peers = [], ud_heap = (\<lambda>_. \<lparr>up_stream = new_conn [], up_ss = 0, up_lastSeen = 0\<rparr>),
        ud_next = 0, ud_readers = [], ud_sent = []\<rparr>)"

text \<open>A datagram from the address \<open>key\<close>; an empty one is skipped, as a failed read is.\<close>

definition udp_receive :: "string \<Rightarrow> string \<Rightarrow> bytes \<Rightarrow> int \<Rightarrow> udp \<Rightarrow> udp outcome" where
  "udp_receive target key payload now u =
     (if payload = [] then Return u
      else case map_of (ud_peers u) key of
          Some p \<Rightarrow> Return (udp_forward p payload now u)
        | None \<Rightarrow>
            obind (openReverseStream (ud_srv u) (''udp://'' @ target)) (\<lambda>(r, s).
              case r of
                Inl e \<Rightarrow> Return (u\<lparr>ud_srv := s\<rparr>)
              | Inr (stream, ss) \<Rightarrow>
                  let p = ud_next u;
                      u = u\<lparr>ud_srv := s, ud_next := Suc p, ud_peers := (key, p) # ud_peers u,
                            ud_heap := (ud_heap u)(p := \<lparr>up_stream = stream, up_ss = ss, up_lastSeen = now\<rparr>),
                            ud_readers := (p, key) # ud_readers u\<rparr>
                  in Return (udp_forward p payload now u)))"

definition udp_expired :: "int \<Rightarrow> int \<Rightarrow> udp \<Rightarrow> nat \<Rightarrow> bool" where
  "udp_expired now timeout u p \<longleftrightarrow> now - up_lastSeen (ud_heap u p) > timeout"

text \<open>One tick of the cleanup: expired peers are closed and deleted.\<close>

definition udp_tick :: "int \<Rightarrow> int \<Rightarrow> udp \<Rightarrow> udp" where
  "udp_tick now timeout u =
     u\<lparr>ud_peers := filter (\<lambda>(k, p). \<not> udp_expired now timeout u p) (ud_peers u),
       ud_heap := (\<lambda>p. if p \<in> snd ` set (ud_peers u) \<and> udp_expired now timeout u p
         then (ud_heap u p)\<lparr>up_stream := conn_close (up_stream (ud_heap u p))\<rparr> else ud_heap u p)\<rparr>"

text \<open>A reader gets bytes from its stream, and a reader whose stream failed cleans up and ends.\<close>

definition udp_reply :: "nat \<Rightarrow> string \<Rightarrow> bytes \<Rightarrow> int \<Rightarrow> udp \<Rightarrow> udp" where
  "udp_reply p raddr bs now u = upd_peer p (\<lambda>x. x\<lparr>up_lastSeen := now\<rparr>) (u\<lparr>ud_sent := ud_sent u @ [(raddr, bs)]\<rparr>)"

definition udp_reader_end :: "nat \<Rightarrow> string \<Rightarrow> udp \<Rightarrow> udp" where
  "udp_reader_end p raddr u =
     u\<lparr>ud_peers := filter (\<lambda>(k, q). k \<noteq> raddr) (ud_peers u), ud_readers := remove1 (p, raddr) (ud_readers u),
       ud_srv := addStreams (up_ss (ud_heap u p)) (-1) (ud_srv u)\<rparr>"

inductive udp_step :: "string \<Rightarrow> int \<Rightarrow> udp \<Rightarrow> udp \<Rightarrow> bool" for target timeout where
  datagram: "udp_receive target key payload now u = Return v \<Longrightarrow> udp_step target timeout u v"
| evict: "udp_step target timeout u (udp_tick now timeout u)"
| answer: "(p, raddr) \<in> set (ud_readers u) \<Longrightarrow> udp_step target timeout u (udp_reply p raddr bs now u)"
| reader_end: "(p, raddr) \<in> set (ud_readers u) \<Longrightarrow> udp_step target timeout u (udp_reader_end p raddr u)"

inductive udp_reach :: "string \<Rightarrow> int \<Rightarrow> udp \<Rightarrow> udp \<Rightarrow> bool" for target timeout where
  udp_start: "udp_reach target timeout u u"
| udp_more: "udp_reach target timeout u v \<Longrightarrow> udp_step target timeout v x \<Longrightarrow> udp_reach target timeout u x"

section \<open>The invariant\<close>

definition udp_ok :: "(nat \<Rightarrow> int) \<Rightarrow> udp \<Rightarrow> bool" where
  "udp_ok base u \<longleftrightarrow>
     (\<forall>(k, p) \<in> set (ud_peers u). (p, k) \<in> set (ud_readers u)) \<and> distinct (map fst (ud_peers u)) \<and>
     distinct (map fst (ud_readers u)) \<and> (\<forall>(p, k) \<in> set (ud_readers u). p < ud_next u) \<and>
     (\<forall>x. counts (ud_srv u) x = i64 (base x + int (count_list (map (\<lambda>(p, k). up_ss (ud_heap u p)) (ud_readers u)) x)))"

lemma up_ss_forward [simp]:
  "up_ss (ud_heap (udp_forward p b now u) q) = up_ss (ud_heap u q)"
  "ud_peers (udp_forward p b now u) = ud_peers u" "ud_readers (udp_forward p b now u) = ud_readers u"
  "ud_next (udp_forward p b now u) = ud_next u" "ud_srv (udp_forward p b now u) = ud_srv u"
  by (simp_all add: udp_forward_def upd_peer_def)

lemma udp_ok_cong:
  assumes "udp_ok base u" and "ud_readers v = ud_readers u" "ud_next v = ud_next u"
    and "counts (ud_srv v) = counts (ud_srv u)" and "\<And>p. up_ss (ud_heap v p) = up_ss (ud_heap u p)"
    and P: "ud_peers v = filter P (ud_peers u)"
  shows "udp_ok base v"
proof -
  have "distinct (map fst (ud_peers u)) \<Longrightarrow> distinct (map fst (filter P (ud_peers u)))"
    by (rule distinct_map_filter)
  with assms show ?thesis by (auto simp: udp_ok_def)
qed

lemma udp_ok_forward: "udp_ok base u \<Longrightarrow> udp_ok base (udp_forward p b now u)"
  by (rule udp_ok_cong [where P = "\<lambda>_. True"]) simp_all

lemma udp_receive_ok:
  assumes "udp_receive target key payload now u = Return v" and "udp_ok base u"
  shows "udp_ok base v"
proof (cases "payload = [] \<or> (\<exists>p. map_of (ud_peers u) key = Some p)")
  case True
  with assms(1) have "v = u \<or> (\<exists>p. v = udp_forward p payload now u)"
    by (auto simp: udp_receive_def split: if_splits)
  then show ?thesis
  proof
    assume "\<exists>p. v = udp_forward p payload now u"
    then show ?thesis using udp_ok_forward [OF assms(2)] by blast
  qed (use assms(2) in simp)
next
  case False
  then have n: "payload \<noteq> []" "map_of (ud_peers u) key = None" by auto
  with assms(1) obtain r s where o: "openReverseStream (ud_srv u) (''udp://'' @ target) = Return (r, s)"
    by (auto simp: udp_receive_def outcome_simps)
  note p = openReverseStream_pool [OF o]
  show ?thesis
  proof (cases r)
    case (Inl e)
    with assms(1) n o have "v = u\<lparr>ud_srv := s\<rparr>" by (simp add: udp_receive_def)
    with p Inl show ?thesis by (intro udp_ok_cong [OF assms(2), where P = "\<lambda>_. True"]) auto
  next
    case (Inr x)
    obtain stream ss where x: "x = (stream, ss)" by (metis prod.collapse)
    let ?p = "ud_next u"
    let ?u = "u\<lparr>ud_srv := s, ud_next := Suc ?p, ud_peers := (key, ?p) # ud_peers u,
        ud_heap := (ud_heap u)(?p := \<lparr>up_stream = stream, up_ss = ss, up_lastSeen = now\<rparr>),
        ud_readers := (?p, key) # ud_readers u\<rparr>"
    have v: "v = udp_forward ?p payload now ?u"
      using assms(1) n o Inr x by (simp add: udp_receive_def Let_def)
    have fresh: "q \<noteq> ?p" if "(q, k) \<in> set (ud_readers u)" for q k
      using assms(2) that by (fastforce simp: udp_ok_def)
    then have m: "map (\<lambda>(q, k). up_ss (ud_heap ?u q)) (ud_readers ?u) =
        ss # map (\<lambda>(q, k). up_ss (ud_heap u q)) (ud_readers u)"
      by auto
    have c: "counts s = (counts (ud_srv u))(ss := i64 (counts (ud_srv u) ss + 1))" using p Inr x by blast
    have "udp_ok base ?u"
      unfolding udp_ok_def m
    proof (intro conjI)
      show "\<forall>(k, p) \<in> set (ud_peers ?u). (p, k) \<in> set (ud_readers ?u)"
        using assms(2) by (fastforce simp: udp_ok_def)
      show "distinct (map fst (ud_peers ?u))"
        using assms(2) n(2) by (auto simp: udp_ok_def map_of_eq_None_iff)
      show "distinct (map fst (ud_readers ?u))" using assms(2) fresh by (fastforce simp: udp_ok_def)
      show "\<forall>(p, k) \<in> set (ud_readers ?u). p < ud_next ?u" using assms(2) by (fastforce simp: udp_ok_def)
      show "\<forall>x. counts (ud_srv ?u) x = i64 (base x + int (count_list (ss # map (\<lambda>(p, k). up_ss (ud_heap u p)) (ud_readers u)) x))"
        using assms(2) c by (simp add: udp_ok_def add_ac)
    qed
    then show ?thesis unfolding v by (rule udp_ok_forward)
  qed
qed

lemma udp_tick_ok: "udp_ok base u \<Longrightarrow> udp_ok base (udp_tick now timeout u)"
  by (rule udp_ok_cong [where P = "\<lambda>(k, p). \<not> udp_expired now timeout u p"]) (simp_all add: udp_tick_def)

lemma udp_reply_ok: "udp_ok base u \<Longrightarrow> udp_ok base (udp_reply p raddr bs now u)"
  by (rule udp_ok_cong [where P = "\<lambda>_. True"]) (simp_all add: udp_reply_def upd_peer_def)

lemma count_map_remove1:
  "x \<in> set xs \<Longrightarrow> int (count_list (map f (remove1 x xs)) y) = int (count_list (map f xs) y) - (if f x = y then 1 else 0)"
  by (induction xs) auto

lemma udp_reader_end_ok:
  assumes "udp_ok base u" and "(p, raddr) \<in> set (ud_readers u)"
  shows "udp_ok base (udp_reader_end p raddr u)"
proof -
  let ?v = "udp_reader_end p raddr u" and ?f = "\<lambda>(p, k). up_ss (ud_heap u p)"
  have sel: "ud_peers ?v = filter (\<lambda>(k, q). k \<noteq> raddr) (ud_peers u)" "ud_readers ?v = remove1 (p, raddr) (ud_readers u)"
      "ud_next ?v = ud_next u" "ud_heap ?v = ud_heap u"
      "counts (ud_srv ?v) = (counts (ud_srv u))(up_ss (ud_heap u p) := i64 (counts (ud_srv u) (up_ss (ud_heap u p)) - 1))"
    by (simp_all add: udp_reader_end_def)
  show ?thesis
    unfolding udp_ok_def sel
  proof (intro conjI)
    show "\<forall>(k, q) \<in> set (filter (\<lambda>(k, q). k \<noteq> raddr) (ud_peers u)). (q, k) \<in> set (remove1 (p, raddr) (ud_readers u))"
      using assms(1) by (auto simp: udp_ok_def in_set_remove1)
    show "distinct (map fst (filter (\<lambda>(k, q). k \<noteq> raddr) (ud_peers u)))"
      using assms(1) by (intro distinct_map_filter) (simp add: udp_ok_def)
    show "distinct (map fst (remove1 (p, raddr) (ud_readers u)))"
      using assms(1) by (auto simp: udp_ok_def distinct_map intro: inj_on_diff)
    show "\<forall>(q, k) \<in> set (remove1 (p, raddr) (ud_readers u)). q < ud_next u"
      using assms(1) set_remove1_subset [of "(p, raddr)" "ud_readers u"] by (auto simp: udp_ok_def)
    show "\<forall>x. ((counts (ud_srv u))(up_ss (ud_heap u p) := i64 (counts (ud_srv u) (up_ss (ud_heap u p)) - 1))) x =
        i64 (base x + int (count_list (map ?f (remove1 (p, raddr) (ud_readers u))) x))"
      using assms by (simp add: count_map_remove1 udp_ok_def add_diff_eq)
  qed
qed

lemma udp_step_ok: "udp_step target timeout u v \<Longrightarrow> udp_ok base u \<Longrightarrow> udp_ok base v"
  by (induction rule: udp_step.induct) (auto intro: udp_receive_ok udp_tick_ok udp_reply_ok udp_reader_end_ok)

lemma udp_reach_ok: "udp_reach target timeout u v \<Longrightarrow> udp_ok base u \<Longrightarrow> udp_ok base v"
  by (induction rule: udp_reach.induct) (auto intro: udp_step_ok)

text \<open>
  C16. However datagrams, answers, evictions and ending readers interleave, every address in the peer
  map has exactly one peer, that peer's reader goroutine is running and answers to that address, and
  each session's stream counter has grown by exactly the number of running readers on it, as a 64-bit
  number: it wraps only when that sum does not fit.
\<close>

theorem udp_peers_served:
  assumes "startReverseUDP re le s = Some u" and "udp_reach target timeout u v"
  shows "distinct (map fst (ud_peers v)) \<and>
    (\<forall>k p. map_of (ud_peers v) k = Some p \<longrightarrow> (p, k) \<in> set (ud_readers v)) \<and>
    (\<forall>x. counts (ud_srv v) x = i64 (counts s x +
      int (count_list (map (\<lambda>(p, k). up_ss (ud_heap v p)) (ud_readers v)) x))) \<and>
    (\<forall>x. counts s x + int (count_list (map (\<lambda>(p, k). up_ss (ud_heap v p)) (ud_readers v)) x) < 2 ^ 63 \<longrightarrow>
      counts (ud_srv v) x = counts s x +
        int (count_list (map (\<lambda>(p, k). up_ss (ud_heap v p)) (ud_readers v)) x))"
proof -
  have "udp_ok (counts s) u" using assms(1) by (auto simp: udp_ok_def startReverseUDP_def split: if_splits)
  note ok = udp_reach_ok [OF assms(2) this]
  have exact: "i64 (counts s x + int n) = counts s x + int n" if "counts s x + int n < 2 ^ 63" for x n
    using that sint_ge [of "ss_streams (sv_heap s x)"] by (intro i64_small) (simp_all add: counts_def)
  have "(p, k) \<in> set (ud_readers v)" if "map_of (ud_peers v) k = Some p" for k p
    using ok map_of_SomeD [OF that] by (fastforce simp: udp_ok_def)
  with ok exact show ?thesis by (simp add: udp_ok_def)
qed

definition demo_udp :: udp where
  "demo_udp = \<lparr>ud_srv = demo_server 9 0, ud_peers = [], ud_heap = (\<lambda>_. \<lparr>up_stream = new_conn [], up_ss = 0, up_lastSeen = 0\<rparr>),
     ud_next = 0, ud_readers = [], ud_sent = []\<rparr>"

text \<open>One datagram from a new address on a server that opens the stream.\<close>

lemma udp_receive_new:
  assumes "payload \<noteq> []" and "map_of (ud_peers u) key = None"
    and "openReverseStream (ud_srv u) (''udp://'' @ target) = Return (Inr (stream, ss), s)"
  shows "\<exists>v. udp_receive target key payload now u = Return v \<and> ud_peers v = (key, ud_next u) # ud_peers u \<and>
    ud_readers v = (ud_next u, key) # ud_readers u \<and> ud_next v = Suc (ud_next u) \<and> ud_srv v = s \<and>
    up_lastSeen (ud_heap v (ud_next u)) = now \<and> up_ss (ud_heap v (ud_next u)) = ss \<and>
    up_stream (ud_heap v (ud_next u)) = snd (conn_write stream payload) \<and>
    (\<forall>q. q \<noteq> ud_next u \<longrightarrow> ud_heap v q = ud_heap u q)"
  using assms by (simp add: udp_receive_def udp_forward_def upd_peer_def Let_def)

lemma demo_udp_opens: "\<exists>stream x s. openReverseStream (demo_server 9 0) (''udp://'' @ ''h:1'') = Return (Inr (stream, x), s)"
proof -
  have w: "wanted (demo_server 9 0) = Some 1"
    by (simp add: wanted_def try_order_def demo_server_def usable_def demo_session_def leastLoadedSession_def
        rotate1_def)
  have i: "idx_ok (demo_server 9 0)" by (simp add: idx_ok_def demo_server_def)
  show ?thesis
    using openReverseStream_eq [OF i, of "''udp://h:1''"] w
    by (simp add: demo_server_def bump_def smux_OpenStream_def demo_session_def reverse_header_def
        conn_write_def new_conn_def Let_def)
qed

theorem udp_peers_served_witness:
  "\<exists>v. udp_reach ''h:1'' 120 demo_udp v \<and> map_of (ud_peers v) ''a:5'' = Some 0 \<and> (0, ''a:5'') \<in> set (ud_readers v)"
proof -
  obtain stream x s where o: "openReverseStream (ud_srv demo_udp) (''udp://'' @ ''h:1'') = Return (Inr (stream, x), s)"
    using demo_udp_opens by (auto simp: demo_udp_def)
  obtain v where v: "udp_receive ''h:1'' ''a:5'' [7] 0 demo_udp = Return v" "ud_peers v = [(''a:5'', 0)]"
    using udp_receive_new [OF _ _ o, of "[7]" "''a:5''" 0] by (auto simp: demo_udp_def)
  have r: "udp_reach ''h:1'' 120 demo_udp v"
    by (rule udp_more [OF udp_start]) (rule datagram [OF v(1)])
  have "map_of (ud_peers v) ''a:5'' = Some 0" by (simp add: v(2))
  moreover have "startReverseUDP None None (demo_server 9 0) = Some demo_udp"
    by (simp add: startReverseUDP_def demo_udp_def)
  ultimately show ?thesis using udp_peers_served [OF _ r] r by blast
qed

section \<open>What the map does not prevent\<close>

text \<open>
  An evicted peer's reader deletes its address from the map when it ends, whoever is there by
  then: after a new datagram of the same address the new peer is lost from the map although its
  stream is open and its reader runs, so the next datagram opens yet another stream.
\<close>

theorem late_cleanup_drops_new_peer:
  assumes "udp_ok base u" and "map_of (ud_peers u) k = Some p" and "udp_expired now timeout u p"
    and "openReverseStream (ud_srv u) (''udp://'' @ target) = Return (Inr (stream, ss), s)" and "payload \<noteq> []"
  shows "\<exists>v. udp_reach target timeout u v \<and> map_of (ud_peers v) k = None \<and>
    (ud_next u, k) \<in> set (ud_readers v) \<and>
    up_stream (ud_heap v (ud_next u)) = snd (conn_write stream payload)"
proof -
  have pk: "(k, p) \<in> set (ud_peers u)" using assms(2) by (rule map_of_SomeD)
  then have rd: "(p, k) \<in> set (ud_readers u)" and lt: "p < ud_next u"
    using assms(1) by (auto simp: udp_ok_def)
  let ?t = "udp_tick now timeout u"
  have t: "ud_srv ?t = ud_srv u" "ud_next ?t = ud_next u" "ud_readers ?t = ud_readers u"
    by (simp_all add: udp_tick_def)
  have "q = p" if "(k, q) \<in> set (ud_peers u)" for q
    using that assms(1,2) by (auto simp: udp_ok_def map_of_eq_Some_iff)
  then have n: "map_of (ud_peers ?t) k = None"
    using assms(3) by (auto simp: udp_tick_def map_of_eq_None_iff)
  obtain v where v: "udp_receive target k payload now ?t = Return v" "ud_peers v = (k, ud_next u) # ud_peers ?t"
      "ud_readers v = (ud_next u, k) # ud_readers u"
      "up_stream (ud_heap v (ud_next u)) = snd (conn_write stream payload)"
    using udp_receive_new [OF assms(5) n, of target stream ss s now] assms(4) t by auto
  let ?w = "udp_reader_end p k v"
  have "udp_step target timeout u ?t" by (rule evict)
  moreover have "udp_step target timeout ?t v" by (rule datagram [OF v(1)])
  moreover have "udp_step target timeout v ?w" by (rule reader_end) (simp add: v(3) rd)
  ultimately have "udp_reach target timeout u ?w" by (meson udp_start udp_more)
  moreover have "map_of (ud_peers ?w) k = None" by (auto simp: udp_reader_end_def map_of_eq_None_iff)
  moreover have "(ud_next u, k) \<in> set (ud_readers ?w)" using lt v(3) by (simp add: udp_reader_end_def)
  moreover have "up_stream (ud_heap ?w (ud_next u)) = snd (conn_write stream payload)"
    using v(4) by (simp add: udp_reader_end_def)
  ultimately show ?thesis by blast
qed

theorem late_cleanup_drops_new_peer_witness:
  "\<exists>v. udp_reach ''h:1'' 120 (demo_udp\<lparr>ud_peers := [(''a:5'', 0)], ud_next := 1, ud_readers := [(0, ''a:5'')]\<rparr>) v \<and>
     map_of (ud_peers v) ''a:5'' = None \<and> (1, ''a:5'') \<in> set (ud_readers v)"
proof -
  let ?u = "demo_udp\<lparr>ud_peers := [(''a:5'', 0)], ud_next := 1, ud_readers := [(0, ''a:5'')]\<rparr>"
  obtain stream x s where o: "openReverseStream (ud_srv ?u) (''udp://'' @ ''h:1'') = Return (Inr (stream, x), s)"
    using demo_udp_opens by (auto simp: demo_udp_def)
  have "udp_ok (\<lambda>x. counts (ud_srv ?u) x - (if x = 0 then 1 else 0)) ?u"
    by (simp add: udp_ok_def demo_udp_def)
  moreover have "map_of (ud_peers ?u) ''a:5'' = Some 0" by simp
  moreover have "udp_expired 200 120 ?u 0" by (simp add: udp_expired_def demo_udp_def)
  ultimately show ?thesis
    using late_cleanup_drops_new_peer [of _ ?u "''a:5''" 0 200 120 "''h:1''" stream x s "[7]"] o by auto
qed

text \<open>
  The tunnel does not keep the boundaries of datagrams: two datagrams of a client put the same
  bytes on its stream as one that is both of them.
\<close>

theorem udp_datagrams_merge:
  assumes "map_of (ud_peers u) key = Some p" and "write_ok (up_stream (ud_heap u p))" and "a \<noteq> []" "b \<noteq> []"
  shows "\<exists>u1 u2 v. udp_receive target key a t1 u = Return u1 \<and> udp_receive target key b t2 u1 = Return u2 \<and>
    udp_receive target key (a @ b) t u = Return v \<and>
    tx (up_stream (ud_heap u2 p)) = tx (up_stream (ud_heap u p)) @ a @ b \<and>
    tx (up_stream (ud_heap v p)) = tx (up_stream (ud_heap u2 p))"
proof -
  have f: "up_stream (ud_heap (udp_forward p d now x) p) = snd (conn_write (up_stream (ud_heap x p)) d)" for d now x
    by (simp add: udp_forward_def upd_peer_def)
  obtain c1 where c1: "conn_write (up_stream (ud_heap u p)) a = ((length a, None), c1)" "write_ok c1"
      "tx c1 = tx (up_stream (ud_heap u p)) @ a"
    using conn_write_ok [OF assms(2), of a] by auto
  obtain c2 where c2: "conn_write c1 b = ((length b, None), c2)" "tx c2 = tx c1 @ b"
    using conn_write_ok [OF c1(2), of b] by auto
  obtain c where c: "conn_write (up_stream (ud_heap u p)) (a @ b) = ((length (a @ b), None), c)"
      "tx c = tx (up_stream (ud_heap u p)) @ a @ b"
    using conn_write_ok [OF assms(2), of "a @ b"] by auto
  have r: "udp_receive target key d now x = Return (udp_forward p d now x)"
    if "map_of (ud_peers x) key = Some p" "d \<noteq> []" for d now x
    using that by (simp add: udp_receive_def)
  show ?thesis
    using r [OF assms(1,3)] r [OF assms(1), of "a @ b"] r [of "udp_forward p a t1 u" b t2] assms c1 c2 c
    by (simp add: f)
qed

theorem udp_datagrams_merge_witness:
  "\<exists>u1 u2. udp_receive ''h:1'' ''a:5'' [1, 2] 3 (demo_udp\<lparr>ud_peers := [(''a:5'', 0)]\<rparr>) = Return u1 \<and>
     udp_receive ''h:1'' ''a:5'' [3] 4 u1 = Return u2 \<and> tx (up_stream (ud_heap u2 0)) = [1, 2, 3]"
proof -
  have "write_ok (up_stream (ud_heap (demo_udp\<lparr>ud_peers := [(''a:5'', 0)]\<rparr>) 0))"
    by (simp add: demo_udp_def write_ok_def new_conn_def)
  from udp_datagrams_merge [OF _ this, of "''a:5''" "[1, 2]" "[3]" "''h:1''" 3 4 9] show ?thesis
    by (auto simp: demo_udp_def)
qed

end
