(* ===== verification/Relay.thy ===== *)
theory Relay
  imports Conn "HOL-Library.Sublist"
begin

text \<open>
  server.go: \<open>relay\<close>, used by both ends to join a stream and a connection. Two goroutines copy, one
  in each direction; the caller waits for the first of them to finish, closes both ends and waits for
  the second. The three run interleaved: a step relation on both connections and the three program
  counters. The peers at the far ends take steps of their own. What arrives on a connection is all it
  will ever deliver, in any timing; a read of an empty connection waits until its peer has ended or
  the connection is closed, and a write waits while its peer takes nothing. No deadline is set on
  either connection, so nothing else ends such a wait.
\<close>

section \<open>Goroutines and steps\<close>

text \<open>A copying goroutine is about to read, holds a chunk to write, or has signalled that it is done.\<close>

datatype copier = Reading | Writing bytes | Finished

datatype waiter = WaitFirst | CloseFirst | CloseSecond | WaitSecond | Returned

text \<open>The caller's program counter only moves on; its stages form a linear order.\<close>

fun waiter_pc :: "waiter \<Rightarrow> nat" where
  "waiter_pc WaitFirst = 0"
| "waiter_pc CloseFirst = 1"
| "waiter_pc CloseSecond = 2"
| "waiter_pc WaitSecond = 3"
| "waiter_pc Returned = 4"

lemma waiter_pc_eq: "waiter_pc x = waiter_pc y \<Longrightarrow> x = y"
  by (cases x; cases y) simp_all

instantiation waiter :: linorder
begin

definition less_eq_waiter :: "waiter \<Rightarrow> waiter \<Rightarrow> bool" where
  "less_eq_waiter x y \<longleftrightarrow> waiter_pc x \<le> waiter_pc y"

definition less_waiter :: "waiter \<Rightarrow> waiter \<Rightarrow> bool" where
  "less_waiter x y \<longleftrightarrow> waiter_pc x < waiter_pc y"

instance
  by standard (auto simp: less_eq_waiter_def less_waiter_def intro: waiter_pc_eq)

end

lemmas waiter_order = less_eq_waiter_def less_waiter_def

text \<open>The far end of a connection: it has ended the stream, or it takes no bytes for now.\<close>

record peer =
  pr_ended :: bool
  pr_stalled :: bool

record relay_state =
  rl_a :: conn
  rl_b :: conn
  rl_pa :: peer
  rl_pb :: peer
  rl_ab :: copier
  rl_ba :: copier
  rl_main :: waiter

definition relay_start :: "conn \<Rightarrow> conn \<Rightarrow> relay_state" where
  "relay_start a b = \<lparr>rl_a = a, rl_b = b, rl_pa = \<lparr>pr_ended = False, pr_stalled = False\<rparr>,
     rl_pb = \<lparr>pr_ended = False, pr_stalled = False\<rparr>, rl_ab = Reading, rl_ba = Reading, rl_main = WaitFirst\<rparr>"

definition copy_size :: nat where
  "copy_size = 262144"

text \<open>
  One half of an iteration of \<open>io.CopyBuffer(dst, src, buf)\<close>: a read of at most 256 KB, or the write
  of what was read. Any error, the end of the input, or a closed connection ends the copy. This is
  what a call does when it returns; \<open>waits\<close> says when it does not return yet.
\<close>

definition copy_step :: "copier \<Rightarrow> conn \<Rightarrow> conn \<Rightarrow> copier \<times> conn \<times> conn" where
  "copy_step k dst src =
     (case k of
       Reading \<Rightarrow>
         if closed src then (Finished, dst, src)
         else (case conn_read copy_size src of
             ((bs, None), src) \<Rightarrow> (Writing bs, dst, src)
           | ((_, Some _), src) \<Rightarrow> (Finished, dst, src))
     | Writing bs \<Rightarrow>
         if closed dst then (Finished, dst, src)
         else (case conn_write dst bs of
             ((_, None), dst) \<Rightarrow> (Reading, dst, src)
           | ((_, Some _), dst) \<Rightarrow> (Finished, dst, src))
     | Finished \<Rightarrow> (Finished, dst, src))"

definition waits :: "copier \<Rightarrow> peer \<Rightarrow> conn \<Rightarrow> peer \<Rightarrow> conn \<Rightarrow> bool" where
  "waits k pd dst ps src \<longleftrightarrow>
     (case k of
       Reading \<Rightarrow> \<not> closed src \<and> rx src = [] \<and> \<not> pr_ended ps
     | Writing bs \<Rightarrow> \<not> closed dst \<and> pr_stalled pd
     | Finished \<Rightarrow> False)"

inductive relay_step :: "relay_state \<Rightarrow> relay_state \<Rightarrow> bool" where
  copy_ab: "rl_ab s \<noteq> Finished \<Longrightarrow> \<not> waits (rl_ab s) (rl_pa s) (rl_a s) (rl_pb s) (rl_b s) \<Longrightarrow>
    copy_step (rl_ab s) (rl_a s) (rl_b s) = (k, a, b) \<Longrightarrow>
    relay_step s (s\<lparr>rl_ab := k, rl_a := a, rl_b := b\<rparr>)"
| copy_ba: "rl_ba s \<noteq> Finished \<Longrightarrow> \<not> waits (rl_ba s) (rl_pb s) (rl_b s) (rl_pa s) (rl_a s) \<Longrightarrow>
    copy_step (rl_ba s) (rl_b s) (rl_a s) = (k, b, a) \<Longrightarrow>
    relay_step s (s\<lparr>rl_ba := k, rl_a := a, rl_b := b\<rparr>)"
| first_done: "rl_main s = WaitFirst \<Longrightarrow> rl_ab s = Finished \<or> rl_ba s = Finished \<Longrightarrow>
    relay_step s (s\<lparr>rl_main := CloseFirst\<rparr>)"
| close_a: "rl_main s = CloseFirst \<Longrightarrow>
    relay_step s (s\<lparr>rl_main := CloseSecond, rl_a := conn_close (rl_a s)\<rparr>)"
| close_b: "rl_main s = CloseSecond \<Longrightarrow>
    relay_step s (s\<lparr>rl_main := WaitSecond, rl_b := conn_close (rl_b s)\<rparr>)"
| second_done: "rl_main s = WaitSecond \<Longrightarrow> rl_ab s = Finished \<Longrightarrow> rl_ba s = Finished \<Longrightarrow>
    relay_step s (s\<lparr>rl_main := Returned\<rparr>)"

inductive_cases relay_stepE: "relay_step s t"

text \<open>The peers: a stream that was ended stays ended, everything else is up to them.\<close>

inductive peer_step :: "relay_state \<Rightarrow> relay_state \<Rightarrow> bool" where
  peer_a: "(pr_ended (rl_pa s) \<Longrightarrow> pr_ended p) \<Longrightarrow> peer_step s (s\<lparr>rl_pa := p\<rparr>)"
| peer_b: "(pr_ended (rl_pb s) \<Longrightarrow> pr_ended p) \<Longrightarrow> peer_step s (s\<lparr>rl_pb := p\<rparr>)"

text \<open>All runs, and the runs in which the peers do nothing.\<close>

inductive relay_reach :: "relay_state \<Rightarrow> relay_state \<Rightarrow> bool" where
  relay_refl: "relay_reach s s"
| relay_more: "relay_reach s t \<Longrightarrow> relay_step t u \<Longrightarrow> relay_reach s u"
| relay_peer: "relay_reach s t \<Longrightarrow> peer_step t u \<Longrightarrow> relay_reach s u"

inductive relay_run :: "relay_state \<Rightarrow> relay_state \<Rightarrow> bool" where
  run_refl: "relay_run s s"
| run_step: "relay_step s t \<Longrightarrow> relay_run t u \<Longrightarrow> relay_run s u"

lemma relay_reach_step: "relay_step s t \<Longrightarrow> relay_reach t u \<Longrightarrow> relay_reach s u"
  by (rotate_tac 1, induction rule: relay_reach.induct) (auto intro: relay_reach.intros)

lemma relay_reach_run: "relay_run t u \<Longrightarrow> relay_reach s t \<Longrightarrow> relay_reach s u"
  by (induction rule: relay_run.induct) (auto intro: relay_more)

section \<open>Each direction delivers a prefix\<close>

text \<open>
  \<open>copied base inp k dst src\<close>: of the input \<open>inp\<close> a prefix was written behind \<open>base\<close>; what is not
  written is held or still to be read, unless the copy ended early.
\<close>

definition copied :: "bytes \<Rightarrow> bytes \<Rightarrow> copier \<Rightarrow> bytes \<Rightarrow> bytes \<Rightarrow> bool" where
  "copied base inp k out rest \<longleftrightarrow>
     (\<exists>d. out = base @ d \<and> (case k of
       Reading \<Rightarrow> inp = d @ rest
     | Writing bs \<Rightarrow> inp = d @ bs @ rest
     | Finished \<Rightarrow> prefix d inp))"

lemma copy_step_copied:
  assumes "copied base inp k (tx dst) (rx src)" and "k \<noteq> Finished"
    and "copy_step k dst src = (k', dst', src')"
  shows "copied base inp k' (tx dst') (rx src') \<and> rx dst' = rx dst \<and> tx src' = tx src \<and>
    closed dst' = closed dst \<and> closed src' = closed src"
proof (cases k)
  case Reading
  show ?thesis
  proof (cases "closed src")
    case True
    with assms Reading show ?thesis by (auto simp: copy_step_def copied_def)
  next
    case False
    obtain bs e c where r: "conn_read copy_size src = ((bs, e), c)" by (metis prod.collapse)
    show ?thesis
    proof (cases e)
      case None
      with conn_read_None [OF r [unfolded None]] r False Reading assms show ?thesis
        by (auto simp: copy_step_def copied_def)
    next
      case (Some x)
      with conn_read_Some [OF r [unfolded Some]] r False Reading assms show ?thesis
        by (auto simp: copy_step_def copied_def)
    qed
  qed
next
  case (Writing bs)
  show ?thesis
  proof (cases "closed dst")
    case True
    with assms Writing show ?thesis by (auto simp: copy_step_def copied_def)
  next
    case False
    obtain n e c where w: "conn_write dst bs = ((n, e), c)" by (metis prod.collapse)
    show ?thesis
    proof (cases e)
      case None
      with conn_write_None [OF w [unfolded None]] w False Writing assms show ?thesis
        by (auto simp: copy_step_def copied_def)
    next
      case (Some x)
      then obtain m where "tx c = tx dst @ take m bs" "rx c = rx dst" "closed c = closed dst"
        using w by (auto simp: conn_write_def split: list.splits option.splits)
      with w Some False Writing assms show ?thesis
        by (auto simp: copy_step_def copied_def prefix_def) (metis append.assoc append_take_drop_id)
    qed
  qed
qed (use assms in simp)

definition relay_ok :: "conn \<Rightarrow> conn \<Rightarrow> relay_state \<Rightarrow> bool" where
  "relay_ok a b s \<longleftrightarrow>
     copied (tx a) (rx b) (rl_ab s) (tx (rl_a s)) (rx (rl_b s)) \<and>
     copied (tx b) (rx a) (rl_ba s) (tx (rl_b s)) (rx (rl_a s)) \<and>
     (CloseSecond \<le> rl_main s \<longrightarrow> closed (rl_a s)) \<and> (WaitSecond \<le> rl_main s \<longrightarrow> closed (rl_b s)) \<and>
     (WaitFirst < rl_main s \<longrightarrow> rl_ab s = Finished \<or> rl_ba s = Finished) \<and>
     (rl_main s = Returned \<longrightarrow> rl_ab s = Finished \<and> rl_ba s = Finished)"

lemma rx_tx_close [simp]: "rx (conn_close c) = rx c" "tx (conn_close c) = tx c" "closed (conn_close c)"
  by (simp_all add: conn_close_def)

lemma relay_step_ok: "relay_step s t \<Longrightarrow> relay_ok a b s \<Longrightarrow> relay_ok a b t"
proof (induction rule: relay_step.induct)
  case (copy_ab s k a' b')
  from copy_step_copied [OF _ copy_ab(1,3)] copy_ab show ?case by (auto simp: relay_ok_def)
next
  case (copy_ba s k b' a')
  from copy_step_copied [OF _ copy_ba(1,3)] copy_ba show ?case by (auto simp: relay_ok_def)
qed (auto simp: relay_ok_def waiter_order)

lemma peer_step_ok: "peer_step s t \<Longrightarrow> relay_ok a b s \<Longrightarrow> relay_ok a b t"
  by (induction rule: peer_step.induct) (simp_all add: relay_ok_def)

lemma relay_reach_ok: "relay_reach s t \<Longrightarrow> relay_ok a b s \<Longrightarrow> relay_ok a b t"
  by (induction rule: relay_reach.induct) (auto intro: relay_step_ok peer_step_ok)

lemma relay_prefixes:
  assumes "relay_reach (relay_start a b) s"
  shows "(\<exists>d. tx (rl_a s) = tx a @ d \<and> prefix d (rx b)) \<and> (\<exists>d. tx (rl_b s) = tx b @ d \<and> prefix d (rx a))"
    and "relay_ok a b s"
proof -
  have "relay_ok a b (relay_start a b)" by (simp add: relay_ok_def relay_start_def copied_def waiter_order)
  from relay_reach_ok [OF assms(1) this] show ok: "relay_ok a b s" .
  have p: "\<exists>d. out = base @ d \<and> prefix d inp" if "copied base inp k out rest" for base inp k out rest
    using that by (cases k) (auto simp: copied_def prefix_def)
  from ok p show "(\<exists>d. tx (rl_a s) = tx a @ d \<and> prefix d (rx b)) \<and> (\<exists>d. tx (rl_b s) = tx b @ d \<and> prefix d (rx a))"
    unfolding relay_ok_def by blast
qed

text \<open>
  C10. However the two copies and the caller interleave, each side has been sent a prefix of what
  the other side delivered, in order and unchanged; a connection is closed only after one direction
  has ended, and when \<open>relay\<close> returns both are closed and both copies have ended.
\<close>

theorem relay_delivers_prefixes:
  assumes "relay_reach (relay_start a b) s"
  shows "(\<exists>d. tx (rl_a s) = tx a @ d \<and> prefix d (rx b)) \<and> (\<exists>d. tx (rl_b s) = tx b @ d \<and> prefix d (rx a)) \<and>
    (rl_main s = WaitFirst \<or> rl_ab s = Finished \<or> rl_ba s = Finished) \<and>
    (rl_main s = Returned \<longrightarrow> closed (rl_a s) \<and> closed (rl_b s) \<and> rl_ab s = Finished \<and> rl_ba s = Finished)"
  using relay_prefixes [OF assms] unfolding relay_ok_def waiter_order by (cases "rl_main s") simp_all

lemma copy_chunk: "\<not> closed src \<Longrightarrow> rx src \<noteq> [] \<Longrightarrow> length (rx src) \<le> copy_size \<Longrightarrow> chunks src = [] \<Longrightarrow>
  copy_step Reading dst src = (Writing (rx src), dst, src\<lparr>rx := []\<rparr>)"
  by (simp add: copy_step_def conn_read_def next_chunk_def)

theorem relay_delivers_prefixes_witness:
  "\<exists>s. relay_reach (relay_start (new_conn [7]) (new_conn [])) s \<and> rl_ba s = Writing [7] \<and>
     (\<exists>d. tx (rl_b s) = d \<and> prefix d [7])"
proof -
  let ?a = "new_conn [7]" and ?b = "new_conn []"
  let ?s = "(relay_start ?a ?b)\<lparr>rl_ba := Writing [7], rl_a := ?a\<lparr>rx := []\<rparr>, rl_b := ?b\<rparr>"
  have "copy_step Reading ?b ?a = (Writing [7], ?b, ?a\<lparr>rx := []\<rparr>)"
    using copy_chunk [of ?a ?b] by (simp add: new_conn_def copy_size_def)
  then have r: "relay_reach (relay_start ?a ?b) ?s"
    by (intro relay_more [OF relay_refl] relay_step.copy_ba) (simp_all add: relay_start_def waits_def new_conn_def)
  from relay_delivers_prefixes [OF r] r show ?thesis by (auto simp: new_conn_def relay_start_def)
qed

section \<open>When it returns\<close>

definition copier_work :: "copier \<Rightarrow> conn \<Rightarrow> nat" where
  "copier_work k src =
     (case k of Reading \<Rightarrow> 3 * length (rx src) + 2 | Writing bs \<Rightarrow> 3 * length (rx src) + 4 | Finished \<Rightarrow> 0)"

definition waiter_work :: "waiter \<Rightarrow> nat" where
  "waiter_work m = 4 - waiter_pc m"

definition relay_work :: "relay_state \<Rightarrow> nat" where
  "relay_work s = copier_work (rl_ab s) (rl_b s) + copier_work (rl_ba s) (rl_a s) + waiter_work (rl_main s)"

lemma copier_work_close [simp]: "copier_work k (conn_close c) = copier_work k c"
  by (simp add: copier_work_def split: copier.split)

lemma copy_step_work:
  assumes "k \<noteq> Finished" and "copy_step k dst src = (k', dst', src')"
  shows "copier_work k' src' < copier_work k src \<and> (\<forall>j. copier_work j dst' = copier_work j dst)"
proof (cases k)
  case Reading
  show ?thesis
  proof (cases "closed src")
    case True
    with assms Reading show ?thesis by (auto simp: copy_step_def copier_work_def)
  next
    case False
    obtain bs e c where r: "conn_read copy_size src = ((bs, e), c)" by (metis prod.collapse)
    show ?thesis
    proof (cases e)
      case None
      have "bs \<noteq> []" "rx src = bs @ rx c"
        using conn_read_None [OF r [unfolded None]] by (simp_all add: copy_size_def)
      with r None False Reading assms show ?thesis
        by (cases bs) (auto simp: copy_step_def copier_work_def)
    next
      case (Some x)
      with r False Reading assms show ?thesis by (auto simp: copy_step_def copier_work_def)
    qed
  qed
next
  case (Writing bs)
  obtain n e c where w: "conn_write dst bs = ((n, e), c)" by (metis prod.collapse)
  then have "rx c = rx dst" by (auto simp: conn_write_def split: list.splits option.splits)
  with w Writing assms show ?thesis
    by (cases e) (auto simp: copy_step_def copier_work_def split: if_splits copier.split)
qed (use assms in simp)

lemma relay_step_work: "relay_step s t \<Longrightarrow> relay_work t < relay_work s"
proof (induction rule: relay_step.induct)
  case (copy_ab s k a b)
  from copy_step_work [OF copy_ab(1,3)] show ?case by (simp add: relay_work_def)
next
  case (copy_ba s k b a)
  from copy_step_work [OF copy_ba(1,3)] show ?case by (simp add: relay_work_def)
qed (simp_all add: relay_work_def waiter_work_def)

lemma peer_step_work: "peer_step s t \<Longrightarrow> relay_work t = relay_work s"
  by (induction rule: peer_step.induct) (simp_all add: relay_work_def)

text \<open>When the program cannot go on by itself, each copy waits for a peer and nothing was closed.\<close>

lemma relay_stuck:
  assumes "\<nexists>t. relay_step s t" and "rl_main s \<noteq> Returned"
  shows "(rl_ab s = Finished \<or> waits (rl_ab s) (rl_pa s) (rl_a s) (rl_pb s) (rl_b s)) \<and>
    (rl_ba s = Finished \<or> waits (rl_ba s) (rl_pb s) (rl_b s) (rl_pa s) (rl_a s)) \<and>
    (rl_main s = WaitFirst \<and> rl_ab s \<noteq> Finished \<and> rl_ba s \<noteq> Finished \<or>
     rl_main s = WaitSecond \<and> (rl_ab s \<noteq> Finished \<or> rl_ba s \<noteq> Finished))"
proof -
  obtain k a b where ab: "copy_step (rl_ab s) (rl_a s) (rl_b s) = (k, a, b)" by (metis prod.collapse)
  obtain k' b' a' where ba: "copy_step (rl_ba s) (rl_b s) (rl_a s) = (k', b', a')" by (metis prod.collapse)
  show ?thesis
    using assms relay_step.copy_ab [OF _ _ ab] relay_step.copy_ba [OF _ _ ba]
      relay_step.first_done [of s] relay_step.close_a [of s] relay_step.close_b [of s]
      relay_step.second_done [of s]
    by (cases "rl_main s") blast+
qed

text \<open>A closed connection ends every wait, so a relay past its first half is never stuck.\<close>

lemma waits_closed: "closed dst \<Longrightarrow> closed src \<Longrightarrow> \<not> waits k pd dst ps src"
  by (simp add: waits_def split: copier.split)

lemma relay_progress:
  assumes "relay_ok a b s" and "rl_ab s = Finished \<or> rl_ba s = Finished" and "rl_main s \<noteq> Returned"
  shows "\<exists>t. relay_step s t"
proof (rule ccontr)
  assume n: "\<nexists>t. relay_step s t"
  from relay_stuck [OF n assms(3)] assms(2) have w: "rl_main s = WaitSecond" by blast
  then have "closed (rl_a s)" "closed (rl_b s)"
    using assms(1) by (simp_all add: relay_ok_def waiter_order)
  with relay_stuck [OF n assms(3)] w show False by (auto simp: waits_closed)
qed

lemma finished_stays:
  "relay_step s t \<Longrightarrow> rl_ab s = Finished \<or> rl_ba s = Finished \<Longrightarrow> rl_ab t = Finished \<or> rl_ba t = Finished"
  by (induction rule: relay_step.induct) auto

lemma finished_peer:
  "peer_step s t \<Longrightarrow> rl_ab s = Finished \<or> rl_ba s = Finished \<Longrightarrow> rl_ab t = Finished \<or> rl_ba t = Finished"
  by (induction rule: peer_step.induct) auto

lemma finished_reach:
  "relay_reach s t \<Longrightarrow> rl_ab s = Finished \<or> rl_ba s = Finished \<Longrightarrow> rl_ab t = Finished \<or> rl_ba t = Finished"
  by (induction rule: relay_reach.induct) (metis finished_stays finished_peer)+

lemma relay_runs_out:
  assumes "relay_ok a b s" and "rl_ab s = Finished \<or> rl_ba s = Finished"
  shows "\<exists>t. relay_run s t \<and> rl_main t = Returned"
  using assms
proof (induction "relay_work s" arbitrary: s rule: less_induct)
  case less
  show ?case
  proof (cases "rl_main s = Returned")
    case True
    then show ?thesis using run_refl by blast
  next
    case False
    then obtain t where t: "relay_step s t" using relay_progress less.prems by blast
    from less.hyps [OF relay_step_work [OF t] relay_step_ok [OF t less.prems(1)] finished_stays [OF t less.prems(2)]]
    show ?thesis using run_step [OF t] by blast
  qed
qed

text \<open>A run makes only as many steps of the program as there was work at its start.\<close>

lemma relay_steps_finite:
  assumes "\<And>i. relay_step (f i) (f (Suc i)) \<or> peer_step (f i) (f (Suc i))"
  shows "finite {i. relay_step (f i) (f (Suc i))}"
proof -
  let ?A = "\<lambda>n. {i. i < n \<and> relay_step (f i) (f (Suc i))}"
  have A: "?A (Suc n) = (if relay_step (f n) (f (Suc n)) then insert n (?A n) else ?A n)" for n
    by (auto simp: less_Suc_eq)
  have b: "relay_work (f n) + card (?A n) \<le> relay_work (f 0)" for n
  proof (induction n)
    case (Suc n)
    show ?case
    proof (cases "relay_step (f n) (f (Suc n))")
      case True
      then have "card (?A (Suc n)) = Suc (card (?A n))" unfolding A by simp
      with Suc relay_step_work [OF True] show ?thesis by linarith
    next
      case False
      then have "peer_step (f n) (f (Suc n))" using assms by blast
      from peer_step_work [OF this] have "relay_work (f (Suc n)) = relay_work (f n)" .
      moreover have "?A (Suc n) = ?A n" unfolding A using False by simp
      ultimately show ?thesis using Suc by simp
    qed
  qed simp
  show ?thesis
  proof (rule ccontr)
    assume "infinite {i. relay_step (f i) (f (Suc i))}"
    then obtain B where B: "B \<subseteq> {i. relay_step (f i) (f (Suc i))}" "finite B" "card B = Suc (relay_work (f 0))"
      using infinite_arbitrarily_large by blast
    then obtain n where "\<forall>i \<in> B. i < n" by (meson finite_nat_set_iff_bounded)
    then have "B \<subseteq> ?A n" using B(1) by blast
    then have "card B \<le> card (?A n)" by (intro card_mono) simp_all
    with b [of n] B(3) show False by simp
  qed
qed

text \<open>
  C11. \<open>relay\<close> waits for nothing but its peers, and for them only until one direction ends: then it
  returns by its own steps, from wherever the schedule takes it, even if the other side stays idle
  for ever or takes no more bytes; no run contains infinitely many of its steps; and as long as it has
  neither returned nor an own step to make, both copies wait on open connections.
\<close>

theorem relay_returns:
  assumes "relay_reach (relay_start a b) s"
  shows "(rl_ab s = Finished \<or> rl_ba s = Finished \<longrightarrow>
      (\<forall>t. relay_reach s t \<longrightarrow> rl_main t = Returned \<or> (\<exists>u. relay_step t u)) \<and>
      (\<exists>t. relay_run s t \<and> rl_main t = Returned)) \<and>
    (\<forall>f. f 0 = s \<and> (\<forall>i. relay_step (f i) (f (Suc i)) \<or> peer_step (f i) (f (Suc i))) \<longrightarrow>
      finite {i. relay_step (f i) (f (Suc i))}) \<and>
    (rl_main s = Returned \<or> (\<exists>t. relay_step s t) \<or>
      waits (rl_ab s) (rl_pa s) (rl_a s) (rl_pb s) (rl_b s) \<and> waits (rl_ba s) (rl_pb s) (rl_b s) (rl_pa s) (rl_a s))"
proof -
  note ok = relay_prefixes(2) [OF assms]
  have "rl_main t = Returned \<or> (\<exists>u. relay_step t u)"
    if "rl_ab s = Finished \<or> rl_ba s = Finished" "relay_reach s t" for t
    using relay_progress [OF relay_reach_ok [OF that(2) ok] finished_reach [OF that(2,1)]] by blast
  moreover have "rl_main s = Returned \<or> (\<exists>t. relay_step s t) \<or>
      waits (rl_ab s) (rl_pa s) (rl_a s) (rl_pb s) (rl_b s) \<and> waits (rl_ba s) (rl_pb s) (rl_b s) (rl_pa s) (rl_a s)"
    using relay_stuck [of s] relay_progress [OF ok] by blast
  ultimately show ?thesis using relay_runs_out [OF ok] relay_steps_finite by blast
qed

theorem relay_returns_witness:
  "\<exists>s t. relay_reach (relay_start (new_conn []) (new_conn [])) s \<and> waits (rl_ba s) (rl_pb s) (rl_b s) (rl_pa s) (rl_a s) \<and>
     relay_run s t \<and> rl_main t = Returned"
proof -
  let ?c = "new_conn []" and ?gone = "\<lparr>pr_ended = True, pr_stalled = False\<rparr>"
  let ?s1 = "(relay_start ?c ?c)\<lparr>rl_pb := ?gone\<rparr>"
  let ?s2 = "?s1\<lparr>rl_ab := Finished, rl_a := ?c, rl_b := ?c\<rparr>"
  have "relay_reach (relay_start ?c ?c) ?s1" by (intro relay_peer [OF relay_refl] peer_step.peer_b) simp
  moreover have "copy_step Reading ?c ?c = (Finished, ?c, ?c)"
    by (simp add: copy_step_def conn_read_def new_conn_def)
  then have "relay_step ?s1 ?s2"
    by (intro relay_step.copy_ab) (simp_all add: relay_start_def waits_def)
  ultimately have r: "relay_reach (relay_start ?c ?c) ?s2" by (rule relay_more)
  moreover have "waits (rl_ba ?s2) (rl_pb ?s2) (rl_b ?s2) (rl_pa ?s2) (rl_a ?s2)"
    by (simp add: relay_start_def waits_def new_conn_def)
  moreover have "rl_ab ?s2 = Finished" by simp
  ultimately show ?thesis using relay_returns [OF r] by blast
qed

text \<open>Every relay can come to its end: when both peers end their streams.\<close>

lemma relay_ends: "\<exists>t. relay_reach (relay_start a b) t \<and> rl_main t = Returned"
proof -
  let ?gone = "\<lparr>pr_ended = True, pr_stalled = False\<rparr>"
  let ?s = "(relay_start a b)\<lparr>rl_pa := ?gone\<rparr>" and ?t = "(relay_start a b)\<lparr>rl_pa := ?gone, rl_pb := ?gone\<rparr>"
  have "peer_step (relay_start a b) ?s" "peer_step ?s ?t"
    using peer_step.peer_b [of ?s ?gone] by (auto intro: peer_step.peer_a)
  then have r: "relay_reach (relay_start a b) ?t" by (meson relay_refl relay_peer)
  have "\<exists>u. relay_reach (relay_start a b) u \<and> rl_main u = Returned"
    if "relay_reach (relay_start a b) s" "rl_pa s = ?gone" "rl_pb s = ?gone" for s
    using that
  proof (induction "relay_work s" arbitrary: s rule: less_induct)
    case less
    show ?case
    proof (cases "rl_main s = Returned")
      case False
      have "\<not> (waits (rl_ab s) (rl_pa s) (rl_a s) (rl_pb s) (rl_b s))" "\<not> waits (rl_ba s) (rl_pb s) (rl_b s) (rl_pa s) (rl_a s)"
        using less.prems by (simp_all add: waits_def split: copier.split)
      then obtain u where u: "relay_step s u"
        using relay_stuck [of s] False by blast
      moreover have "rl_pa u = rl_pa s \<and> rl_pb u = rl_pb s" using u by (cases rule: relay_step.cases) auto
      ultimately show ?thesis
        using less.hyps [OF relay_step_work [OF u] relay_more [OF less.prems(1) u]] less.prems(2,3) by simp
    qed (use less.prems in blast)
  qed
  from this [OF r] show ?thesis by simp
qed

text \<open>
  One direction that ends takes the other with it: when one side has nothing more to say, a run
  exists that returns without having passed on anything of what the other side still delivers.
\<close>

theorem relay_half_close_truncates:
  assumes "rx b = []" and "\<not> closed a" "\<not> closed b"
  shows "\<exists>s. relay_reach (relay_start a b) s \<and> rl_main s = Returned \<and> tx (rl_b s) = tx b"
proof -
  let ?st = "relay_start a b"
  let ?s0 = "?st\<lparr>rl_pb := \<lparr>pr_ended = True, pr_stalled = False\<rparr>\<rparr>"
  let ?s1 = "?s0\<lparr>rl_ab := Finished, rl_a := a, rl_b := b\<rparr>"
  let ?s2 = "?s1\<lparr>rl_main := CloseFirst\<rparr>"
  let ?s3 = "?s2\<lparr>rl_main := CloseSecond, rl_a := conn_close (rl_a ?s2)\<rparr>"
  let ?s4 = "?s3\<lparr>rl_main := WaitSecond, rl_b := conn_close (rl_b ?s3)\<rparr>"
  let ?s5 = "?s4\<lparr>rl_ba := Finished, rl_a := conn_close a, rl_b := conn_close b\<rparr>"
  have "peer_step ?st ?s0" using peer_step.peer_b [of ?st "\<lparr>pr_ended = True, pr_stalled = False\<rparr>"] by simp
  then have "relay_reach ?st ?s0" by (rule relay_peer [OF relay_refl])
  moreover have "relay_step ?s0 ?s1"
    using assms by (intro relay_step.copy_ab) (simp_all add: relay_start_def copy_step_def conn_read_def waits_def)
  moreover have "relay_step ?s1 ?s2" by (intro relay_step.first_done) (simp_all add: relay_start_def)
  moreover have "relay_step ?s2 ?s3" by (intro relay_step.close_a) simp
  moreover have "relay_step ?s3 ?s4" by (intro relay_step.close_b) simp
  moreover have "relay_step ?s4 ?s5"
    by (intro relay_step.copy_ba) (simp_all add: relay_start_def copy_step_def waits_def)
  moreover have "relay_step ?s5 (?s5\<lparr>rl_main := Returned\<rparr>)" by (intro relay_step.second_done) simp_all
  ultimately have "relay_reach ?st (?s5\<lparr>rl_main := Returned\<rparr>)" by (meson relay_more)
  then show ?thesis by (intro exI [of _ "?s5\<lparr>rl_main := Returned\<rparr>"]) simp
qed

theorem relay_half_close_truncates_witness:
  "\<exists>s. relay_reach (relay_start (new_conn [1, 2, 3]) (new_conn [])) s \<and> rl_main s = Returned \<and> tx (rl_b s) = []"
  using relay_half_close_truncates [of "new_conn []" "new_conn [1, 2, 3]"] by (simp add: new_conn_def tx_def)

end
