(* ===== verification/ReverseTcp.thy ===== *)
theory ReverseTcp
  imports ServerSteps Relay
begin

text \<open>
  server.go: a mapped TCP port, \<open>startReverseTCP\<close> and \<open>handleReverseTCPConn\<close>, composed of a reverse
  stream of the pool and a relay, and the way of a user's bytes from the port to the target.
\<close>

section \<open>The accept loop\<close>

text \<open>
  What \<open>Accept\<close> answers, in order: an error costs a pause of 100 ms and nothing else, a connection
  goes to a goroutine of its own. The program has no way out of the loop, so a finite list of answers
  is a run of it so far.
\<close>

fun accept_loop :: "(gerror + conn) list \<Rightarrow> world \<Rightarrow> conn list \<times> world" where
  "accept_loop [] w = ([], w)"
| "accept_loop (Inl e # as) w = accept_loop as (sleep (100 * millisecond) w)"
| "accept_loop (Inr c # as) w = (case accept_loop as w of (cs, w) \<Rightarrow> (c # cs, w))"

definition startReverseTCP :: "gerror option \<Rightarrow> (gerror + conn) list \<Rightarrow> world \<Rightarrow> conn list \<times> world" where
  "startReverseTCP listen_err accepts w =
     (case listen_err of Some _ \<Rightarrow> ([], w) | None \<Rightarrow> accept_loop accepts w)"

lemma accept_loop_eq:
  "accept_loop as w =
     (map projr (filter (\<lambda>a. \<not> isl a) as), w\<lparr>w_sleeps := w_sleeps w @ replicate (length (filter isl as)) (100 * millisecond)\<rparr>)"
proof (induction as arbitrary: w)
  case (Cons a as)
  then show ?case by (cases a) (simp_all add: sleep_def)
qed simp

section \<open>One connection\<close>

text \<open>
  \<open>handleReverseTCPConn\<close>: without a stream the connection is closed and that is all. With one, both are
  relayed while the pool goes on to whatever state the other goroutines take it to; after that the
  stream is closed, its session's counter goes down again, and the connection is closed.
\<close>

inductive handleReverseTCPConn ::
    "string \<Rightarrow> conn \<Rightarrow> server \<Rightarrow> server \<Rightarrow> conn \<Rightarrow> (conn \<times> nat) option \<Rightarrow> server \<Rightarrow> bool"
  for target conn s where
  refused: "openReverseStream s (''tcp://'' @ target) = Return (Inl e, s') \<Longrightarrow>
    handleReverseTCPConn target conn s s' (conn_close conn) None s'"
| relayed: "openReverseStream s (''tcp://'' @ target) = Return (Inr (stream, x), s1) \<Longrightarrow>
    relay_reach (relay_start conn stream) r \<Longrightarrow> rl_main r = Returned \<Longrightarrow>
    handleReverseTCPConn target conn s s2 (conn_close (rl_a r)) (Some (conn_close (rl_b r), x)) (addStreams x (-1) s2)"

inductive_cases handleReverseTCPConnE: "handleReverseTCPConn target conn s s2 c q s'"

lemma openReverseStream_stream:
  assumes "openReverseStream s t = Return (Inr (stream, x), s')"
  shows "x \<in> set (sv_sessions s) \<and> (\<exists>st rs. ss_opens (sv_heap s x) = Inr st # rs \<and>
    reverse_header st t = (None, stream))"
proof -
  have ne: "sv_sessions s \<noteq> []" using assms by (auto simp: openReverseStream_def)
  obtain best s0 where c: "choose_session s = Return (best, s0)"
    using assms ne by (auto simp: openReverseStream_def outcome_simps)
  have s0: "s0 = bump s" using choose_session_in [OF c ne] by simp
  obtain y where b: "best = Some y" using assms ne c by (cases best) (auto simp: openReverseStream_def)
  obtain q s1 where o: "smux_OpenStream y (bump s) = (q, s1)" by (metis prod.collapse)
  obtain st where q: "q = Inr st" using assms ne c b s0 o by (cases q) (auto simp: openReverseStream_def)
  obtain h st' where h: "reverse_header st t = (h, st')" by (metis prod.collapse)
  have "h = None \<and> stream = st' \<and> x = y"
    using assms ne c b s0 o q h by (cases h) (auto simp: openReverseStream_def Let_def)
  with h smux_OpenStream_spec [OF o] q choose_session_in [OF c ne] b show ?thesis by auto
qed

lemma reverse_header_rx: "reverse_header w t = (None, w') \<Longrightarrow> rx w' = rx w"
  by (auto simp: reverse_header_def conn_write_def Let_def split: prod.splits option.splits list.splits)

section \<open>From the port to the target\<close>

text \<open>The streams smux is about to open are fresh: nothing was written on them.\<close>

definition fresh_streams :: "server \<Rightarrow> bool" where
  "fresh_streams s \<longleftrightarrow> (\<forall>x \<in> set (sv_sessions s). \<forall>st. Inr st \<in> set (ss_opens (sv_heap s x)) \<longrightarrow> segs st = [])"

text \<open>
  C4. A user's connection to a mapped port, end to end: if it was given a stream, the client that
  reads what arrived on that stream dials exactly the port's target over TCP, whatever the order in
  which the two copies ran, and every byte it can pass on to the target is, in order, one of the
  user's; what the user was sent is a prefix of what the stream delivered. At the end connection and
  stream are closed and the session's counter is one down.
\<close>

theorem mapped_port_end_to_end:
  assumes "handleReverseTCPConn target conn s s2 conn' (Some (stream', x)) s'"
    and "fresh_streams s" and "length target \<le> 4090" and "rx c = tx stream'"
  shows "closed conn' \<and> closed stream' \<and> x \<in> set (sv_sessions s) \<and> counts s' = (counts s2)(x := i64 (counts s2 x - 1)) \<and>
    (\<exists>st e. Inr st \<in> set (ss_opens (sv_heap s x)) \<and> tx conn' = tx conn @ e \<and> prefix e (rx st)) \<and>
    (\<exists>st. prefix (rx st) (rx conn) \<and>
       handleReverseStream dial c =
         [SetReadDeadline (Some 10), SetReadDeadline None, DialTimeout ''tcp'' target] @
         (case dial ''tcp'' target of Inl _ \<Rightarrow> [] | Inr remote \<Rightarrow> [Relay st remote, CloseRemote]) @ [CloseStream] \<and>
       (\<forall>remote r. relay_reach (relay_start st remote) r \<longrightarrow>
          (\<exists>d. tx (rl_b r) = tx remote @ d \<and> prefix d (rx conn))))"
proof -
  from assms(1) obtain stream s1 r where r: "openReverseStream s (''tcp://'' @ target) = Return (Inr (stream, x), s1)"
      "relay_reach (relay_start conn stream) r" "conn' = conn_close (rl_a r)" "stream' = conn_close (rl_b r)"
      "s' = addStreams x (-1) s2"
    by (auto elim: handleReverseTCPConnE)
  obtain st0 rs where o: "x \<in> set (sv_sessions s)" "ss_opens (sv_heap s x) = Inr st0 # rs"
      "reverse_header st0 (''tcp://'' @ target) = (None, stream)"
    using openReverseStream_stream [OF r(1)] by blast
  then have "tx st0 = []" using assms(2) by (fastforce simp: fresh_streams_def tx_def)
  note h = reverse_header_tx [OF o(3), unfolded this append_Nil]
  obtain d e where d: "tx (rl_a r) = tx conn @ e" "tx (rl_b r) = tx stream @ d" "prefix d (rx conn)"
      "prefix e (rx st0)"
    using relay_prefixes(1) [OF r(2)] unfolding reverse_header_rx [OF o(3)] by blast
  have "rx c = StreamTypeReverse # put16 (word_of_nat (length (''tcp://'' @ target))) @ bytes_of (''tcp://'' @ target) @ d"
    using assms(4) r(4) d(2) h by simp
  moreover have "0 < length (''tcp://'' @ target)" "length (''tcp://'' @ target) \<le> 4096" using assms(3) by simp_all
  ultimately obtain st where st: "rx st = d" "handleReverseStream dial c =
      SetReadDeadline (Some 10) # serve_target dial (Some (bytes_of (''tcp://'' @ target)), st) @ [CloseStream]"
    using handleReverseStream_target by blast
  have "splitTarget (''tcp://'' @ target) = (''tcp'', target)"
    by (simp add: splitTarget_def HasPrefix_def TrimPrefix_def)
  with st have "handleReverseStream dial c =
      [SetReadDeadline (Some 10), SetReadDeadline None, DialTimeout ''tcp'' target] @
      (case dial ''tcp'' target of Inl _ \<Rightarrow> [] | Inr remote \<Rightarrow> [Relay st remote, CloseRemote]) @ [CloseStream]"
    by (simp add: serve_target_def)
  moreover have "\<exists>d. tx (rl_b q) = tx remote @ d \<and> prefix d (rx conn)"
    if "relay_reach (relay_start st remote) q" for remote q
    using relay_prefixes(1) [OF that] st(1) d(3) by (meson prefix_order.trans)
  ultimately show ?thesis using r(3-5) o(1,2) d st(1) by auto
qed

theorem mapped_port_end_to_end_witness:
  "\<exists>conn' stream' x s'. handleReverseTCPConn ''h:1'' (new_conn [7]) (demo_server 3 0) (demo_server 3 0)
       conn' (Some (stream', x)) s' \<and> closed conn' \<and> closed stream' \<and>
     handleReverseStream (\<lambda>_ _. Inl EOF) (new_conn (tx stream')) =
       [SetReadDeadline (Some 10), SetReadDeadline None, DialTimeout ''tcp'' ''h:1'', CloseStream]"
proof -
  obtain stream x s1 where o: "openReverseStream (demo_server 3 0) (''tcp://'' @ ''h:1'') = Return (Inr (stream, x), s1)"
    using demo_opens by auto
  obtain r where "relay_reach (relay_start (new_conn [7]) stream) r" "rl_main r = Returned"
    using relay_ends by blast
  from relayed [OF o this] obtain conn' stream' s' where
    h: "handleReverseTCPConn ''h:1'' (new_conn [7]) (demo_server 3 0) (demo_server 3 0) conn' (Some (stream', x)) s'"
    by blast
  have f: "fresh_streams (demo_server 3 0)"
    by (simp add: fresh_streams_def demo_server_def demo_session_def new_conn_def)
  have "rx (new_conn (tx stream')) = tx stream'" by (simp add: new_conn_def)
  from mapped_port_end_to_end [OF h f _ this, of "\<lambda>_ _. Inl EOF"] h show ?thesis by auto
qed

end
