(* ===== verification/ForwardProxy.thy ===== *)
theory ForwardProxy
  imports ClientPool Relay
begin

text \<open>
  The forward direction, from \<open>OpenStream\<close> of client.go to the target: the stream the client opens in
  a session, \<open>handleStream\<close> of server.go on the other end of it, and the relay it starts.
\<close>

section \<open>The stream a caller of OpenStream gets\<close>

lemma cl_smux_opens:
  assumes "cl_smux_OpenStream x c = (q, c')"
  shows "set (cs_opens (cl_heap c' y)) \<subseteq> set (cs_opens (cl_heap c y))"
    and "q = Inr st \<Longrightarrow> Inr st \<in> set (cs_opens (cl_heap c x))"
  using assms by (auto simp: cl_smux_OpenStream_def upd_clientSession_def split: list.splits if_splits)

lemma open_loop_stream:
  "open_loop ss idx t is c = Return (Inr stream, c') \<Longrightarrow>
   \<exists>x st. Inr st \<in> set (cs_opens (cl_heap c x)) \<and> stream = forward_header st t"
proof (induction "is" arbitrary: c)
  case Nil
  then show ?case by simp
next
  case (Cons i "is")
  let ?k = "go_rem (i64 (idx + int i)) (int (length ss))" and ?x = "ss ! nat (go_rem (i64 (idx + int i)) (int (length ss)))"
  have k: "\<not> ?k < 0" using Cons.prems by (auto simp: Let_def split: if_splits)
  show ?case
  proof (cases "cs_closed (cl_heap c ?x)")
    case True
    with Cons k show ?thesis by (simp add: Let_def)
  next
    case False
    obtain q c1 where q: "cl_smux_OpenStream ?x c = (q, c1)" by (metis prod.collapse)
    show ?thesis
    proof (cases q)
      case (Inl e)
      then have "open_loop ss idx t is (cl_removeSession ?x c1) = Return (Inr stream, c')"
        using Cons.prems k False q by (simp add: Let_def)
      moreover have "cl_heap (cl_removeSession ?x c1) = cl_heap c1" by (simp add: cl_removeSession_def)
      ultimately show ?thesis using Cons.IH [of "cl_removeSession ?x c1"] cl_smux_opens(1) [OF q] by fastforce
    next
      case (Inr st)
      with Cons.prems k False q have "stream = forward_header st t" by (simp add: Let_def)
      with cl_smux_opens(2) [OF q Inr] show ?thesis by blast
    qed
  qed
qed

lemma OpenStream_stream:
  assumes "OpenStream c t = Return (Inr stream, c')"
  shows "\<exists>x st. Inr st \<in> set (cs_opens (cl_heap c x)) \<and> stream = forward_header st t"
proof -
  have "cl_sessions c \<noteq> []" using assms by (auto simp: OpenStream_def)
  with assms have "open_loop (cl_sessions c) (sint (cl_rrIndex c + 1)) t [0..<length (cl_sessions c)]
      (c\<lparr>cl_rrIndex := cl_rrIndex c + 1\<rparr>) = Return (Inr stream, c')"
    by (simp add: OpenStream_def Let_def)
  from open_loop_stream [OF this] show ?thesis by simp
qed

section \<open>Property\<close>

text \<open>The streams smux has to give are fresh and take what is written on them.\<close>

definition cl_fresh_streams :: "client \<Rightarrow> bool" where
  "cl_fresh_streams c \<longleftrightarrow> (\<forall>x st. Inr st \<in> set (cs_opens (cl_heap c x)) \<longrightarrow> segs st = [] \<and> write_ok st)"

text \<open>
  C5. The forward proxy end to end: a stream the client was given for a target of 1 to 4096 bytes,
  followed by the caller's data, makes the server dial exactly that target, over UDP or TCP as the
  target says, under its own deadlines and with none left while it relays; whatever the order in
  which the copies run, every byte that reaches the target is, in order, one of the caller's.
\<close>

theorem forward_proxy_end_to_end:
  assumes "OpenStream c t = Return (Inr stream, c')" and "cl_fresh_streams c"
    and "0 < length t" "length t \<le> 4096" and "rx s = tx stream @ payload" and "splitTarget t = (network, addr)"
  shows "\<exists>st. rx st = payload \<and>
    handleStream dial s =
      [SetReadDeadline (Some 5), SetReadDeadline None, SetReadDeadline (Some 10), SetReadDeadline None,
       DialTimeout network addr] @
      (case dial network addr of Inl _ \<Rightarrow> [] | Inr remote \<Rightarrow> [Relay st remote, CloseRemote]) @ [CloseStream] \<and>
    (\<forall>remote r. relay_reach (relay_start st remote) r \<longrightarrow>
       (\<exists>d. tx (rl_b r) = tx remote @ d \<and> prefix d payload))"
proof -
  obtain x st0 where st0: "Inr st0 \<in> set (cs_opens (cl_heap c x))" "stream = forward_header st0 t"
    using OpenStream_stream [OF assms(1)] by blast
  then have w: "segs st0 = []" "write_ok st0" using assms(2) by (auto simp: cl_fresh_streams_def)
  then have "rx s = drop (length (tx st0)) (tx (forward_header st0 t)) @ payload"
    using assms(5) st0(2) by (simp add: tx_def)
  from forward_target_roundtrip [OF w(2) assms(3,4) this, of dial] obtain acts where
    a: "served dial t payload acts" "handleStream dial s =
      [SetReadDeadline (Some 5), SetReadDeadline None, SetReadDeadline (Some 10)] @ acts @ [CloseStream]"
    by blast
  then obtain st where st: "rx st = payload" "acts = SetReadDeadline None # DialTimeout network addr #
      (case dial network addr of Inl _ \<Rightarrow> [] | Inr remote \<Rightarrow> [Relay st remote, CloseRemote])"
    by (auto simp: served_def assms(6))
  have "\<exists>d. tx (rl_b r) = tx remote @ d \<and> prefix d payload" if "relay_reach (relay_start st remote) r" for remote r
    using relay_prefixes(1) [OF that] st(1) by blast
  with a(2) st show ?thesis by (intro exI [of _ st]) simp
qed

theorem forward_proxy_end_to_end_witness:
  "\<exists>stream c'. OpenStream demo_pool ''udp://h:53'' = Return (Inr stream, c') \<and>
     handleStream (\<lambda>_ _. Inl EOF) (new_conn (tx stream @ [8, 9])) =
       [SetReadDeadline (Some 5), SetReadDeadline None, SetReadDeadline (Some 10), SetReadDeadline None,
        DialTimeout ''udp'' ''h:53'', CloseStream]"
proof -
  have p: "cl_sessions demo_pool = [4, 5, 6]" "cl_rrIndex demo_pool = 0"
    by (simp_all add: demo_pool_def)
  obtain stream c' where o: "OpenStream demo_pool ''udp://h:53'' = Return (Inr stream, c')"
    by (simp add: OpenStream_def p go_rem_def i64_small)
      (simp add: demo_pool_def cl_smux_OpenStream_def cl_removeSession_def upd_clientSession_def go_rem_def i64_small)
  have f: "cl_fresh_streams demo_pool"
    by (auto simp: cl_fresh_streams_def demo_pool_def new_conn_def write_ok_def split: if_splits)
  have "splitTarget ''udp://h:53'' = (''udp'', ''h:53'')"
    by (simp add: splitTarget_def HasPrefix_def TrimPrefix_def)
  moreover have "rx (new_conn (tx stream @ [8, 9])) = tx stream @ [8, 9]" by (simp add: new_conn_def)
  ultimately have "handleStream (\<lambda>_ _. Inl EOF) (new_conn (tx stream @ [8, 9])) =
       [SetReadDeadline (Some 5), SetReadDeadline None, SetReadDeadline (Some 10), SetReadDeadline None,
        DialTimeout ''udp'' ''h:53'', CloseStream]"
    using forward_proxy_end_to_end [OF o f, of _ "[8, 9]" "''udp''" "''h:53''" "\<lambda>_ _. Inl EOF"] by auto
  with o show ?thesis by blast
qed

end
