(* ===== verification/ConfigStable.thy ===== *)
theory ConfigStable
  imports ConfigProps
begin

text \<open>
  What loading does to a file that was loaded and saved before: from version 2 on nothing, because
  every step is a fixed point of its own result; below it the migration runs after the profile, and
  a second load undoes what it did for two of the profiles.
\<close>

section \<open>Fixed points of the steps\<close>

lemma is_space_lower [simp]: "is_space (lower c) = is_space c"
proof (cases "65 \<le> (of_char c :: nat) \<and> (of_char c :: nat) \<le> 90")
  case True
  have "of_char (char_of (of_char c + 32 :: nat)) = (of_char c + 32 :: nat)"
    using True by (simp add: of_char_of)
  then have "97 \<le> (of_char (lower c) :: nat)" using True by (simp add: lower_def)
  then have "\<not> is_space (lower c)" by (auto simp: is_space_def)
  moreover have "\<not> is_space c" using True by (auto simp: is_space_def)
  ultimately show ?thesis by simp
next
  case False
  then show ?thesis by (auto simp: lower_def)
qed

lemma TrimSpace_ToLower [simp]: "TrimSpace (ToLower s) = ToLower (TrimSpace s)"
  by (simp add: TrimSpace_def ToLower_def dropWhile_map rev_map o_def)

lemma defaults_fixed:
  "smux_pos s \<Longrightarrow> smux_defaults s = s" "adv_pos a \<Longrightarrow> advanced_defaults a = a"
  "stealth_pos t \<Longrightarrow> stealth_defaults t = t"
  by (simp_all add: smux_pos_def smux_defaults_def adv_pos_def advanced_defaults_def
      stealth_pos_def stealth_defaults_def)

lemma normalizePath_idem: "normalizePath (normalizePath p) = normalizePath p"
proof (cases "TrimSpace p = [] \<or> HasPrefix (TrimSpace p) ''/''")
  case True
  have "TrimSpace [] = []" by (simp add: TrimSpace_def)
  with True show ?thesis by (auto simp: normalizePath_def Let_def)
next
  case False
  then have ne: "TrimSpace p \<noteq> []" by blast
  have l: "\<not> is_space (last (TrimSpace p))" using TrimSpace_ends [OF ne] by simp
  have "TrimSpace (CHR ''/'' # TrimSpace p) = CHR ''/'' # TrimSpace p"
  proof -
    have "dropWhile is_space (CHR ''/'' # TrimSpace p) = CHR ''/'' # TrimSpace p"
      by (simp add: is_space_def)
    moreover have "dropWhile is_space (rev (CHR ''/'' # TrimSpace p)) = rev (CHR ''/'' # TrimSpace p)"
      using l ne by (intro dropWhile_idle) (simp add: hd_rev)
    ultimately show ?thesis
      unfolding TrimSpace_def [of "CHR ''/'' # TrimSpace p"] by simp
  qed
  with False show ?thesis by (simp add: normalizePath_def Let_def HasPrefix_def)
qed

text \<open>The fake path of the file is empty or has something other than space.\<close>

definition path_plain :: "Config \<Rightarrow> bool" where
  "path_plain c \<longleftrightarrow> hm_FakePath (HTTPMimic c) = [] \<or> TrimSpace (hm_FakePath (HTTPMimic c)) \<noteq> []"

text \<open>A server's first port is trimmed where it becomes its \<open>Listen\<close>.\<close>

definition listen_plain :: "Config \<Rightarrow> bool" where
  "listen_plain c \<longleftrightarrow> ListenPorts c = [] \<or> TrimSpace (Listen c) \<noteq> [] \<or>
     TrimSpace (hd (ListenPorts c)) = hd (ListenPorts c)"

definition base_fixed :: "Config \<Rightarrow> bool" where
  "base_fixed c \<longleftrightarrow> based c \<and>
     (0 < adv_SessionTimeout (Advanced c) \<longrightarrow> SessionTimeout c = adv_SessionTimeout (Advanced c)) \<and>
     hm_FakePath (HTTPMimic c) \<noteq> [] \<and> normalizePath (hm_FakePath (HTTPMimic c)) = hm_FakePath (HTTPMimic c) \<and>
     (ToLower (Transport c) = ''httpsmux'' \<or> ToLower (Transport c) = ''wssmux'' \<longrightarrow> fr_Enabled (Fragment c)) \<and>
     merge_listen c = c"

lemma base_fixed: "base_fixed c \<Longrightarrow> applyBaseDefaults c = c"
proof -
  assume f: "base_fixed c"
  then have b: "based c" and m: "merge_listen c = c" by (simp_all add: base_fixed_def)
  have h: "httpmimic_defaults (HTTPMimic c) = HTTPMimic c"
    using f by (simp add: base_fixed_def based_def httpmimic_defaults_def str_or_def)
  have "fr_Enabled (Fragment c) \<or> ToLower (Transport c) = ''httpsmux'' \<or>
      ToLower (Transport c) = ''wssmux'' \<longleftrightarrow> fr_Enabled (Fragment c)"
    using f by (auto simp: base_fixed_def)
  then have r: "fragment_defaults (ToLower (Transport c)) (Fragment c) = Fragment c"
    using b by (simp add: based_def fragment_defaults_def fragment_pos_def)
  have t: "(if 0 < adv_SessionTimeout (Advanced c) then adv_SessionTimeout (Advanced c)
      else pos_or (SessionTimeout c) 30) = SessionTimeout c"
    using f by (simp add: base_fixed_def based_def)
  have o: "(Obfuscation c)\<lparr>oc_MinPadding := pos_or (oc_MinPadding (Obfuscation c)) 16,
      oc_MaxPadding := pos_or (oc_MaxPadding (Obfuscation c)) 64\<rparr> = Obfuscation c"
    using b by (simp add: based_def)
  have p: "str_or (Profile c) ''balanced'' = Profile c" "pos_or (Heartbeat c) 2 = Heartbeat c"
    "pos_or (NumConnections c) 4 = NumConnections c" "pos_or (DecoyInterval c) 5 = DecoyInterval c"
    "smux_defaults (Smux c) = Smux c" "advanced_defaults (Advanced c) = Advanced c"
    "stealth_defaults (Stealth c) = Stealth c"
    using b by (simp_all add: based_def str_or_def defaults_fixed)
  have e: "c\<lparr>Profile := Profile c, Heartbeat := Heartbeat c, SessionTimeout := SessionTimeout c,
      Smux := Smux c, Advanced := Advanced c, HTTPMimic := HTTPMimic c, Obfuscation := Obfuscation c,
      NumConnections := NumConnections c, DecoyInterval := DecoyInterval c, Fragment := Fragment c,
      Stealth := Stealth c\<rparr> = c"
    by simp
  show ?thesis by (simp only: applyBaseDefaults_def h r t o p e m)
qed

lemma merge_listen_idem: "merge_listen (merge_listen c) = merge_listen c"
  by (simp add: merge_listen_def Let_def)

lemma normalizePath_ne: "TrimSpace p \<noteq> [] \<Longrightarrow> normalizePath p \<noteq> []"
  by (simp add: normalizePath_def Let_def)

lemma applyBaseDefaults_fixed: "path_plain c \<Longrightarrow> base_fixed (applyBaseDefaults c)"
proof -
  assume "path_plain c"
  moreover have "TrimSpace ''/search'' \<noteq> []" by (simp add: TrimSpace_def is_space_def)
  ultimately have "normalizePath (str_or (hm_FakePath (HTTPMimic c)) ''/search'') \<noteq> []"
    by (auto simp: path_plain_def str_or_def intro!: normalizePath_ne)
  then show ?thesis
    using applyBaseDefaults_based [of c]
    by (simp add: base_fixed_def applyBaseDefaults_def merge_listen_idem normalizePath_idem
        advanced_defaults_def httpmimic_defaults_def fragment_defaults_def)
qed

lemma applyProfile_sel [simp]:
  "SessionTimeout (applyProfile c) = SessionTimeout c" "Transport (applyProfile c) = Transport c"
  "Mode (applyProfile c) = Mode c" "Profile (applyProfile c) = Profile c"
  "Listen (applyProfile c) = Listen c" "ListenPorts (applyProfile c) = ListenPorts c"
  "ServerURL (applyProfile c) = ServerURL c" "Fragment (applyProfile c) = Fragment c"
  "hm_FakePath (HTTPMimic (applyProfile c)) = hm_FakePath (HTTPMimic c)"
  "adv_SessionTimeout (Advanced (applyProfile c)) = adv_SessionTimeout (Advanced c)"
  "ConfigVersion (applyProfile c) = ConfigVersion c"
  by (simp_all add: applyProfile_def no_chunks_def no_delay_def Let_def)

text \<open>Whether \<open>merge_listen\<close> leaves a configuration alone depends on these three fields only.\<close>

lemma merge_listen_fixed_iff:
  "merge_listen c = c \<longleftrightarrow> Mode c \<noteq> ''server'' \<or>
     ListenPorts c \<noteq> [] \<and> (Listen c = [] \<longrightarrow> hd (ListenPorts c) = [])"
proof (cases "Mode c = ''server''")
  case True
  have u: "c\<lparr>Listen := x\<rparr> = c \<longleftrightarrow> x = Listen c" "c\<lparr>ListenPorts := y\<rparr> = c \<longleftrightarrow> y = ListenPorts c" for x y
    by (auto dest: arg_cong [where f = Listen] arg_cong [where f = ListenPorts])
  show ?thesis
    using True merge_listen_ports [OF True] by (auto simp: merge_listen_def Let_def u hd_conv_nth)
next
  case False
  then show ?thesis by (simp add: merge_listen_def)
qed

lemma applyProfile_base_fixed: "base_fixed c \<Longrightarrow> base_fixed (applyProfile c)"
  using applyProfile_based [of c] by (simp add: base_fixed_def merge_listen_fixed_iff)

lemma path_idem:
  "speed_path (speed_path p) = speed_path p" "gaming_path (gaming_path p) = gaming_path p"
  "streaming_path (streaming_path p) = streaming_path p" "lowcpu_path (lowcpu_path p) = lowcpu_path p"
  "balanced_path (balanced_path p) = balanced_path p"
  by (simp_all add: speed_path_def gaming_path_def streaming_path_def lowcpu_path_def
      balanced_path_def pos_or_def)

text \<open>The five profiles as steps of their own, each of which does nothing when done twice.\<close>

definition speed_step :: "Config \<Rightarrow> Config" where
  "speed_step c = (no_chunks (no_delay c))\<lparr>
     Paths := map speed_path (Paths c),
     Stealth := (Stealth c)\<lparr>st_BurstSplit := False\<rparr>,
     Advanced := (Advanced c)\<lparr>adv_MaxConnections :=
       (if adv_MaxConnections (Advanced c) < 1024 then 1024 else adv_MaxConnections (Advanced c))\<rparr>\<rparr>"

definition gaming_step :: "Config \<Rightarrow> Config" where
  "gaming_step c = (no_chunks (no_delay c))\<lparr>
     Smux := (Smux c)\<lparr>sm_KeepAlive := 1\<rparr>,
     Advanced := (Advanced c)\<lparr>adv_TCPKeepAlive := 2\<rparr>,
     Stealth := (Stealth c)\<lparr>st_RandomPadding := False, st_BurstSplit := False\<rparr>,
     Paths := map gaming_path (Paths c)\<rparr>"

definition streaming_step :: "Config \<Rightarrow> Config" where
  "streaming_step c = (no_delay c)\<lparr>
     Smux := (Smux c)\<lparr>sm_MaxRecv := 2097152, sm_MaxStream := 2097152\<rparr>,
     Paths := map streaming_path (Paths c)\<rparr>"

definition lowcpu_step :: "Config \<Rightarrow> Config" where
  "lowcpu_step c = c\<lparr>Smux := (Smux c)\<lparr>sm_KeepAlive := 5, sm_MaxRecv := 524288, sm_MaxStream := 524288\<rparr>,
     Stealth := (Stealth c)\<lparr>st_FakeTraffic := False\<rparr>,
     Paths := map lowcpu_path (Paths c)\<rparr>"

definition balanced_step :: "Config \<Rightarrow> Config" where
  "balanced_step c = (no_delay c)\<lparr>Paths := map balanced_path (Paths c)\<rparr>"

lemma profile_steps_idem:
  "speed_step (speed_step c) = speed_step c" "gaming_step (gaming_step c) = gaming_step c"
  "streaming_step (streaming_step c) = streaming_step c" "lowcpu_step (lowcpu_step c) = lowcpu_step c"
  "balanced_step (balanced_step c) = balanced_step c"
  by (simp_all add: speed_step_def gaming_step_def streaming_step_def lowcpu_step_def balanced_step_def
      no_chunks_def no_delay_def path_idem o_def)

lemma applyProfile_steps:
  "applyProfile c =
     (let p = ToLower (Profile c)
      in if p = ''speed'' \<or> p = ''aggressive'' then speed_step c
         else if p = ''gaming'' \<or> p = ''latency'' then gaming_step c
         else if p = ''streaming'' then streaming_step c
         else if p = ''lowcpu'' \<or> p = ''cpu-efficient'' then lowcpu_step c
         else balanced_step c)"
  by (simp only: applyProfile_def speed_step_def gaming_step_def streaming_step_def lowcpu_step_def
      balanced_step_def)

lemma by_class_idem:
  assumes "\<And>c. f1 (f1 c) = f1 c" "\<And>c. f2 (f2 c) = f2 c" "\<And>c. f3 (f3 c) = f3 c" "\<And>c. f4 (f4 c) = f4 c"
    "\<And>c. f5 (f5 c) = f5 c" and "\<And>c. g c = (let p = h c in if A p then f1 c else if B p then f2 c
      else if C p then f3 c else if D p then f4 c else f5 c)" and "\<And>c. h (g c) = h c"
  shows "g (g c) = g c"
proof -
  have "g (g c) = (let p = h c in if A p then f1 (g c) else if B p then f2 (g c)
      else if C p then f3 (g c) else if D p then f4 (g c) else f5 (g c))"
    using assms(6) [of "g c"] assms(7) by simp
  then show ?thesis using assms(1-5) assms(6) [of c] by (auto simp: Let_def)
qed

lemma applyProfile_idem: "applyProfile (applyProfile c) = applyProfile c"
  by (rule by_class_idem [where h = "\<lambda>c. ToLower (Profile c)", OF profile_steps_idem applyProfile_steps])
    (simp only: applyProfile_sel)

definition trimmed :: "Config \<Rightarrow> bool" where
  "trimmed c \<longleftrightarrow> ToLower (TrimSpace (Mode c)) = Mode c \<and> ToLower (TrimSpace (Transport c)) = Transport c \<and>
     ToLower (TrimSpace (Profile c)) = Profile c \<and> TrimSpace (Listen c) = Listen c \<and>
     TrimSpace (ServerURL c) = ServerURL c \<and>
     (Mode c = ''server'' \<longrightarrow> Listen c \<noteq> [] \<or> ListenPorts c \<noteq> [])"

lemma trimmed_fixed: "trimmed c \<Longrightarrow> trim_config c = c"
  by (auto simp: trimmed_def trim_config_def Let_def)

lemma trim_config_trimmed: "trimmed (trim_config c)"
proof -
  have "TrimSpace ''0.0.0.0:2020'' = ''0.0.0.0:2020''" "ToLower (TrimSpace ''server'') = ''server''"
    by (simp_all add: string_eval)
  then show ?thesis by (simp add: trimmed_def trim_config_def Let_def)
qed

lemma trim_config_sel [simp]:
  "HTTPMimic (trim_config c) = HTTPMimic c" "ListenPorts (trim_config c) = ListenPorts c"
  by (simp_all add: trim_config_def Let_def)

lemma applyBaseDefaults_trimmed:
  assumes "trimmed c" and "ListenPorts c = [] \<or> Listen c \<noteq> [] \<or> TrimSpace (hd (ListenPorts c)) = hd (ListenPorts c)"
  shows "trimmed (applyBaseDefaults c)"
proof -
  have "ToLower (TrimSpace ''balanced'') = ''balanced''" "TrimSpace ''0.0.0.0:2020'' = ''0.0.0.0:2020''"
    by (simp_all add: string_eval)
  with assms show ?thesis
    by (auto simp: trimmed_def applyBaseDefaults_def merge_listen_def str_or_def Let_def hd_conv_nth)
qed

lemma applyProfile_trimmed: "trimmed c \<Longrightarrow> trimmed (applyProfile c)"
  by (simp add: trimmed_def)

text \<open>The last two steps touch fields no other step reads.\<close>

definition with_aliases :: "Config \<Rightarrow> Forward \<Rightarrow> MimicConfig \<Rightarrow> ObfsConfig \<Rightarrow> Config" where
  "with_aliases c f m ob = c\<lparr>forward := f, Mimic := m, Obfs := ob\<rparr>"

lemma with_aliases_steps:
  "trimmed (with_aliases c f m ob) = trimmed c"
  "base_fixed (with_aliases c f m ob) = base_fixed c"
  "applyProfile (with_aliases c f m ob) = with_aliases (applyProfile c) f m ob"
  "with_aliases (with_aliases c f m ob) f' m' ob' = with_aliases c f' m' ob'"
  by (simp_all add: with_aliases_def trimmed_def base_fixed_def based_def merge_listen_fixed_iff
      applyProfile_def no_chunks_def no_delay_def Let_def)

lemma fold_add_map_ne: "ms \<noteq> [] \<Longrightarrow> fw_TCP (fold add_map ms f) \<noteq> [] \<or> fw_UDP (fold add_map ms f) \<noteq> []"
proof (induction ms rule: rev_induct)
  case (snoc m ms)
  then show ?case by (simp add: add_map_def Let_def)
qed simp

definition converted :: "PortMap list \<Rightarrow> Forward \<Rightarrow> Forward" where
  "converted ms f = (if fw_TCP f = [] \<and> fw_UDP f = [] then fold add_map ms f else f)"

lemma convertMapsToForward_eq: "convertMapsToForward c = c\<lparr>forward := converted (Maps c) (forward c)\<rparr>"
  by (simp add: convertMapsToForward_def converted_def)

lemma converted_idem: "converted ms (converted ms f) = converted ms f"
proof (cases "ms = [] \<or> fw_TCP f \<noteq> [] \<or> fw_UDP f \<noteq> []")
  case True
  then show ?thesis by (elim disjE) (simp_all add: converted_def)
next
  case False
  then have "converted ms f = fold add_map ms f" by (simp add: converted_def)
  moreover have "\<not> (fw_TCP (fold add_map ms f) = [] \<and> fw_UDP (fold add_map ms f) = [])"
    using fold_add_map_ne [of ms f] False by blast
  ultimately show ?thesis by (simp only: converted_def if_False)
qed

lemma sync_idem:
  "sync_mimic h (sync_mimic h m) = sync_mimic h m"
  "sync_obfs bm oc (sync_obfs bm oc ob) = sync_obfs bm oc ob"
  by (auto simp: sync_mimic_def sync_obfs_def str_or_def pos_or_def)

lemma prepare_idem:
  assumes "path_plain c" and "listen_plain c"
  shows "prepare bm (prepare bm c) = prepare bm c"
proof -
  define c3 where c3: "c3 = applyProfile (applyBaseDefaults (trim_config c))"
  have t: "trimmed c3"
    unfolding c3 using assms(2)
    by (intro applyProfile_trimmed applyBaseDefaults_trimmed trim_config_trimmed)
      (auto simp: listen_plain_def trim_config_def Let_def)
  have b: "base_fixed c3"
    unfolding c3 using assms(1)
    by (intro applyProfile_base_fixed applyBaseDefaults_fixed) (simp add: path_plain_def)
  have p: "applyProfile c3 = c3" unfolding c3 by (rule applyProfile_idem)
  define f m ob where d: "f = forward (convertMapsToForward c3)" "m = sync_mimic (HTTPMimic c3) (Mimic c3)"
    "ob = sync_obfs bm (Obfuscation c3) (Obfs c3)"
  have 1: "prepare bm c = with_aliases c3 f m ob"
    unfolding prepare_def c3 [symmetric] syncAliases_def d with_aliases_def
    by (simp add: convertMapsToForward_eq)
  have 2: "convertMapsToForward (with_aliases c3 f m ob) = with_aliases c3 f m ob"
    by (simp add: convertMapsToForward_eq with_aliases_def d converted_idem)
  have 3: "syncAliases bm (with_aliases c3 f m ob) = with_aliases c3 f m ob"
    by (simp add: syncAliases_def with_aliases_def d sync_idem)
  have "trimmed (with_aliases c3 f m ob)" "base_fixed (with_aliases c3 f m ob)"
    using t b by (simp_all add: with_aliases_steps)
  then show ?thesis
    unfolding 1 by (simp add: prepare_def trimmed_fixed base_fixed with_aliases_steps(3) p 2 3)
qed

section \<open>Loading twice\<close>

text \<open>What the YAML library promises for one configuration: reading back what was written.\<close>

definition yaml_ok :: "yamlcodec \<Rightarrow> Config \<Rightarrow> bool" where
  "yaml_ok y c \<longleftrightarrow> (\<exists>b. yaml_Marshal y c = Inr b \<and> yaml_Unmarshal y b = Inr c)"

lemma SaveConfig_then_read:
  assumes "yaml_ok y c" and "fs_wfail s path = None"
  obtains b s' where "SaveConfig y c path s = (None, s')" "fs_files s' path = Inr b"
    "yaml_Unmarshal y b = Inr c" "fs_wfail s' = fs_wfail s"
  using assms by (auto simp: yaml_ok_def SaveConfig_def WriteFile_def)

lemma prepare_version: "ConfigVersion (prepare bm c) = ConfigVersion c"
  by (simp add: prepare_def syncAliases_def convertMapsToForward_def applyBaseDefaults_def
      trim_config_def Let_def)

lemma LoadConfig_current:
  assumes "fs_files s path = Inr b" and "yaml_Unmarshal y b = Inr c" and "2 \<le> ConfigVersion c"
  shows "LoadConfig y bm path s = (Inr (prepare bm c), s)"
  using assms prepare_version [of bm c]
  by (simp add: LoadConfig_def migrateConfig_def CurrentConfigVersion_def)

text \<open>
  C12. Loading a version 2 file does not touch the file system, and saving what was loaded and
  loading again gives the same configuration: every default, profile setting and alias is a fixed
  point. (A fake path of spaces only, or a server's untrimmed first port without a \<open>listen\<close>, is
  excluded: those are normalised a second time.)
\<close>

theorem load_save_load_stable:
  assumes "fs_files s path = Inr b" and "yaml_Unmarshal y b = Inr c0" and "2 \<le> ConfigVersion c0"
    and "path_plain c0" and "listen_plain c0"
    and "yaml_ok y (prepare bm c0)" and "fs_wfail s path = None"
  shows "LoadConfig y bm path s = (Inr (prepare bm c0), s) \<and>
    (\<exists>s'. SaveConfig y (prepare bm c0) path s = (None, s') \<and>
       LoadConfig y bm path s' = (Inr (prepare bm c0), s'))"
proof -
  obtain b' s' where s': "SaveConfig y (prepare bm c0) path s = (None, s')" "fs_files s' path = Inr b'"
      "yaml_Unmarshal y b' = Inr (prepare bm c0)"
    using SaveConfig_then_read [OF assms(6,7)] by metis
  have "LoadConfig y bm path s' = (Inr (prepare bm c0), s')"
    using LoadConfig_current [OF s'(2,3), of bm] prepare_version [of bm c0] assms(3)
      prepare_idem [OF assms(4,5), of bm] by simp
  with LoadConfig_current [OF assms(1-3), of bm] s'(1) show ?thesis by blast
qed

definition const_yaml :: "Config \<Rightarrow> Config \<Rightarrow> yamlcodec" where
  "const_yaml c d = \<lparr>yaml_Marshal = (\<lambda>_. Inr [1]),
     yaml_Unmarshal = (\<lambda>b. Inr (if b = [1] then d else c))\<rparr>"

theorem load_save_load_stable_witness:
  "\<exists>c y s s'. SaveConfig y c ''f'' s = (None, s') \<and> LoadConfig y (\<lambda>_. 0) ''f'' s = (Inr c, s) \<and>
     LoadConfig y (\<lambda>_. 0) ''f'' s' = (Inr c, s')"
proof -
  let ?c = "zero_config\<lparr>ConfigVersion := 2\<rparr>"
  let ?y = "const_yaml ?c (prepare (\<lambda>_. 0) ?c)"
  have "path_plain ?c" "listen_plain ?c" "2 \<le> ConfigVersion ?c"
    by (simp_all add: path_plain_def listen_plain_def zero_config_def)
  moreover have "yaml_ok ?y (prepare (\<lambda>_. 0) ?c)" by (simp add: yaml_ok_def const_yaml_def)
  moreover have "fs_files (demo_fs 0) ''f'' = Inr [0]" "fs_wfail (demo_fs 0) ''f'' = None"
      "yaml_Unmarshal ?y [0] = Inr ?c"
    by (simp_all add: demo_fs_def const_yaml_def)
  ultimately show ?thesis
    using load_save_load_stable [of "demo_fs 0" "''f''" "[0]" ?y ?c "\<lambda>_. 0"] by blast
qed

section \<open>The first load of an old file\<close>

text \<open>The configuration a file below version 2 is loaded and saved as.\<close>

definition migrated :: "(64 word \<Rightarrow> int) \<Rightarrow> Config \<Rightarrow> Config" where
  "migrated bm c0 = (migrate_v1 (prepare bm c0))\<lparr>ConfigVersion := 2\<rparr>"

lemma first_load:
  assumes "fs_files s path = Inr b" and "yaml_Unmarshal y b = Inr c0" and "ConfigVersion c0 < 2"
    and "path \<noteq> []" and "yaml_ok y (migrated bm c0)" and "fs_wfail s path = None"
  shows "\<exists>s'. LoadConfig y bm path s = (Inr (migrated bm c0), s') \<and>
    LoadConfig y bm path s' = (Inr (prepare bm (migrated bm c0)), s')"
proof -
  obtain b' s' where s': "SaveConfig y (migrated bm c0) path s = (None, s')" "fs_files s' path = Inr b'"
      "yaml_Unmarshal y b' = Inr (migrated bm c0)"
    using SaveConfig_then_read [OF assms(5,6)] by metis
  have "LoadConfig y bm path s = (Inr (migrated bm c0), s')"
    using assms(1-4) s'(1) prepare_version [of bm c0]
    by (simp add: LoadConfig_def migrateConfig_def CurrentConfigVersion_def migrated_def Let_def)
  moreover have "2 \<le> ConfigVersion (migrated bm c0)" by (simp add: migrated_def)
  ultimately show ?thesis using LoadConfig_current [OF s'(2,3), of bm] by blast
qed

definition profile_of :: "Config \<Rightarrow> string" where
  "profile_of c = ToLower (TrimSpace (Profile c))"

lemma prepare_Profile: "Profile (prepare bm c) = str_or (profile_of c) ''balanced''"
  by (simp add: prepare_def syncAliases_def convertMapsToForward_def applyBaseDefaults_def
      trim_config_def profile_of_def Let_def)

lemma prepare_lowcpu:
  assumes "profile_of c \<in> {''lowcpu'', ''cpu-efficient''}"
  shows "sm_MaxRecv (Smux (prepare bm c)) = 524288" "sm_MaxStream (Smux (prepare bm c)) = 524288"
proof -
  have t: "ToLower (Profile (applyBaseDefaults (trim_config c))) = profile_of c"
    using assms by (auto simp: applyBaseDefaults_def trim_config_def profile_of_def str_or_def Let_def)
  then have "Smux (prepare bm c) = Smux (applyProfile (applyBaseDefaults (trim_config c)))"
    by (simp add: prepare_def syncAliases_def convertMapsToForward_def)
  moreover have "profile_of c = ''lowcpu'' \<or> profile_of c = ''cpu-efficient''" using assms by simp
  ultimately show "sm_MaxRecv (Smux (prepare bm c)) = 524288" "sm_MaxStream (Smux (prepare bm c)) = 524288"
    using t by (elim disjE; simp add: applyProfile_def Let_def)+
qed

lemma prepare_gaming:
  assumes "profile_of c \<in> {''gaming'', ''latency''}"
  shows "st_RandomPadding (Stealth (prepare bm c)) = False" "sm_KeepAlive (Smux (prepare bm c)) = 1"
proof -
  have t: "ToLower (Profile (applyBaseDefaults (trim_config c))) = profile_of c"
    using assms by (auto simp: applyBaseDefaults_def trim_config_def profile_of_def str_or_def Let_def)
  then have "Smux (prepare bm c) = Smux (applyProfile (applyBaseDefaults (trim_config c)))"
      "Stealth (prepare bm c) = Stealth (applyProfile (applyBaseDefaults (trim_config c)))"
    by (simp_all add: prepare_def syncAliases_def convertMapsToForward_def)
  moreover have "profile_of c = ''gaming'' \<or> profile_of c = ''latency''" using assms by simp
  ultimately show "st_RandomPadding (Stealth (prepare bm c)) = False" "sm_KeepAlive (Smux (prepare bm c)) = 1"
    using t by (elim disjE; simp add: applyProfile_def Let_def)+
qed

lemma profile_of_migrated: "profile_of c \<noteq> [] \<Longrightarrow> profile_of (migrated bm c) = profile_of c"
proof -
  assume "profile_of c \<noteq> []"
  then have "Profile (prepare bm c) = profile_of c" by (simp add: prepare_Profile str_or_def)
  then show ?thesis by (simp add: profile_of_def migrated_def migrate_v1_def)
qed

text \<open>
  The profiles are not what the migration leaves on a first load: an old file with the lowcpu
  profile runs with 4 MB smux buffers the first time, the profile's 512 KB being taken for an old
  default, and with 512 KB ever after; with the gaming and latency profiles stealth padding, which
  the profile turns off, is on the first time only (and latency's one second keepalive is two).
\<close>

theorem migration_overrides_profile_once:
  assumes "fs_files s path = Inr b" and "yaml_Unmarshal y b = Inr c0" and "ConfigVersion c0 < 2"
    and "path \<noteq> []" and "yaml_ok y (migrated bm c0)" and "fs_wfail s path = None"
    and "profile_of c0 \<in> {''lowcpu'', ''cpu-efficient'', ''gaming'', ''latency''}"
  shows "\<exists>c1 c2 s'. LoadConfig y bm path s = (Inr c1, s') \<and> LoadConfig y bm path s' = (Inr c2, s') \<and>
    (if profile_of c0 \<in> {''lowcpu'', ''cpu-efficient''}
     then sm_MaxRecv (Smux c1) = 4194304 \<and> sm_MaxStream (Smux c1) = 4194304 \<and>
       sm_MaxRecv (Smux c2) = 524288 \<and> sm_MaxStream (Smux c2) = 524288
     else st_RandomPadding (Stealth c1) \<and> \<not> st_RandomPadding (Stealth c2) \<and>
       sm_KeepAlive (Smux c1) = (if profile_of c0 = ''gaming'' then 1 else 2) \<and>
       sm_KeepAlive (Smux c2) = 1)"
proof -
  let ?c1 = "migrated bm c0"
  have ne: "profile_of c0 \<noteq> []" using assms(7) by auto
  note p = profile_of_migrated [OF ne, of bm]
  obtain s' where s': "LoadConfig y bm path s = (Inr ?c1, s')"
      "LoadConfig y bm path s' = (Inr (prepare bm ?c1), s')"
    using first_load [OF assms(1-6)] by blast
  have "Profile (prepare bm c0) = profile_of c0"
    using ne by (simp add: prepare_Profile str_or_def)
  then have m: "Smux ?c1 = migrate_smux (profile_of c0) (Smux (prepare bm c0))" "st_RandomPadding (Stealth ?c1)"
    by (simp_all add: migrated_def migrate_v1_def)
  show ?thesis
  proof (cases "profile_of c0 \<in> {''lowcpu'', ''cpu-efficient''}")
    case True
    have "sm_MaxRecv (Smux ?c1) = 4194304" "sm_MaxStream (Smux ?c1) = 4194304"
      unfolding m(1) migrate_smux_def by (simp_all add: prepare_lowcpu [OF True])
    moreover have "profile_of ?c1 \<in> {''lowcpu'', ''cpu-efficient''}" using True unfolding p .
    note prepare_lowcpu [OF this, of bm]
    ultimately show ?thesis unfolding if_P [OF True] using s' by blast
  next
    case False
    with assms(7) have g: "profile_of c0 \<in> {''gaming'', ''latency''}" by blast
    have "sm_KeepAlive (Smux ?c1) = (if profile_of c0 = ''gaming'' then 1 else 2)"
      unfolding m(1) migrate_smux_def by (simp add: prepare_gaming [OF g])
    moreover have "profile_of ?c1 \<in> {''gaming'', ''latency''}" using g unfolding p .
    note prepare_gaming [OF this, of bm]
    ultimately show ?thesis unfolding if_not_P [OF False] using s' m(2) by blast
  qed
qed

theorem migration_overrides_profile_once_witness:
  "\<exists>y c1 c2 s s'. LoadConfig y (\<lambda>_. 0) ''f'' s = (Inr c1, s') \<and> LoadConfig y (\<lambda>_. 0) ''f'' s' = (Inr c2, s') \<and>
     sm_MaxRecv (Smux c1) = 4194304 \<and> sm_MaxRecv (Smux c2) = 524288"
proof -
  let ?c = "zero_config\<lparr>Profile := '' lowcpu ''\<rparr>"
  let ?y = "const_yaml ?c (migrated (\<lambda>_. 0) ?c)"
  have f: "fs_files (demo_fs 0) ''f'' = Inr [0]" "fs_wfail (demo_fs 0) ''f'' = None"
      "yaml_Unmarshal ?y [0] = Inr ?c" "yaml_ok ?y (migrated (\<lambda>_. 0) ?c)"
    by (simp_all add: demo_fs_def const_yaml_def yaml_ok_def)
  have "ConfigVersion ?c < 2" by (simp add: zero_config_def)
  have p: "profile_of ?c = ''lowcpu''"
    by (simp add: profile_of_def string_eval)
  then have "profile_of ?c \<in> {''lowcpu'', ''cpu-efficient'', ''gaming'', ''latency''}" by simp
  from migration_overrides_profile_once [OF f(1,3) \<open>ConfigVersion ?c < 2\<close> _ f(4,2) this] p
  show ?thesis by simp blast
qed

end
