(* ===== verification/Program.thy ===== *)
theory Program
  imports TunnelProps ClientSteps ConfigStable
begin

text \<open>
  cmd/picotun/main.go: the program's dispatch from its flags and configuration file to the server or
  the client, with what a started server listens on.
\<close>

datatype program_end =
    PrintedVersion
  | FatalError gerror
  | ServerStarted "(string \<times> string) list" "(string \<times> string) list" "listen list"
  | ClientStarted "startup list"

definition main_run ::
    "httplib \<Rightarrow> smuxcfg \<Rightarrow> yamlcodec \<Rightarrow> (64 word \<Rightarrow> int) \<Rightarrow> bool \<Rightarrow> string \<Rightarrow> string \<Rightarrow> fs \<Rightarrow> world \<Rightarrow>
     (program_end \<times> fs \<times> world) outcome" where
  "main_run lib dflt y burst_milli showVersion configPath configShort s w =
     (if showVersion then Return (PrintedVersion, s, w)
      else
        let cfgPath = (if configShort \<noteq> [] then configShort else configPath)
        in case LoadConfig y burst_milli cfgPath s of
             (Inl e, s) \<Rightarrow> Return (FatalError (Wrap ''config'' e), s, w)
           | (Inr cfg, s) \<Rightarrow>
               let mode = ToLower (TrimSpace (Mode cfg))
               in if mode = ''server'' then
                    obind (server_Start lib dflt (sv_Config (NewServer cfg)) w)
                      (\<lambda>(tcp, udp, ls, w). Return (ServerStarted tcp udp ls, s, w))
                  else if mode = ''client'' then
                    (case client_Start dflt (NewClient cfg) w of
                      (Inl e, w) \<Rightarrow> Return (FatalError e, s, w)
                    | (Inr evs, w) \<Rightarrow> Return (ClientStarted evs, s, w))
                  else Return (FatalError (ErrorfStr ''unknown mode'' (Mode cfg)), s, w))"

text \<open>The listener every port of a server gets.\<close>

definition port_listener :: "Config \<Rightarrow> pattern \<Rightarrow> string \<Rightarrow> listen" where
  "port_listener cfg p a =
     (let server = \<lparr>hs_Addr = a, hs_Handler = p, hs_ReadHeaderTimeout = 10 * second,
            hs_IdleTimeout = 120 * second, hs_MaxHeaderBytes = 65536\<rparr>
      in if ToLower (Transport cfg) \<in> {''httpsmux'', ''wssmux''} \<and> CertFile cfg \<noteq> [] \<and> KeyFile cfg \<noteq> []
         then ListenAndServeTLS server (CertFile cfg) (KeyFile cfg) else ListenAndServe server)"

lemma listenOnPort_ok:
  "mux_register lib (tunnel_prefix (Some (Mimic cfg))) = Return p \<Longrightarrow>
   listenOnPort lib cfg a = Return (port_listener cfg p a)"
  by (simp add: listenOnPort_def port_listener_def Let_def)

lemma listen_ports_ok:
  "mux_register lib (tunnel_prefix (Some (Mimic cfg))) = Return p \<Longrightarrow>
   listen_ports lib cfg as w =
     Return (map (port_listener cfg p) as, w\<lparr>w_sleeps := w_sleeps w @ replicate (length as) (100 * millisecond)\<rparr>)"
  by (induction as arbitrary: w) (simp_all add: listenOnPort_ok sleep_def)

lemma listen_ports_panic:
  "mux_register lib (tunnel_prefix (Some (Mimic cfg))) = Panic e \<Longrightarrow> as \<noteq> [] \<Longrightarrow> listen_ports lib cfg as w = Panic e"
  by (cases as) (simp_all add: listenOnPort_def)

lemma jittered_sleeps: "w_sleeps (snd (jittered k j w)) = w_sleeps w"
  by (simp add: jittered_def secureRandInt_def Let_def split: list.splits)

lemma buildSmuxConfig_sleeps: "w_sleeps (snd (buildSmuxConfig dflt cfg w)) = w_sleeps w"
  by (simp add: buildSmuxConfig_def Let_def case_prod_beta jittered_sleeps)

text \<open>
  C24. A program started on a server's file listens on every configured port, and there is one: with
  the tunnel's pattern, the pause of 100 ms after each of several, and with TLS exactly when the
  transport is httpsmux or wssmux and both the certificate and the key are set; without them a TLS
  transport is served in the clear. When net/http does not take the pattern, such as a bare slash,
  which is registered twice, the program panics at its start instead and listens on no port.
\<close>

theorem server_listens_on_all_ports:
  assumes "LoadConfig y bm path s = (Inr cfg, s')" and "Mode cfg = ''server''"
  shows "ListenPorts cfg \<noteq> [] \<and>
    (case mux_register lib (tunnel_prefix (Some (Mimic cfg))) of
      Panic e \<Rightarrow> main_run lib dflt y bm False path [] s w = Panic e
    | Return p \<Rightarrow>
        \<exists>w'. main_run lib dflt y bm False path [] s w =
          Return (ServerStarted (start_listeners (fw_TCP (forward cfg))) (start_listeners (fw_UDP (forward cfg)))
            (map (port_listener cfg p) (ListenPorts cfg)), s', w') \<and>
          w_sleeps w' = w_sleeps w @
            (if length (ListenPorts cfg) = 1 then [] else replicate (length (ListenPorts cfg)) (100 * millisecond)))"
proof -
  have m: "ToLower (TrimSpace (Mode cfg)) = ''server''" by (simp add: assms(2) string_eval)
  have ne: "ListenPorts cfg \<noteq> []"
    using loaded_config_ok [OF assms(1)] assms(2) by (auto simp: config_ok_def based_def)
  obtain sc w1 where b: "buildSmuxConfig dflt cfg w = (sc, w1)" by (metis prod.collapse)
  show ?thesis
  proof (cases "mux_register lib (tunnel_prefix (Some (Mimic cfg)))")
    case (Panic e)
    then show ?thesis
      using ne b assms(1) m listen_ports_panic [OF Panic ne]
      by (simp add: main_run_def server_Start_def NewServer_def listenOnPort_def Let_def)
  next
    case (Return p)
    have "length (ListenPorts cfg) = 1 \<Longrightarrow> map (port_listener cfg p) (ListenPorts cfg) =
        [port_listener cfg p (ListenPorts cfg ! 0)]"
      by (cases "ListenPorts cfg") simp_all
    then show ?thesis
      using Return ne b buildSmuxConfig_sleeps [of dflt cfg w] assms(1) m
      by (simp add: main_run_def server_Start_def NewServer_def listenOnPort_ok [OF Return]
          listen_ports_ok [OF Return] Let_def)
  qed
qed

theorem server_listens_on_all_ports_witness:
  "\<exists>cfg s' p ls w'. main_run demo_http demo_smux (demo_yaml (zero_config\<lparr>Mode := ''server'', ListenPorts := [''a:1'', ''b:2'']\<rparr>))
       (\<lambda>_. 0) False ''f'' [] (demo_fs 2) (demo_world 3) = Return (ServerStarted [] [] ls, s', w') \<and>
     ls = map (port_listener cfg p) [''a:1'', ''b:2''] \<and> w_sleeps w' = [100 * millisecond, 100 * millisecond]"
proof -
  let ?file = "zero_config\<lparr>Mode := ''server'', ListenPorts := [''a:1'', ''b:2'']\<rparr>" and ?w = "demo_world 3"
  let ?c = "prepare (\<lambda>_. 0) (?file\<lparr>ConfigVersion := 2\<rparr>)"
  have v: "ConfigVersion ?c = 2" "Mode ?c = ''server''" "ListenPorts ?c = [''a:1'', ''b:2'']"
      "forward ?c = forward zero_config" "mi_FakePath (Mimic ?c) = ''/search''"
    by (simp_all add: prepare_defs string_eval zero_config_def)
  have l: "LoadConfig (demo_yaml ?file) (\<lambda>_. 0) ''f'' (demo_fs 2) = (Inr ?c, demo_fs 2)"
    using v(1) by (simp add: demo_LoadConfig migrateConfig_def CurrentConfigVersion_def)
  have "tunnel_prefix (Some (Mimic ?c)) = ''/search''"
    by (rule tunnel_prefix_rand [where rnd = False]) (simp_all add: v(5))
  moreover have "plain_path ''/search''" by (simp add: plain_path_def HasPrefix_def plain_char_def letters_def)
  ultimately have p: "mux_register demo_http (tunnel_prefix (Some (Mimic ?c))) = Return (root_of ''/search'')"
    using mux_register_plain [of "''/search''" demo_http] by simp
  have f: "start_listeners (fw_TCP (forward zero_config)) = []" "start_listeners (fw_UDP (forward zero_config)) = []"
    by (simp_all add: zero_config_def start_listeners_def)
  have "w_sleeps ?w = []" by (simp add: demo_world_def)
  with server_listens_on_all_ports [OF l v(2), of demo_http demo_smux ?w] show ?thesis
    unfolding p v(3,4) f by (auto simp: numeral_2_eq_2)
qed

section \<open>A client\<close>

text \<open>The start-up of workers \<open>i\<close>, \<open>i + 1\<close>, ..., each followed by its pause.\<close>

fun paced :: "nat \<Rightarrow> int list \<Rightarrow> startup list" where
  "paced i [] = []"
| "paced i (d # ds) = GoWorker i # Pause d # paced (Suc i) ds"

lemma launch_trace:
  assumes "0 < j" "j \<le> 1000000000"
  shows "\<exists>ds w'. launch i n j w = (paced i ds, w') \<and> w_sleeps w' = w_sleeps w @ ds \<and> length ds = n \<and>
    (\<forall>d \<in> set ds. 500 * millisecond \<le> d \<and> d \<le> (500 + j) * millisecond)"
proof (induction n arbitrary: i w)
  case 0
  then show ?case by simp
next
  case (Suc n)
  obtain r w1 where r: "secureRandInt (i64 (j + 1)) w = (r, w1)" by (metis prod.collapse)
  have "i64 (j + 1) = j + 1" using assms by (intro i64_small) simp_all
  with secureRandInt_less [OF r] secureRandInt_nonneg [OF r] assms have b: "0 \<le> r" "r \<le> j" by simp_all
  let ?d = "i64 (i64 (500 + r) * millisecond)"
  have "i64 (500 + r) = 500 + r" using b assms by (intro i64_small) simp_all
  moreover have "i64 ((500 + r) * millisecond) = (500 + r) * millisecond"
    using b assms by (intro i64_small) (simp_all add: millisecond_def)
  ultimately have d: "500 * millisecond \<le> ?d" "?d \<le> (500 + j) * millisecond"
    using b by (simp_all add: millisecond_def)
  obtain ds w' where "launch (Suc i) n j (sleep ?d w1) = (paced (Suc i) ds, w')"
      "w_sleeps w' = w_sleeps (sleep ?d w1) @ ds" "length ds = n"
      "\<forall>d \<in> set ds. 500 * millisecond \<le> d \<and> d \<le> (500 + j) * millisecond"
    using Suc.IH [of "Suc i" "sleep ?d w1"] by blast
  with d r secureRandInt_sleeps [OF r] show ?case
    by (intro exI [of _ "?d # ds"] exI [of _ w']) (simp add: sleep_def Let_def)
qed

text \<open>
  C25. A program started on a client's file whose connection jitter is at most 10^9 ms first starts
  the health check, then the workers one after the other: as many as the first path asks for, or as
  the file's number of connections when there is only a server address, at least one; behind each it
  pauses for 500 ms and up to the jitter more. However they run from there, the pool never holds
  more sessions than workers. Without a path or an address the program ends with an error.
\<close>

theorem client_program_starts:
  assumes "LoadConfig y bm path s = (Inr cfg, s')" and "Mode cfg = ''client''"
    and "st_ConnJitterMS (Stealth cfg) \<le> 1000000000"
  shows "if Paths cfg = [] \<and> ServerURL cfg = []
    then main_run lib dflt y bm False path [] s w = Return (FatalError (Errorf ''no paths configured''), s', w)
    else \<exists>n ds w'. main_run lib dflt y bm False path [] s w =
        Return (ClientStarted (GoHealthCheck # paced 0 ds), s', w') \<and> length ds = n \<and> 0 < n \<and>
      int n = (if Paths cfg = [] then NumConnections cfg else pa_ConnectionPool (hd (Paths cfg))) \<and>
      w_sleeps w' = w_sleeps w @ ds \<and>
      (\<forall>d \<in> set ds. 500 * millisecond \<le> d \<and> d \<le> (500 + st_ConnJitterMS (Stealth cfg)) * millisecond) \<and>
      (\<forall>z. cl_reach (cl_started n cfg) z \<longrightarrow> sessionCount (cy_client z) \<le> n)"
proof -
  have m: "ToLower (TrimSpace (Mode cfg)) = ''client''" by (simp add: assms(2) string_eval)
  have ok: "0 < NumConnections cfg" "0 < st_ConnJitterMS (Stealth cfg)" "list_all path_pos (Paths cfg)"
    using loaded_config_ok [OF assms(1)] by (simp_all add: config_ok_def based_def stealth_pos_def)
  show ?thesis
  proof (cases "Paths cfg = [] \<and> ServerURL cfg = []")
    case True
    with assms(1) m show ?thesis by (simp add: main_run_def client_Start_def NewClient_def Let_def)
  next
    case False
    let ?k = "if Paths cfg = [] then NumConnections cfg else pa_ConnectionPool (hd (Paths cfg))"
    have k: "0 < ?k" using ok(1,3) by (cases "Paths cfg") (simp_all add: path_pos_def)
    obtain p ps where p: "cl_paths (NewClient cfg) = p # ps" "pa_ConnectionPool p = ?k"
      using False by (cases "Paths cfg") (auto simp: NewClient_def)
    obtain sc w1 where b: "buildSmuxConfig dflt cfg w = (sc, w1)" by (metis prod.collapse)
    have c: "cl_cfg (NewClient cfg) = cfg" by (simp add: NewClient_def Let_def)
    obtain ds w' where ds: "launch 0 (nat ?k) (st_ConnJitterMS (Stealth cfg)) w1 = (paced 0 ds, w')"
        "w_sleeps w' = w_sleeps w @ ds" "length ds = nat ?k"
        "\<forall>d \<in> set ds. 500 * millisecond \<le> d \<and> d \<le> (500 + st_ConnJitterMS (Stealth cfg)) * millisecond"
      using launch_trace [OF ok(2) assms(3), of 0 "nat ?k" w1] buildSmuxConfig_sleeps [of dflt cfg w] b by auto
    have r: "main_run lib dflt y bm False path [] s w = Return (ClientStarted (GoHealthCheck # paced 0 ds), s', w')"
      using assms(1) m p k b ds(1) by (simp add: main_run_def client_Start_def c pos_or_def Let_def del: nat_0_iff)
    have "sessionCount (cy_client z) \<le> nat ?k" if "cl_reach (cl_started (nat ?k) cfg) z" for z
      using cl_ok_count(2) [OF cl_reach_ok [OF that cl_started_ok]] .
    with r ds k False show ?thesis
      by (simp only: if_False) (intro exI [of _ "nat ?k"] exI [of _ ds] exI conjI allI impI; simp)
  qed
qed

theorem client_program_starts_witness:
  "\<exists>s' w' a b c. main_run demo_http demo_smux (demo_yaml (zero_config\<lparr>Mode := ''client'', ServerURL := ''h:80'', NumConnections := 3\<rparr>))
       (\<lambda>_. 0) False ''f'' [] (demo_fs 2) (demo_world 3) =
     Return (ClientStarted [GoHealthCheck, GoWorker 0, Pause a, GoWorker 1, Pause b, GoWorker 2, Pause c], s', w') \<and>
     w_sleeps w' = [a, b, c] \<and> (\<forall>d \<in> {a, b, c}. 500 * millisecond \<le> d \<and> d \<le> 1000 * millisecond)"
proof -
  let ?file = "zero_config\<lparr>Mode := ''client'', ServerURL := ''h:80'', NumConnections := 3\<rparr>" and ?w = "demo_world 3"
  let ?c = "prepare (\<lambda>_. 0) (?file\<lparr>ConfigVersion := 2\<rparr>)"
  have v: "ConfigVersion ?c = 2" "Mode ?c = ''client''" "Paths ?c = []" "ServerURL ?c = ''h:80''"
      "NumConnections ?c = 3" "st_ConnJitterMS (Stealth ?c) = 500"
    by (simp_all add: prepare_defs string_eval zero_config_def)
  have l: "LoadConfig (demo_yaml ?file) (\<lambda>_. 0) ''f'' (demo_fs 2) = (Inr ?c, demo_fs 2)"
    using v(1) by (simp add: demo_LoadConfig migrateConfig_def CurrentConfigVersion_def)
  have "w_sleeps ?w = []" "st_ConnJitterMS (Stealth ?c) \<le> 1000000000" by (simp_all add: demo_world_def v)
  with client_program_starts [OF l v(2), of demo_http demo_smux ?w] v(3-6)
  obtain ds w' where ds: "main_run demo_http demo_smux (demo_yaml ?file) (\<lambda>_. 0) False ''f'' [] (demo_fs 2) ?w =
      Return (ClientStarted (GoHealthCheck # paced 0 ds), demo_fs 2, w')" "length ds = 3" "w_sleeps w' = ds"
      "\<forall>d \<in> set ds. 500 * millisecond \<le> d \<and> d \<le> 1000 * millisecond" by auto
  then obtain a b c where "ds = [a, b, c]" by (auto simp: numeral_3_eq_3 length_Suc_conv)
  with ds show ?thesis by (auto simp: numeral_2_eq_2)
qed

end
