(* ===== verification/Spec2Isabelle.thy ===== *)
theory Spec2Isabelle
  imports EncProps Psk Dial PortMaps ServerSteps SmuxCfg Handshakes ServerRun Session ClientSteps
    Udp ReverseTcp ForwardProxy Program
begin

text \<open>
  \<^bold>\<open>PTPlus (package httpmux): a verification development.\<close>

  The program tunnels TCP and UDP between two machines. A client dials the server, sends what looks
  like a WebSocket upgrade, wraps the connection in encrypted and padded packets and runs a smux
  session over it; each side then opens streams in the session, names a target in a short header
  and relays bytes. The server offers mapped ports whose connections travel to the client as
  reverse streams. Definitions are translated from the Go sources function by function and keep
  their names; a method of a struct is a function on its record, with a prefix where two structs
  have a method of the same name (\<open>ec_\<close> encrypted connection, \<open>fc_\<close> fragmenting connection,
  \<open>bc_\<close> buffered connection, \<open>nc_\<close> any dialled connection, \<open>cl_\<close> client).

  \<^bold>\<open>How the code is modelled.\<close>
  \<^item> A Go \<open>int\<close> is an \<open>int\<close>, wrapped to 64 bits by \<open>i64\<close> where the code multiplies, adds or counts
    without a bound; 16, 32 and 64 bit fields, atomic counters and bytes are words; strings and byte slices are lists.
  \<^item> An error is a value of \<open>gerror\<close>, a fallible function returns \<open>gerror + 'a\<close>; a panic (slice
    bounds, index, nil dereference, mux pattern) is \<open>Panic\<close> in \<open>outcome\<close>.
  \<^item> A connection is what will arrive on it, the writes made so far, a schedule of read sizes and of
    write errors. Theorems quantify over the schedules. Read deadlines are recorded in it. In a relay,
    where none is set, reads and writes wait for the peer (\<open>waits\<close>), which takes steps of its own.
  \<^item> Randomness and sleeping are a \<open>world\<close>: a list of draws, each of which may fail, and the list of
    pauses made. Time is an argument.
  \<^item> Goroutines are interleaved steps (\<open>inductive\<close> relations). On the pools of server and client a step
    is one access to what is shared: an atomic load or addition, a call into smux, or what is done
    under a lock. The server's loops under the read lock take a step for each session and hold back
    writers only (\<open>unlocked\<close>); a health check under the write lock may find a session closed or not
    when it closes meanwhile. In UDP a step is what the flow table's own mutex covers.
  \<^item> Log lines are left out.

  \<^bold>\<open>Theories.\<close>
  \<^item> Prelude, Conn: integers, outcomes, big-endian fields, connections, \<open>io.ReadFull\<close>; the interfaces
    \<open>byte_sink\<close> and \<open>byte_source\<close> that every connection wrapper provides and whose laws every user
    of one rests on. GoStrings: packages strings and net on byte strings.
  \<^item> ConfigTypes, ConfigLoad, ConfigProps, ConfigStable, Utils, PortMaps: config.go and utils.go.
    Every loaded configuration is in range, loading is a fixed point from version 2 on, what the
    migration does on a first load, and port maps from the file to the listeners.
  \<^item> Padding, EncConn, EncProps, Psk: obfuscation.go, encrypted_conn.go, crypto.go. The three padding
    schemes are interpretations of \<open>padding_scheme\<close>; the encrypted connection is a sink over any
    sink and a source over any source, from which the round trip of a stream of writes follows;
    then every refusal of a read and the sizes where the code fails.
  \<^item> Fragment, Dial: tls_fragment.go and the two dialRawTCP files. What reaches the wire in which
    writes, and the trace of system calls with what becomes of each descriptor.
  \<^item> NetConn, Http, HttpMsg, Mimic, MimicProps: mimic.go with what it uses of bufio and net/http.
    The handshake reads the head of the response and leaves every later byte to the tunnel.
    Handshakes: the file's two handshakes against each other.
  \<^item> Tunnel, TunnelProps: the HTTP side of server.go. Which requests are routed, validated and
    upgraded, and that all others get the decoy. ServerRun: the handler from the request to its
    return beside everything else the server does, and that no goroutine gets another stream of a
    session whose handler has returned.
  \<^item> Streams: the headers of streams and their handlers in server.go and client.go, as round trips.
    Pool, PoolProps: the session pool as an instance of \<open>session_pool\<close>, and one call of
    openReverseStream, whose choice of a session refines its specification \<open>wanted\<close>. FakeTraffic: one
    tick of the fake traffic loop. Goroutines: both again as the steps of a goroutine, which do what
    the functions say when nothing comes in between, with the other goroutines that use the pool.
    ServerSteps: all of them interleaved, and the stream counters as an invariant of every run.
    SmuxCfg: \<open>buildSmuxConfig\<close>.
  \<^item> Relay: the three goroutines of \<open>relay\<close>; prefix invariant, and that it returns by
    its own steps, by a measure, once one direction has ended.
    ReverseTcp, Udp: the mapped ports. ReverseTcp composes pool, header, handler and relay into the
    way of a user's bytes to the target; ForwardProxy does so for the streams the client opens.
  \<^item> Client, ClientLoop, ClientProps, ClientPool, ClientSteps: client.go. Dialling, serving and the pool
    worker with its backoff and change of paths, the client's pool, the second instance of
    \<open>session_pool\<close>, and its invariant over all interleavings of the workers, the health check and the
    steps of OpenStream. Start is the list of what it does in order: launching workers and pausing.
  \<^item> Session: the connection the server's handler gives to smux and the one the client gives to it
    carry each other's bytes, through upgrade, padding and encryption.
  \<^item> Program: cmd/picotun/main.go over all of it.

  \<^bold>\<open>Bounds.\<close> No definition has fuel: recursion is on lists or by a measure that is proved, and loops
  without an end (the workers, the accept loops, the tickers) are a function of the events they have
  seen or a step relation. Where a property bounds an argument, the bound is the one the code's field
  widths impose (65533 bytes for padded data, 4096 for a target) or keeps products inside 64 bits
  (\<open>smux_config_bounds\<close>, \<open>worker_paces_and_stays_in_range\<close>).

  \<^bold>\<open>Parameters.\<close> Code that is not in the repository is an argument: the cipher and hash
  (\<open>aead\<close>, \<open>cryptolib\<close>, with \<open>aead_ok\<close> and \<open>lib_ok\<close>: opening inverts sealing, the overhead is
  constant), the YAML codec (\<open>yaml_ok\<close>: what was written reads back), URL and header parsing of
  net/http (\<open>httplib\<close>, \<open>http_ok\<close> for plain hosts and paths, \<open>reads_back\<close> for a request written and
  read again), name resolution and system calls (\<open>osnet\<close>), the TLS handshake and smux
  (\<open>clientenv\<close>, the schedule of answers in a session, and \<open>may\<close>, what it can answer in the state of a
  session, with \<open>refuses_closed\<close>: a closed session opens no stream).

  \<^bold>\<open>Not modelled.\<close> The frames of smux inside a session and TLS records (library code; a stream is a
  connection, so two ends of one are related by a hypothesis that the bytes written arrive); the HTTP
  server's own loop (its timeouts and header limit are recorded in \<open>httpServer\<close>); failures to bind a port; deadlines as real time
  (they are recorded as actions); data races other than the interleaving of the atomic steps; the
  shell scripts that install the program; address and deadline methods that only delegate.
\<close>

end
